(* ===== verification/Rip_Prelude.thy ===== *)
theory Rip_Prelude
  imports "HOL-Library.Word"
begin

text \<open>
  Shared vocabulary of the development: the machine integers of the Rust code, the crate's
  result and error types (\<^verbatim>\<open>src/src/result.rs\<close>), the shape of a Rust method that mutates
  \<^verbatim>\<open>&mut self\<close> and returns a \<^verbatim>\<open>Result\<close>, and the generic lemmas and collections the components
  share.

  A method \<^verbatim>\<open>fn f(&mut self) -> RipResult<T>\<close> is a function from the state to a pair of the new
  state and the result: a \<^verbatim>\<open>?\<close> that returns early keeps every mutation made before it, so the
  state is part of the error case too.
\<close>

section \<open>Machine integers\<close>

type_synonym u8 = "8 word"
type_synonym u16 = "16 word"
type_synonym u32 = "32 word"
type_synonym u64 = "64 word"

text \<open>
  Instants and durations of \<^verbatim>\<open>std::time\<close> are counted in nanoseconds from an arbitrary origin;
  \<^verbatim>\<open>Instant::duration_since\<close> saturates at zero, which is what subtraction does on \<^typ>\<open>nat\<close>.
\<close>

type_synonym Instant = nat
type_synonym Duration = nat

definition nanos_per_sec :: nat where
  "nanos_per_sec = 1000000000"

definition nanos_per_milli :: nat where
  "nanos_per_milli = 1000000"

definition duration_from_secs :: "u64 \<Rightarrow> Duration" where
  "duration_from_secs n = unat n * nanos_per_sec"

definition duration_from_millis :: "u64 \<Rightarrow> Duration" where
  "duration_from_millis n = unat n * nanos_per_milli"

definition duration_since :: "Instant \<Rightarrow> Instant \<Rightarrow> Duration" where
  "duration_since now earlier = now - earlier"

text \<open>Rust's \<^verbatim>\<open>saturating_add\<close> on an unsigned integer of any width: a sum that has wrapped is below its terms.\<close>

definition saturating_add :: "'a::len word \<Rightarrow> 'a word \<Rightarrow> 'a word" where
  "saturating_add x y = (if x + y < x then - 1 else x + y)"

lemma unat_saturating_add:
  "unat (saturating_add x y) = min (unat x + unat y) (2 ^ LENGTH('a) - 1)"
  for x y :: "'a::len word"
proof (cases "x \<le> x + y")
  case True
  then have fits: "unat x + unat y < 2 ^ LENGTH('a)" by (simp add: no_olen_add_nat)
  then have "unat (x + y) = unat x + unat y" by (simp add: unat_word_ariths)
  moreover have "saturating_add x y = x + y" using True by (simp add: saturating_add_def flip: not_le)
  ultimately show ?thesis using fits by simp
next
  case False
  then have "\<not> unat x + unat y < 2 ^ LENGTH('a)" by (simp add: no_olen_add_nat)
  with False show ?thesis
    by (simp add: saturating_add_def not_le unsigned_minus_1_eq_mask mask_eq_exp_minus_1)
qed

lemma saturating_add_ge: "x \<le> saturating_add x y"
  for x y :: "'a::len word"
proof -
  have "unat x < 2 ^ LENGTH('a)"
    by (rule unsigned_less)
  then have "unat x \<le> 2 ^ LENGTH('a) - 1"
    by linarith
  then show ?thesis
    by (simp add: word_le_nat_alt unat_saturating_add)
qed

section \<open>Errors and results\<close>

text \<open>\<^verbatim>\<open>src/src/result.rs\<close>: the error enum and its printed form.\<close>

datatype RipError =
    InvalidArgument string
  | InvalidConfiguration string
  | FailedToConfigureInterface string string
  | IoError string
  | MalformedPacket
  | InvalidSourceAddress

fun RipError_to_string :: "RipError \<Rightarrow> string" where
  "RipError_to_string (InvalidArgument e) = ''Invalid argument: '' @ e"
| "RipError_to_string (InvalidConfiguration e) = ''Invalid configuration: '' @ e"
| "RipError_to_string (FailedToConfigureInterface msg if_name) =
     ''Failed to configure interface: '' @ msg @ '', if_name: '' @ if_name"
| "RipError_to_string (IoError e) = ''IO error: '' @ e"
| "RipError_to_string MalformedPacket = ''Malformed packet''"
| "RipError_to_string InvalidSourceAddress = ''Invalid Source Address''"

type_synonym 'a RipResult = "RipError + 'a"

definition RIP_CMD_REQUEST :: u8 where "RIP_CMD_REQUEST = 1"
definition RIP_CMD_RESPONSE :: u8 where "RIP_CMD_RESPONSE = 2"
definition RIP_2_VERSION :: u8 where "RIP_2_VERSION = 2"
definition RIP_UDP_PORT :: u16 where "RIP_UDP_PORT = 520"
definition RIP_MULTICAST_ADDR :: string where "RIP_MULTICAST_ADDR = ''224.0.0.9''"

lemmas rip_constants =
  RIP_CMD_REQUEST_def RIP_CMD_RESPONSE_def RIP_2_VERSION_def RIP_UDP_PORT_def

section \<open>Fallible state passing\<close>

text \<open>
  \<^term>\<open>and_then r k\<close> is the \<^verbatim>\<open>?\<close> operator: after a fallible call with outcome \<open>r\<close>, the code
  \<open>k\<close> runs on the value and the new state, or the error is returned with the state as it is.
\<close>

definition and_then :: "'s \<times> ('e + 'a) \<Rightarrow> ('a \<Rightarrow> 's \<Rightarrow> 's \<times> ('e + 'b)) \<Rightarrow> 's \<times> ('e + 'b)" where
  "and_then r k = (case r of (s, Inl e) \<Rightarrow> (s, Inl e) | (s, Inr x) \<Rightarrow> k x s)"

lemma and_then_simps [simp]:
  "and_then (s, Inl e) k = (s, Inl e)"
  "and_then (s, Inr x) k = k x s"
  by (simp_all add: and_then_def)

definition map_err :: "('e \<Rightarrow> 'f) \<Rightarrow> 's \<times> ('e + 'a) \<Rightarrow> 's \<times> ('f + 'a)" where
  "map_err f r = (case r of (s, Inl e) \<Rightarrow> (s, Inl (f e)) | (s, Inr x) \<Rightarrow> (s, Inr x))"

lemma map_err_simps [simp]:
  "map_err f (s, Inl e) = (s, Inl (f e))"
  "map_err f (s, Inr x) = (s, Inr x)"
  by (simp_all add: map_err_def)

lemma fst_map_err [simp]: "fst (map_err f r) = fst r"
  by (cases r; cases "snd r") (auto simp: map_err_def)

text \<open>\<^verbatim>\<open>for x in xs { f(x)?; }\<close>: stop at the first error.\<close>

fun for_each :: "('x \<Rightarrow> 's \<Rightarrow> 's \<times> ('e + unit)) \<Rightarrow> 'x list \<Rightarrow> 's \<Rightarrow> 's \<times> ('e + unit)" where
  "for_each f [] s = (s, Inr ())"
| "for_each f (x # xs) s = and_then (f x s) (\<lambda>_. for_each f xs)"

text \<open>
  \<^term>\<open>keeps P m\<close>: the step \<open>m\<close> carries the state predicate \<open>P\<close> through, on success and on
  error alike. The rules compose along the code's own control flow.
\<close>

named_theorems keeps_intros \<open>rules that carry a state predicate through the code\<close>

definition keeps :: "('s \<Rightarrow> bool) \<Rightarrow> ('s \<Rightarrow> 's \<times> 'r) \<Rightarrow> bool" where
  "keeps P m \<longleftrightarrow> (\<forall>s. P s \<longrightarrow> P (fst (m s)))"

lemma keepsI: "(\<And>s. P s \<Longrightarrow> P (fst (m s))) \<Longrightarrow> keeps P m"
  by (simp add: keeps_def)

lemma keepsD: "keeps P m \<Longrightarrow> P s \<Longrightarrow> P (fst (m s))"
  by (simp add: keeps_def)

lemma and_then_state:
  assumes "P (fst r)" and "\<And>x. snd r = Inr x \<Longrightarrow> P (fst (k x (fst r)))"
  shows "P (fst (and_then r k))"
  using assms by (cases r; cases "snd r") (auto simp: and_then_def)

lemma and_then_Inr:
  "snd (and_then r k) = Inr y \<longleftrightarrow> (\<exists>x. snd r = Inr x \<and> snd (k x (fst r)) = Inr y)"
  by (cases r; cases "snd r") (auto simp: and_then_def)

lemma and_then_Inl:
  "snd (and_then r k) = Inl e \<longleftrightarrow>
     snd r = Inl e \<or> (\<exists>x. snd r = Inr x \<and> snd (k x (fst r)) = Inl e)"
  by (cases r; cases "snd r") (auto simp: and_then_def)

lemma keeps_and_then [keeps_intros]:
  assumes "keeps P m" and "\<And>x. keeps P (k x)"
  shows "keeps P (\<lambda>s. and_then (m s) k)"
proof (rule keepsI)
  fix s assume "P s"
  then have "P (fst (m s))" using assms(1) by (rule keepsD [rotated])
  then show "P (fst (and_then (m s) k))"
    by (blast intro: and_then_state keepsD [OF assms(2)])
qed

lemma keeps_for_each [keeps_intros]:
  assumes "\<And>x. x \<in> set xs \<Longrightarrow> keeps P (f x)"
  shows "keeps P (for_each f xs)"
  using assms
proof (induction xs)
  case Nil
  then show ?case by (simp add: keeps_def)
next
  case (Cons x xs)
  have "keeps P (\<lambda>s. and_then (f x s) (\<lambda>_. for_each f xs))"
  proof (rule keeps_and_then)
    show "keeps P (f x)" using Cons.prems by simp
    show "keeps P (for_each f xs)" for u :: unit
      by (rule Cons.IH) (use Cons.prems in simp)
  qed
  then show ?case by (simp add: keeps_def)
qed

lemma keeps_map_err [keeps_intros]: "keeps P m \<Longrightarrow> keeps P (\<lambda>s. map_err f (m s))"
  by (simp add: keeps_def)

lemma keeps_return [keeps_intros]: "keeps P (\<lambda>s. (s, r))"
  by (simp add: keeps_def)

end
