(* ===== verification/Rip_Text.thy ===== *)
theory Rip_Text
  imports Rip_Prelude
begin

text \<open>
  The parts of the standard library that turn integers and addresses into text and back:
  decimal \<^verbatim>\<open>Display\<close> of unsigned integers, \<^verbatim>\<open>Display\<close> of \<^verbatim>\<open>std::net::Ipv4Addr\<close> and its \<^verbatim>\<open>FromStr\<close>.
  Addresses are \<^typ>\<open>u32\<close> values in host order, as \<^verbatim>\<open>Ipv4Addr::from\<close> and \<^verbatim>\<open>u32::from\<close> convert them.
\<close>

definition digit_char :: "nat \<Rightarrow> char" where
  "digit_char d = char_of (48 + d)"

fun show_nat :: "nat \<Rightarrow> string" where
  "show_nat n = (if n < 10 then [digit_char n] else show_nat (n div 10) @ [digit_char (n mod 10)])"

declare show_nat.simps [simp del]

definition show_word :: "'a::len word \<Rightarrow> string" where
  "show_word w = show_nat (unat w)"

definition octets :: "u32 \<Rightarrow> u8 list" where
  "octets w = [ucast (drop_bit 24 w), ucast (drop_bit 16 w), ucast (drop_bit 8 w), ucast w]"

definition of_octets :: "u8 \<Rightarrow> u8 \<Rightarrow> u8 \<Rightarrow> u8 \<Rightarrow> u32" where
  "of_octets a b c d =
     or (push_bit 24 (ucast a)) (or (push_bit 16 (ucast b)) (or (push_bit 8 (ucast c)) (ucast d)))"

definition ipv4_to_string :: "u32 \<Rightarrow> string" where
  "ipv4_to_string w =
     (case octets w of
        [a, b, c, d] \<Rightarrow> show_word a @ ''.'' @ show_word b @ ''.'' @ show_word c @ ''.'' @ show_word d
      | _ \<Rightarrow> [])"

text \<open>
  \<^verbatim>\<open>FromStr\<close>: at most 15 bytes; four decimal numbers of one to three digits without a leading
  zero, each at most 255, separated by single dots, and nothing after them.
\<close>

definition is_digit_char :: "char \<Rightarrow> bool" where
  "is_digit_char c \<longleftrightarrow> 48 \<le> (of_char c :: nat) \<and> (of_char c :: nat) \<le> 57"

definition digits_value :: "string \<Rightarrow> nat" where
  "digits_value ds = foldl (\<lambda>v c. 10 * v + (of_char c - 48)) 0 ds"

definition read_octet :: "string \<Rightarrow> (u8 \<times> string) option" where
  "read_octet s =
     (let ds = takeWhile is_digit_char s
      in if ds = [] \<or> 3 < length ds \<or> (hd ds = CHR ''0'' \<and> 1 < length ds) \<or> 255 < digits_value ds
         then None
         else Some (of_nat (digits_value ds), dropWhile is_digit_char s))"

definition read_dot_octet :: "string \<Rightarrow> (u8 \<times> string) option" where
  "read_dot_octet s = (case s of CHR ''.'' # t \<Rightarrow> read_octet t | _ \<Rightarrow> None)"

definition ipv4_from_str :: "string \<Rightarrow> u32 option" where
  "ipv4_from_str s =
     (if 15 < length s then None
      else case read_octet s of None \<Rightarrow> None | Some (a, s1) \<Rightarrow>
       (case read_dot_octet s1 of None \<Rightarrow> None | Some (b, s2) \<Rightarrow>
        (case read_dot_octet s2 of None \<Rightarrow> None | Some (c, s3) \<Rightarrow>
         (case read_dot_octet s3 of None \<Rightarrow> None | Some (d, s4) \<Rightarrow>
           if s4 = [] then Some (of_octets a b c d) else None))))"

definition ipv4_parse_error :: string where
  "ipv4_parse_error = ''invalid IPv4 address syntax''"

text \<open>
  \<^verbatim>\<open>str::parse::<u64>\<close>: an optional plus sign, then one or more digits, at most \<open>u64::MAX\<close>.
\<close>

definition u64_from_str :: "string \<Rightarrow> u64 option" where
  "u64_from_str s =
     (let ds = (case s of CHR ''+'' # t \<Rightarrow> t | _ \<Rightarrow> s)
      in if ds = [] \<or> \<not> list_all is_digit_char ds \<or> 2 ^ 64 \<le> digits_value ds then None
         else Some (of_nat (digits_value ds)))"

section \<open>Octets\<close>

lemma of_octets_octets: "octets w = [a, b, c, d] \<Longrightarrow> of_octets a b c d = w"
proof -
  have "of_octets (ucast (drop_bit 24 w)) (ucast (drop_bit 16 w)) (ucast (drop_bit 8 w)) (ucast w) = w"
  proof (rule bit_word_eqI)
    fix n assume "n < LENGTH(32)"
    then consider "n < 8" | "8 \<le> n" "n < 16" | "16 \<le> n" "n < 24" | "24 \<le> n" "n < 32"
      by fastforce
    then show "bit (of_octets (ucast (drop_bit 24 w)) (ucast (drop_bit 16 w))
        (ucast (drop_bit 8 w)) (ucast w)) n = bit w n"
      by cases (simp_all add: of_octets_def bit_simps, arith+)
  qed
  then show "octets w = [a, b, c, d] \<Longrightarrow> of_octets a b c d = w"
    by (auto simp: octets_def)
qed

section \<open>Printing and reading an octet\<close>

definition octet_text_ok :: "nat \<Rightarrow> bool" where
  "octet_text_ok n \<longleftrightarrow>
     (let t = show_nat n
      in t \<noteq> [] \<and> length t \<le> 3 \<and> list_all is_digit_char t
         \<and> (hd t = CHR ''0'' \<longrightarrow> length t = 1) \<and> digits_value t = n)"

lemma of_char_digit: "d < 10 \<Longrightarrow> (of_char (digit_char d) :: nat) = 48 + d"
  by (simp add: digit_char_def)

lemma is_digit_digit_char: "d < 10 \<Longrightarrow> is_digit_char (digit_char d)"
  by (simp add: is_digit_char_def of_char_digit)

lemma digit_char_0: "digit_char 0 = CHR ''0''"
  by code_simp

lemma digit_char_zero:
  assumes "d < 10"
  shows "digit_char d = CHR ''0'' \<longleftrightarrow> d = 0"
proof
  assume "digit_char d = CHR ''0''"
  then have "(of_char (digit_char d) :: nat) = of_char (CHR ''0'')" by simp
  then show "d = 0" using assms by (simp add: of_char_digit)
qed (simp add: digit_char_0)

lemma show_nat_small:
  shows show_nat_1: "n < 10 \<Longrightarrow> show_nat n = [digit_char n]"
    and show_nat_2: "10 \<le> n \<Longrightarrow> n < 100 \<Longrightarrow>
      show_nat n = [digit_char (n div 10), digit_char (n mod 10)]"
    and show_nat_3: "100 \<le> n \<Longrightarrow> n < 1000 \<Longrightarrow>
      show_nat n = [digit_char (n div 100), digit_char (n div 10 mod 10), digit_char (n mod 10)]"
proof -
  have one: "show_nat m = [digit_char m]" if "m < 10" for m
    using that by (simp add: show_nat.simps [of m])
  have two: "show_nat m = [digit_char (m div 10), digit_char (m mod 10)]" if "10 \<le> m" "m < 100" for m
  proof -
    have "m div 10 < 10" using that by auto
    then show ?thesis using that one by (simp add: show_nat.simps [of m])
  qed
  show "n < 10 \<Longrightarrow> show_nat n = [digit_char n]" by (rule one)
  show "10 \<le> n \<Longrightarrow> n < 100 \<Longrightarrow> show_nat n = [digit_char (n div 10), digit_char (n mod 10)]"
    by (rule two)
  assume n: "100 \<le> n" "n < 1000"
  then have "10 \<le> n div 10" "n div 10 < 100" by auto
  then show "show_nat n = [digit_char (n div 100), digit_char (n div 10 mod 10), digit_char (n mod 10)]"
    using n two [of "n div 10"] by (simp add: show_nat.simps [of n] div_mult2_eq [symmetric])
qed

lemmas octet_text_simps =
  octet_text_ok_def is_digit_digit_char of_char_digit digits_value_def digit_char_zero

lemma octet_text_ok_small:
  assumes "n < 1000"
  shows "octet_text_ok n"
proof -
  consider "n < 10" | "10 \<le> n" "n < 100" | "100 \<le> n" "n < 1000"
    using assms by fastforce
  then show ?thesis
  proof cases
    case 1
    then show ?thesis by (simp add: octet_text_simps show_nat_1)
  next
    case 2
    then have "n div 10 < 10" "n div 10 \<noteq> 0" by auto
    with 2 show ?thesis by (simp add: octet_text_simps show_nat_2)
  next
    case 3
    then have hd: "n div 100 < 10" "n div 100 \<noteq> 0" by auto
    have "n div 100 = n div 10 div 10" by (simp add: div_mult2_eq [symmetric])
    then have val: "10 * (10 * (n div 100) + n div 10 mod 10) + n mod 10 = n"
      using mult_div_mod_eq [of 10 "n div 10"] mult_div_mod_eq [of 10 n] by simp
    show ?thesis using hd val by (simp add: octet_text_simps show_nat_3 [OF 3])
  qed
qed

lemma octet_text_ok:
  fixes b :: u8
  shows "octet_text_ok (unat b)"
proof -
  have "unat b < 2 ^ LENGTH(8)" by (rule unsigned_less)
  then show ?thesis by (intro octet_text_ok_small) simp
qed

lemma read_octet_show:
  fixes b :: u8
  assumes "rest = [] \<or> \<not> is_digit_char (hd rest)"
  shows "read_octet (show_word b @ rest) = Some (b, rest)"
proof -
  have ok: "octet_text_ok (unat b)" by (rule octet_text_ok)
  let ?t = "show_nat (unat b)"
  have digits: "\<forall>c \<in> set ?t. is_digit_char c"
    using ok by (simp add: octet_text_ok_def Let_def list_all_iff)
  have "takeWhile is_digit_char rest = []" "dropWhile is_digit_char rest = rest"
    using assms by (cases rest; simp)+
  with digits have "takeWhile is_digit_char (?t @ rest) = ?t"
    and "dropWhile is_digit_char (?t @ rest) = rest"
    by simp_all
  moreover have "unat b < 2 ^ LENGTH(8)"
    by (rule unsigned_less)
  then have "\<not> 255 < unat b" by simp
  ultimately show ?thesis
    using ok by (simp add: read_octet_def show_word_def octet_text_ok_def Let_def)
qed

lemma read_dot_octet_show:
  fixes b :: u8
  assumes "rest = [] \<or> \<not> is_digit_char (hd rest)"
  shows "read_dot_octet (CHR ''.'' # show_word b @ rest) = Some (b, rest)"
  using assms by (simp add: read_dot_octet_def read_octet_show)

lemma length_show_octet: "length (show_word b) \<le> 3" for b :: u8
  using octet_text_ok [of b] by (simp add: octet_text_ok_def show_word_def Let_def)

lemma not_digit_dot: "\<not> is_digit_char (CHR ''.'')"
  by (simp add: is_digit_char_def)

lemma ipv4_round_trip: "ipv4_from_str (ipv4_to_string w) = Some w"
proof -
  obtain a b c d where o: "octets w = [a, b, c, d]"
    by (simp add: octets_def)
  have dot: "\<not> is_digit_char (CHR ''.'')"
    by (simp add: is_digit_char_def)
  have printed: "ipv4_to_string w =
      show_word a @ ''.'' @ show_word b @ ''.'' @ show_word c @ ''.'' @ show_word d @ []"
    by (simp add: ipv4_to_string_def o)
  have len: "\<not> 15 < length (ipv4_to_string w)"
    using length_show_octet [of a] length_show_octet [of b] length_show_octet [of c]
      length_show_octet [of d] unfolding printed by simp
  show ?thesis
    unfolding ipv4_from_str_def
    using len dot of_octets_octets [OF o] unfolding printed
    by (simp add: read_octet_show read_dot_octet_show read_dot_octet_show [where rest = "[]", simplified])
qed

end
