(* ===== verification/Rip_Packet.thy ===== *)
theory Rip_Packet
  imports Rip_Prelude
begin

text \<open>
  \<^verbatim>\<open>src/src/rip_packet.rs\<close>: the RIP header, the route entry and the packet, their decoding from a
  datagram, and the two halves of encoding, \<^verbatim>\<open>RipEntry::to_be\<close> here and \<^verbatim>\<open>as_bytes\<close> of
  \<^verbatim>\<open>rip_updater.rs\<close>. Decoding panics where Rust panics: the result is an \<^typ>\<open>'a option\<close> whose
  \<^const>\<open>None\<close> is a panic of the thread, around the function's own \<^typ>\<open>'a RipResult\<close>.
\<close>

section \<open>Bytes\<close>

definition be_bytes16 :: "u16 \<Rightarrow> u8 list" where
  "be_bytes16 w = [ucast (drop_bit 8 w), ucast w]"

definition be_bytes32 :: "u32 \<Rightarrow> u8 list" where
  "be_bytes32 w = [ucast (drop_bit 24 w), ucast (drop_bit 16 w), ucast (drop_bit 8 w), ucast w]"

text \<open>\<^verbatim>\<open>u16::from_be_bytes\<close> and \<^verbatim>\<open>u32::from_be_bytes\<close>.\<close>

definition u16_from_be_bytes :: "u8 \<Rightarrow> u8 \<Rightarrow> u16" where
  "u16_from_be_bytes a b = or (push_bit 8 (ucast a)) (ucast b)"

definition u32_from_be_bytes :: "u8 \<Rightarrow> u8 \<Rightarrow> u8 \<Rightarrow> u8 \<Rightarrow> u32" where
  "u32_from_be_bytes a b c d =
     or (push_bit 24 (ucast a)) (or (push_bit 16 (ucast b)) (or (push_bit 8 (ucast c)) (ucast d)))"

text \<open>
  The bytes of an integer in memory depend on the target's byte order, and so does \<^verbatim>\<open>to_be\<close>:
  it swaps the bytes on a little-endian target and is the identity on a big-endian one.
\<close>

datatype endian = Little | Big

definition ne_bytes16 :: "endian \<Rightarrow> u16 \<Rightarrow> u8 list" where
  "ne_bytes16 en w = (case en of Little \<Rightarrow> rev (be_bytes16 w) | Big \<Rightarrow> be_bytes16 w)"

definition ne_bytes32 :: "endian \<Rightarrow> u32 \<Rightarrow> u8 list" where
  "ne_bytes32 en w = (case en of Little \<Rightarrow> rev (be_bytes32 w) | Big \<Rightarrow> be_bytes32 w)"

definition to_be16 :: "endian \<Rightarrow> u16 \<Rightarrow> u16" where
  "to_be16 en w =
     (case en of Little \<Rightarrow> u16_from_be_bytes (ucast w) (ucast (drop_bit 8 w)) | Big \<Rightarrow> w)"

definition to_be32 :: "endian \<Rightarrow> u32 \<Rightarrow> u32" where
  "to_be32 en w =
     (case en of
        Little \<Rightarrow> u32_from_be_bytes (ucast w) (ucast (drop_bit 8 w)) (ucast (drop_bit 16 w))
                    (ucast (drop_bit 24 w))
      | Big \<Rightarrow> w)"

section \<open>Headers, entries, packets\<close>

record RipHeader =
  command :: u8
  version :: u8
  padding :: u16

definition RIP_HEADER_SIZE :: nat where "RIP_HEADER_SIZE = 4"

record RipEntry =
  routing_family_id :: u16
  route_tag :: u16
  ip_address :: u32
  subnet_mask :: u32
  next_hop :: u32
  metric :: u32

definition RIP_ENTRY_SIZE :: nat where "RIP_ENTRY_SIZE = 20"

lemmas rip_sizes = RIP_HEADER_SIZE_def RIP_ENTRY_SIZE_def

definition RIP_ENTRY_REQUEST :: RipEntry where
  "RIP_ENTRY_REQUEST =
     \<lparr> routing_family_id = 0, route_tag = 0, ip_address = 0, subnet_mask = 0, next_hop = 0,
       metric = 16 \<rparr>"

record RipIfInfo =
  info_if_name :: string
  info_if_index :: u32

record SocketAddrV4 =
  sa_ip :: u32
  sa_port :: u16

record RipPacketData =
  header :: RipHeader
  entries :: "RipEntry list"

record RipPacket =
  packet_data :: RipPacketData
  if_info :: RipIfInfo
  source :: SocketAddrV4

definition RipPacketData_is_request :: "RipPacketData \<Rightarrow> bool" where
  "RipPacketData_is_request d \<longleftrightarrow>
     command (header d) = RIP_CMD_REQUEST \<and> length (entries d) = 1
     \<and> entries d ! 0 = RIP_ENTRY_REQUEST"

definition RipPacketData_is_response :: "RipPacketData \<Rightarrow> bool" where
  "RipPacketData_is_response d \<longleftrightarrow> command (header d) = RIP_CMD_RESPONSE"

definition RipPacket_is_request :: "RipPacket \<Rightarrow> bool" where
  "RipPacket_is_request p = RipPacketData_is_request (packet_data p)"

definition RipPacket_is_response :: "RipPacket \<Rightarrow> bool" where
  "RipPacket_is_response p = RipPacketData_is_response (packet_data p)"

section \<open>Decoding\<close>

definition RipHeader_from_slice :: "u8 list \<Rightarrow> RipHeader RipResult" where
  "RipHeader_from_slice bs =
     (if length bs \<noteq> RIP_HEADER_SIZE then Inl MalformedPacket
      else Inr \<lparr> command = bs ! 0, version = bs ! 1,
                 padding = u16_from_be_bytes (bs ! 2) (bs ! 3) \<rparr>)"

definition RipEntry_from_slice :: "u8 list \<Rightarrow> RipEntry RipResult" where
  "RipEntry_from_slice bs =
     (if length bs \<noteq> RIP_ENTRY_SIZE then Inl MalformedPacket
      else Inr
       \<lparr> routing_family_id = u16_from_be_bytes (bs ! 0) (bs ! 1),
         route_tag = u16_from_be_bytes (bs ! 2) (bs ! 3),
         ip_address = u32_from_be_bytes (bs ! 4) (bs ! 5) (bs ! 6) (bs ! 7),
         subnet_mask = u32_from_be_bytes (bs ! 8) (bs ! 9) (bs ! 10) (bs ! 11),
         next_hop = u32_from_be_bytes (bs ! 12) (bs ! 13) (bs ! 14) (bs ! 15),
         metric = u32_from_be_bytes (bs ! 16) (bs ! 17) (bs ! 18) (bs ! 19) \<rparr>)"

text \<open>
  Slicing \<^verbatim>\<open>&data[..n]\<close> and \<^verbatim>\<open>&data[n..]\<close> panics when \<open>n\<close> is past the end. The subtraction of
  \<^verbatim>\<open>usize\<close> values panics on underflow when the build checks overflows (a debug build) and wraps
  at 64 bits when it does not (a release build); \<open>checks\<close> says which.
\<close>

definition slice_to :: "nat \<Rightarrow> 'a list \<Rightarrow> 'a list option" where
  "slice_to n xs = (if n \<le> length xs then Some (take n xs) else None)"

definition slice_from :: "nat \<Rightarrow> 'a list \<Rightarrow> 'a list option" where
  "slice_from n xs = (if n \<le> length xs then Some (drop n xs) else None)"

definition usize_sub :: "bool \<Rightarrow> nat \<Rightarrow> nat \<Rightarrow> nat option" where
  "usize_sub checks a b =
     (if b \<le> a then Some (a - b) else if checks then None else Some (a + 2 ^ 64 - b))"

function entries_loop :: "u8 list \<Rightarrow> RipEntry list \<Rightarrow> RipEntry list RipResult option" where
  "entries_loop bs acc =
     (if 0 < length bs then
        case slice_to RIP_ENTRY_SIZE bs of
          None \<Rightarrow> None
        | Some chunk \<Rightarrow>
            (case RipEntry_from_slice chunk of
               Inl e \<Rightarrow> Some (Inl e)
             | Inr entry \<Rightarrow>
                 (case slice_from RIP_ENTRY_SIZE bs of
                    None \<Rightarrow> None
                  | Some rest \<Rightarrow> entries_loop rest (acc @ [entry])))
      else Some (Inr acc))"
  by pat_completeness auto
termination
  by (relation "measure (\<lambda>(bs, acc). length bs)")
     (auto simp: slice_from_def RIP_ENTRY_SIZE_def split: if_splits)

declare entries_loop.simps [simp del]

definition RipPacketData_from_slice :: "bool \<Rightarrow> u8 list \<Rightarrow> RipPacketData RipResult option" where
  "RipPacketData_from_slice checks bs =
     (case usize_sub checks (length bs) RIP_HEADER_SIZE of
        None \<Rightarrow> None
      | Some body \<Rightarrow>
          if body mod RIP_ENTRY_SIZE \<noteq> 0 then Some (Inl MalformedPacket)
          else
            (case slice_to RIP_HEADER_SIZE bs of
               None \<Rightarrow> None
             | Some h \<Rightarrow>
                 (case RipHeader_from_slice h of
                    Inl e \<Rightarrow> Some (Inl e)
                  | Inr hdr \<Rightarrow>
                      (case slice_from RIP_HEADER_SIZE bs of
                         None \<Rightarrow> None
                       | Some rest \<Rightarrow>
                           (case entries_loop rest [] of
                              None \<Rightarrow> None
                            | Some (Inl e) \<Rightarrow> Some (Inl e)
                            | Some (Inr es) \<Rightarrow> Some (Inr \<lparr> header = hdr, entries = es \<rparr>))))))"

section \<open>Encoding\<close>

definition RipEntry_to_be :: "endian \<Rightarrow> RipEntry \<Rightarrow> RipEntry" where
  "RipEntry_to_be en e =
     \<lparr> routing_family_id = to_be16 en (routing_family_id e), route_tag = to_be16 en (route_tag e),
       ip_address = to_be32 en (ip_address e), subnet_mask = to_be32 en (subnet_mask e),
       next_hop = to_be32 en (next_hop e), metric = to_be32 en (metric e) \<rparr>"

text \<open>
  \<^verbatim>\<open>as_bytes\<close> reads the memory of a \<^verbatim>\<open>repr(C)\<close> struct: its fields in order, each in the target's
  byte order. The two sizes asserted at the end of \<^verbatim>\<open>rip_packet.rs\<close> rule out padding between them.
\<close>

definition as_bytes_RipHeader :: "endian \<Rightarrow> RipHeader \<Rightarrow> u8 list" where
  "as_bytes_RipHeader en h = [command h, version h] @ ne_bytes16 en (padding h)"

definition as_bytes_RipEntry :: "endian \<Rightarrow> RipEntry \<Rightarrow> u8 list" where
  "as_bytes_RipEntry en e =
     ne_bytes16 en (routing_family_id e) @ ne_bytes16 en (route_tag e) @ ne_bytes32 en (ip_address e)
     @ ne_bytes32 en (subnet_mask e) @ ne_bytes32 en (next_hop e) @ ne_bytes32 en (metric e)"

section \<open>The wire format\<close>

text \<open>The network form of headers and entries, independent of the host.\<close>

definition header_wire :: "RipHeader \<Rightarrow> u8 list" where
  "header_wire h = [command h, version h] @ be_bytes16 (padding h)"

definition entry_wire :: "RipEntry \<Rightarrow> u8 list" where
  "entry_wire e =
     be_bytes16 (routing_family_id e) @ be_bytes16 (route_tag e) @ be_bytes32 (ip_address e)
     @ be_bytes32 (subnet_mask e) @ be_bytes32 (next_hop e) @ be_bytes32 (metric e)"

lemma u16_be_round_trip: "u16_from_be_bytes (ucast (drop_bit 8 w)) (ucast w) = w"
proof (rule bit_word_eqI)
  fix n assume "n < LENGTH(16)"
  then consider "n < 8" | "8 \<le> n" "n < 16" by fastforce
  then show "bit (u16_from_be_bytes (ucast (drop_bit 8 w)) (ucast w)) n = bit w n"
    by cases (simp_all add: u16_from_be_bytes_def bit_simps, arith)
qed

lemma u32_be_round_trip:
  "u32_from_be_bytes (ucast (drop_bit 24 w)) (ucast (drop_bit 16 w)) (ucast (drop_bit 8 w)) (ucast w)
   = w" (is "?l = w")
proof (rule bit_word_eqI)
  fix n assume "n < LENGTH(32)"
  then consider "n < 8" | "8 \<le> n" "n < 16" | "16 \<le> n" "n < 24" | "24 \<le> n" "n < 32"
    by fastforce
  then show "bit ?l n = bit w n"
    by cases (simp_all add: u32_from_be_bytes_def bit_simps, arith+)
qed

lemma be_bytes16_from: "be_bytes16 (u16_from_be_bytes a b) = [a, b]"
  by (auto simp: be_bytes16_def u16_from_be_bytes_def bit_eq_iff bit_simps dest: bit_imp_le_length)

lemma be_bytes32_from: "be_bytes32 (u32_from_be_bytes a b c d) = [a, b, c, d]"
  by (auto simp: be_bytes32_def u32_from_be_bytes_def bit_eq_iff bit_simps dest: bit_imp_le_length)

lemma ne_bytes16_to_be: "ne_bytes16 en (to_be16 en w) = be_bytes16 w"
  by (cases en) (simp_all add: ne_bytes16_def to_be16_def be_bytes16_from, simp add: be_bytes16_def)

lemma ne_bytes32_to_be: "ne_bytes32 en (to_be32 en w) = be_bytes32 w"
  by (cases en) (simp_all add: ne_bytes32_def to_be32_def be_bytes32_from, simp add: be_bytes32_def)

lemma as_bytes_entry_to_be: "as_bytes_RipEntry en (RipEntry_to_be en e) = entry_wire e"
  by (simp add: as_bytes_RipEntry_def RipEntry_to_be_def entry_wire_def ne_bytes16_to_be
      ne_bytes32_to_be)

lemma as_bytes_header_zero: "padding h = 0 \<Longrightarrow> as_bytes_RipHeader en h = header_wire h"
  by (cases en) (simp_all add: as_bytes_RipHeader_def header_wire_def ne_bytes16_def be_bytes16_def)

section \<open>Fixed-width codecs\<close>

text \<open>
  Headers and entries are decoded and encoded at a fixed width. What the packet code needs of
  either is the same, and is stated once.
\<close>

locale fixed_codec =
  fixes enc :: "'a \<Rightarrow> u8 list" and dec :: "u8 list \<Rightarrow> 'a RipResult" and width :: nat
  assumes length_enc: "length (enc x) = width"
    and dec_enc: "dec (enc x) = Inr x"
    and dec_width: "length bs = width \<Longrightarrow> \<exists>x. dec bs = Inr x \<and> enc x = bs"
    and dec_other: "length bs \<noteq> width \<Longrightarrow> dec bs = Inl MalformedPacket"
begin

lemma enc_inj: "enc x = enc y \<Longrightarrow> x = y"
  by (metis Inr_inject dec_enc)

lemma dec_Inr_iff: "dec bs = Inr x \<longleftrightarrow> bs = enc x"
proof
  assume "dec bs = Inr x"
  then show "bs = enc x"
    by (metis dec_width dec_other Inl_Inr_False Inr_inject)
qed (simp add: dec_enc)

lemma dec_total: "dec bs = (if length bs = width then dec bs else Inl MalformedPacket)"
  by (simp add: dec_other)

lemma length_concat_enc: "length (concat (map enc xs)) = width * length xs"
  by (induction xs) (simp_all add: length_enc)

lemma concat_enc_inj: "0 < width \<Longrightarrow> concat (map enc xs) = concat (map enc ys) \<Longrightarrow> xs = ys"
proof (induction xs arbitrary: ys)
  case Nil
  then have "width * length ys = 0"
    by (metis length_concat_enc list.size(3) list.simps(8) concat.simps(1))
  with Nil show ?case by simp
next
  case (Cons x xs)
  have "ys \<noteq> []"
  proof
    assume "ys = []"
    with Cons.prems have "width * length (x # xs) = 0"
      by (metis length_concat_enc list.size(3) list.simps(8) concat.simps(1))
    with Cons.prems(1) show False by simp
  qed
  then obtain y ys' where ys: "ys = y # ys'" by (cases ys) auto
  with Cons.prems(2) have "enc x = enc y" "concat (map enc xs) = concat (map enc ys')"
    by (simp_all add: append_eq_append_conv length_enc)
  with Cons ys show ?case by (simp add: enc_inj)
qed

lemma slices_of_encoded:
  "slice_to width (enc x @ bs) = Some (enc x)"
  "slice_from width (enc x @ bs) = Some bs"
  by (simp_all add: slice_to_def slice_from_def length_enc)

end

lemma length_be_bytes [simp]: "length (be_bytes16 w) = 2" "length (be_bytes32 v) = 4"
  by (simp_all add: be_bytes16_def be_bytes32_def)

lemma list_of_length_4:
  assumes "length bs = 4"
  shows "bs = [bs ! 0, bs ! 1, bs ! 2, bs ! 3]"
  using assms by (auto simp: numeral_eq_Suc length_Suc_conv)

lemma list_of_length_20:
  assumes "length bs = 20"
  shows "bs = [bs ! 0, bs ! 1, bs ! 2, bs ! 3, bs ! 4, bs ! 5, bs ! 6, bs ! 7, bs ! 8, bs ! 9,
    bs ! 10, bs ! 11, bs ! 12, bs ! 13, bs ! 14, bs ! 15, bs ! 16, bs ! 17, bs ! 18, bs ! 19]"
  using assms by (intro nth_equalityI) (auto simp: less_Suc_eq numeral_eq_Suc)

interpretation header_codec: fixed_codec header_wire RipHeader_from_slice RIP_HEADER_SIZE
proof unfold_locales
  show "length (header_wire h) = RIP_HEADER_SIZE" for h
    by (simp add: header_wire_def rip_sizes)
  show "RipHeader_from_slice (header_wire h) = Inr h" for h
    by (simp add: RipHeader_from_slice_def header_wire_def rip_sizes be_bytes16_def
        u16_be_round_trip)
  show "RipHeader_from_slice bs = Inl MalformedPacket" if "length bs \<noteq> RIP_HEADER_SIZE" for bs
    using that by (simp add: RipHeader_from_slice_def)
  show "\<exists>h. RipHeader_from_slice bs = Inr h \<and> header_wire h = bs" if "length bs = RIP_HEADER_SIZE" for bs
    using that list_of_length_4 [of bs]
    by (simp add: RipHeader_from_slice_def header_wire_def rip_sizes be_bytes16_from)
qed

interpretation entry_codec: fixed_codec entry_wire RipEntry_from_slice RIP_ENTRY_SIZE
proof unfold_locales
  show "length (entry_wire e) = RIP_ENTRY_SIZE" for e
    by (simp add: entry_wire_def rip_sizes)
  show "RipEntry_from_slice (entry_wire e) = Inr e" for e
    by (simp add: RipEntry_from_slice_def entry_wire_def rip_sizes be_bytes16_def be_bytes32_def
        u16_be_round_trip u32_be_round_trip)
  show "RipEntry_from_slice bs = Inl MalformedPacket" if "length bs \<noteq> RIP_ENTRY_SIZE" for bs
    using that by (simp add: RipEntry_from_slice_def)
  show "\<exists>e. RipEntry_from_slice bs = Inr e \<and> entry_wire e = bs" if "length bs = RIP_ENTRY_SIZE" for bs
    using that list_of_length_20 [of bs]
    by (simp add: RipEntry_from_slice_def entry_wire_def rip_sizes be_bytes16_from be_bytes32_from)
qed

section \<open>Decoding is the inverse of the wire format\<close>

definition packet_wire :: "RipPacketData \<Rightarrow> u8 list" where
  "packet_wire d = header_wire (header d) @ concat (map entry_wire (entries d))"

lemma length_packet_wire: "length (packet_wire d) = 4 + 20 * length (entries d)"
  using header_codec.length_enc entry_codec.length_concat_enc
  by (simp add: packet_wire_def rip_sizes)

lemma entries_loop_wire: "entries_loop (concat (map entry_wire es)) acc = Some (Inr (acc @ es))"
proof (induction es arbitrary: acc)
  case Nil
  show ?case by (subst entries_loop.simps) simp
next
  case (Cons e es)
  have "0 < length (entry_wire e)"
    by (simp add: entry_codec.length_enc rip_sizes)
  with Cons show ?case
    by (subst entries_loop.simps) (simp add: entry_codec.slices_of_encoded entry_codec.dec_enc)
qed

lemma whole_entries:
  assumes "length bs = RIP_ENTRY_SIZE * n"
  shows "\<exists>es. bs = concat (map entry_wire es)"
  using assms
proof (induction n arbitrary: bs)
  case 0
  then show ?case by (intro exI [of _ "[]"]) simp
next
  case (Suc n)
  then have "length (take RIP_ENTRY_SIZE bs) = RIP_ENTRY_SIZE"
    by (simp add: rip_sizes)
  then obtain e where e: "entry_wire e = take RIP_ENTRY_SIZE bs"
    using entry_codec.dec_width by blast
  have "length (drop RIP_ENTRY_SIZE bs) = RIP_ENTRY_SIZE * n"
    using Suc.prems by (simp add: rip_sizes)
  then obtain es where "drop RIP_ENTRY_SIZE bs = concat (map entry_wire es)"
    using Suc.IH by blast
  with e have "bs = concat (map entry_wire (e # es))"
    by (metis append_take_drop_id concat.simps(2) list.simps(9))
  then show ?case by blast
qed

lemma whole_packet:
  assumes "4 \<le> length bs" and "(length bs - 4) mod 20 = 0"
  shows "\<exists>d. bs = packet_wire d"
proof -
  obtain h where h: "header_wire h = take 4 bs"
    using assms(1) header_codec.dec_width [of "take 4 bs"] by (auto simp: rip_sizes)
  have "length (drop 4 bs) = RIP_ENTRY_SIZE * ((length bs - 4) div 20)"
    using assms(2) by (auto simp: rip_sizes)
  then obtain es where "drop 4 bs = concat (map entry_wire es)"
    using whole_entries by blast
  with h have "bs = packet_wire \<lparr> header = h, entries = es \<rparr>"
    by (metis packet_wire_def RipPacketData.select_convs append_take_drop_id)
  then show ?thesis by blast
qed

lemma from_slice_packet_wire: "RipPacketData_from_slice checks (packet_wire d) = Some (Inr d)"
proof -
  have "usize_sub checks (length (packet_wire d)) RIP_HEADER_SIZE = Some (20 * length (entries d))"
    by (simp add: usize_sub_def length_packet_wire rip_sizes)
  then show ?thesis
    unfolding RipPacketData_from_slice_def
    by (simp add: packet_wire_def header_codec.slices_of_encoded header_codec.dec_enc
        entries_loop_wire RIP_ENTRY_SIZE_def)
qed

text \<open>
  The three cases of a datagram. Below four bytes the length subtraction underflows: a debug
  build panics, and a release build wraps to a length that is never a multiple of the entry size.
\<close>

lemma from_slice_short:
  assumes "length bs < 4"
  shows "RipPacketData_from_slice checks bs = (if checks then None else Some (Inl MalformedPacket))"
proof -
  have "length bs = 0 \<or> length bs = 1 \<or> length bs = 2 \<or> length bs = 3"
    using assms by linarith
  then show ?thesis
    by (auto simp: RipPacketData_from_slice_def usize_sub_def rip_sizes)
qed

lemma from_slice_ragged:
  assumes "4 \<le> length bs" and "(length bs - 4) mod 20 \<noteq> 0"
  shows "RipPacketData_from_slice checks bs = Some (Inl MalformedPacket)"
  using assms by (simp add: RipPacketData_from_slice_def usize_sub_def rip_sizes)

lemma from_slice_Inr_iff:
  "RipPacketData_from_slice checks bs = Some (Inr d) \<longleftrightarrow> bs = packet_wire d"
proof
  assume ok: "RipPacketData_from_slice checks bs = Some (Inr d)"
  have "4 \<le> length bs"
    using ok from_slice_short [of bs checks] by (cases "length bs < 4") (auto split: if_splits)
  moreover from this ok have "(length bs - 4) mod 20 = 0"
    using from_slice_ragged [of bs checks] by (cases "(length bs - 4) mod 20 = 0") auto
  ultimately obtain d' where "bs = packet_wire d'"
    using whole_packet [of bs] by auto
  with ok show "bs = packet_wire d" by (simp add: from_slice_packet_wire)
qed (simp add: from_slice_packet_wire)

lemma from_slice_panics_iff:
  "RipPacketData_from_slice checks bs = None \<longleftrightarrow> checks \<and> length bs < 4"
proof (cases "length bs < 4")
  case True
  then show ?thesis by (simp add: from_slice_short)
next
  case False
  then show ?thesis
    using from_slice_ragged [of bs checks] whole_packet [of bs] from_slice_packet_wire
    by (cases "(length bs - 4) mod 20 = 0") auto
qed

lemma from_slice_error:
  assumes "RipPacketData_from_slice checks bs = Some (Inl e)"
  shows "e = MalformedPacket"
proof (cases "length bs < 4")
  case True
  then show ?thesis using assms by (simp add: from_slice_short split: if_splits)
next
  case False
  then show ?thesis
    using assms from_slice_ragged [of bs checks] whole_packet [of bs] from_slice_packet_wire
    by (cases "(length bs - 4) mod 20 = 0") auto
qed

section \<open>Properties\<close>

text \<open>
  C21: the parser accepts exactly the encodings of packets: a datagram gives a packet if and only if
  it is the big-endian header followed by the big-endian entries of that packet.
\<close>

theorem datagram_parses_iff_encoded:
  "RipPacketData_from_slice checks bytes = Some (Inr d) \<longleftrightarrow> bytes = packet_wire d"
  by (rule from_slice_Inr_iff)

text \<open>
  C22: every other datagram, by its length alone: one that is not a header and whole entries is
  malformed, except that under four bytes the length subtraction underflows, which panics when
  overflow checks are on and wraps to a malformed length when they are off.
\<close>

theorem datagram_rejections:
  "(RipPacketData_from_slice checks bytes = None \<longleftrightarrow> checks \<and> length bytes < 4)
   \<and> (RipPacketData_from_slice checks bytes = Some (Inl e) \<longleftrightarrow>
        e = MalformedPacket
        \<and> (\<not> checks \<and> length bytes < 4 \<or> 4 \<le> length bytes \<and> (length bytes - 4) mod 20 \<noteq> 0))"
proof (cases "length bytes < 4")
  case True
  then show ?thesis by (auto simp: from_slice_short)
next
  case False
  then show ?thesis
    using from_slice_ragged [of bytes checks] whole_packet [of bytes] from_slice_packet_wire
      from_slice_panics_iff [of checks bytes]
    by (cases "(length bytes - 4) mod 20 = 0") auto
qed

text \<open>
  An entry survives the round trip through the struct's bytes on either kind of machine: converted
  by \<^verbatim>\<open>to_be\<close>, written as the struct lies in memory and parsed again, it is the same entry, and
  the bytes do not depend on the machine.
\<close>

theorem entry_memory_round_trip:
  "RipEntry_from_slice (as_bytes_RipEntry en (RipEntry_to_be en e)) = Inr e
   \<and> as_bytes_RipEntry en (RipEntry_to_be en e) = as_bytes_RipEntry en' (RipEntry_to_be en' e)"
  by (simp add: as_bytes_entry_to_be entry_codec.dec_enc)

end
