(* ===== verification/Rip_Os.thy ===== *)
theory Rip_Os
  imports Rip_Text Rip_Packet
begin

text \<open>
  The operating system as the daemon sees it, and the code that is next to it:
  \<^verbatim>\<open>src/src/common.rs\<close>, \<^verbatim>\<open>rip_socket.rs\<close> and \<^verbatim>\<open>rip_ifc.rs\<close>. Sockets, the interface table, the
  clocks, the environment variables and the target's byte order are a parameter of the model: a
  record \<open>os\<close> of functions over an abstract world \<open>'n\<close>. The \<^verbatim>\<open>socket2\<close>, \<^verbatim>\<open>tokio\<close> and \<^verbatim>\<open>libc\<close>
  calls are the constructors of \<open>syscall\<close>.
\<close>

section \<open>Errors and calls\<close>

text \<open>An \<^verbatim>\<open>std::io::Error\<close>, with the text it displays as.\<close>

datatype io_error = OsError string | InvalidInput string | WriteZero string

fun io_error_text :: "io_error \<Rightarrow> string" where
  "io_error_text (OsError t) = t"
| "io_error_text (InvalidInput t) = t"
| "io_error_text (WriteZero t) = t"

type_synonym fd = nat

datatype syscall =
    SocketNew
  | BindDevice fd string
  | SetReusePort fd bool
  | BindAddr fd SocketAddrV4
  | SetNonblocking fd bool
  | SetMulticastLoopV4 fd bool
  | JoinMulticastV4 fd u32 u32
  | TokioFromStd fd
  | SendTo fd "u8 list" SocketAddrV4

text \<open>
  \<^term>\<open>sys\<close> performs a call: a failure, or a number (the descriptor of a new socket, the bytes
  sent, or nothing of interest). \<^term>\<open>if_nametoindex\<close> answers 0 when there is no such interface, with
  the reason in \<^term>\<open>last_os_error\<close>. \<^term>\<open>instant_now\<close> reads the monotonic clock,
  \<^term>\<open>unix_subsec_nanos\<close> the nanoseconds of the wall clock (none before 1970), \<^term>\<open>env_var\<close> an
  environment variable.
\<close>

record 'n os =
  sys :: "'n \<Rightarrow> syscall \<Rightarrow> 'n \<times> (io_error + nat)"
  if_nametoindex :: "'n \<Rightarrow> char list \<Rightarrow> 'n \<times> u32"
  last_os_error :: "'n \<Rightarrow> io_error"
  instant_now :: "'n \<Rightarrow> 'n \<times> Instant"
  unix_subsec_nanos :: "'n \<Rightarrow> 'n \<times> u64 option"
  env_var :: "string \<Rightarrow> string option"
  endianness :: endian

section \<open>Interface names\<close>

definition IFNAMSIZ :: nat where "IFNAMSIZ = 16"

definition zip_copy :: "'a list \<Rightarrow> 'a list \<Rightarrow> 'a list" where
  "zip_copy dst src = map snd (zip dst src) @ drop (length src) dst"

definition ifc_nametoindex :: "'n os \<Rightarrow> string \<Rightarrow> 'n \<Rightarrow> 'n \<times> (io_error + u32)" where
  "ifc_nametoindex os name n =
     (if length name \<ge> IFNAMSIZ - 1 then (n, Inl (InvalidInput (''invalid interface name: '' @ name)))
      else
        let buffer = zip_copy (replicate IFNAMSIZ (CHR 0x00)) name;
            (n', index) = if_nametoindex os n buffer
        in if index = 0 then (n', Inl (last_os_error os n')) else (n', Inr index))"

section \<open>Sockets\<close>

record RipSocket =
  sock_fd :: fd
  sock_if_name :: string
  sock_if_index :: u32

definition multicast_addr :: u32 where
  "multicast_addr = (case ipv4_from_str RIP_MULTICAST_ADDR of Some a \<Rightarrow> a | None \<Rightarrow> 0)"

text \<open>The \<^verbatim>\<open>unwrap\<close> of the parsed constant never panics.\<close>

lemma multicast_addr_parses: "ipv4_from_str RIP_MULTICAST_ADDR = Some multicast_addr"
  by code_simp

definition rip_any_addr :: SocketAddrV4 where
  "rip_any_addr = \<lparr> sa_ip = 0, sa_port = RIP_UDP_PORT \<rparr>"

definition rip_multicast_target :: SocketAddrV4 where
  "rip_multicast_target = \<lparr> sa_ip = multicast_addr, sa_port = RIP_UDP_PORT \<rparr>"

definition into_tokio_socket :: "'n os \<Rightarrow> fd \<Rightarrow> 'n \<Rightarrow> 'n \<times> (io_error + nat)" where
  "into_tokio_socket os s n = sys os n (TokioFromStd s)"

definition bind_port_and_device :: "'n os \<Rightarrow> fd \<Rightarrow> string \<Rightarrow> 'n \<Rightarrow> 'n \<times> (io_error + unit)" where
  "bind_port_and_device os s name n =
     and_then (sys os n (BindDevice s name)) (\<lambda>_ n.
     and_then (sys os n (SetReusePort s True)) (\<lambda>_ n.
     and_then (sys os n (BindAddr s rip_any_addr)) (\<lambda>_ n. (n, Inr ()))))"

definition create_multicast_rx_socket :: "'n os \<Rightarrow> string \<Rightarrow> u32 \<Rightarrow> 'n \<Rightarrow> 'n \<times> (io_error + nat)" where
  "create_multicast_rx_socket os name index n =
     and_then (sys os n SocketNew) (\<lambda>s n.
     and_then (bind_port_and_device os s name n) (\<lambda>_ n.
     and_then (sys os n (SetNonblocking s True)) (\<lambda>_ n.
     and_then (sys os n (JoinMulticastV4 s multicast_addr index)) (\<lambda>_ n.
     into_tokio_socket os s n))))"

definition create_multicast_tx_socket :: "'n os \<Rightarrow> string \<Rightarrow> 'n \<Rightarrow> 'n \<times> (io_error + nat)" where
  "create_multicast_tx_socket os name n =
     and_then (sys os n SocketNew) (\<lambda>s n.
     and_then (bind_port_and_device os s name n) (\<lambda>_ n.
     and_then (sys os n (SetNonblocking s True)) (\<lambda>_ n.
     and_then (sys os n (SetMulticastLoopV4 s False)) (\<lambda>_ n.
     into_tokio_socket os s n))))"

definition RipSocket_new_rx_socket :: "'n os \<Rightarrow> string \<Rightarrow> 'n \<Rightarrow> 'n \<times> (io_error + RipSocket)" where
  "RipSocket_new_rx_socket os name n =
     and_then (ifc_nametoindex os name n) (\<lambda>index n.
     and_then (create_multicast_rx_socket os name index n) (\<lambda>s n.
     (n, Inr \<lparr> sock_fd = s, sock_if_name = name, sock_if_index = index \<rparr>)))"

definition RipSocket_new_tx_socket :: "'n os \<Rightarrow> string \<Rightarrow> 'n \<Rightarrow> 'n \<times> (io_error + RipSocket)" where
  "RipSocket_new_tx_socket os name n =
     and_then (ifc_nametoindex os name n) (\<lambda>index n.
     and_then (create_multicast_tx_socket os name n) (\<lambda>s n.
     (n, Inr \<lparr> sock_fd = s, sock_if_name = name, sock_if_index = index \<rparr>)))"

definition send_multicast :: "'n os \<Rightarrow> RipSocket \<Rightarrow> u8 list \<Rightarrow> 'n \<Rightarrow> 'n \<times> (io_error + unit)" where
  "send_multicast os sock buffer n =
     and_then (sys os n (SendTo (sock_fd sock) buffer rip_multicast_target)) (\<lambda>sentn n.
     if sentn \<noteq> length buffer then (n, Inl (WriteZero ''failed to send full RIP packet''))
     else (n, Inr ()))"

section \<open>RIP interfaces\<close>

record RipIfc =
  ifc_if_name :: string
  ifc_rx :: "RipSocket option"
  ifc_tx :: RipSocket

definition RipIfc_create_ifc :: "'n os \<Rightarrow> string \<Rightarrow> 'n \<Rightarrow> 'n \<times> (io_error + RipIfc)" where
  "RipIfc_create_ifc os name n =
     and_then (RipSocket_new_tx_socket os name n) (\<lambda>tx n.
     and_then (RipSocket_new_rx_socket os name n) (\<lambda>rx n.
     (n, Inr \<lparr> ifc_if_name = name, ifc_rx = Some rx, ifc_tx = tx \<rparr>)))"

definition RipIfc_create :: "'n os \<Rightarrow> string \<Rightarrow> 'n \<Rightarrow> 'n \<times> RipIfc RipResult" where
  "RipIfc_create os name n =
     map_err (\<lambda>err. FailedToConfigureInterface (io_error_text err) name) (RipIfc_create_ifc os name n)"

section \<open>Facts\<close>

lemma ifc_nametoindex_nonzero:
  "snd (ifc_nametoindex os name n) = Inr index \<Longrightarrow> index \<noteq> 0 \<and> length name < 15"
  by (auto simp: ifc_nametoindex_def IFNAMSIZ_def Let_def split: prod.splits if_splits)

text \<open>An interface name of the kernel's full 15 characters is refused without asking the kernel.\<close>

lemma ifc_nametoindex_full_length:
  "length name = 15 \<Longrightarrow>
     ifc_nametoindex os name n = (n, Inl (InvalidInput (''invalid interface name: '' @ name)))"
  by (simp add: ifc_nametoindex_def IFNAMSIZ_def)

lemma ifc_buffer:
  assumes "length name < 15"
  shows "zip_copy (replicate IFNAMSIZ (CHR 0x00)) name =
    name @ replicate (16 - length name) (CHR 0x00)"
  using assms by (simp add: zip_copy_def IFNAMSIZ_def zip_replicate1 comp_def)

lemma RipIfc_create_shape:
  assumes "snd (RipIfc_create os name n) = Inr ifc"
  shows "ifc_if_name ifc = name \<and> sock_if_name (ifc_tx ifc) = name \<and> sock_if_index (ifc_tx ifc) \<noteq> 0
    \<and> (\<exists>rx. ifc_rx ifc = Some rx \<and> sock_if_name rx = name \<and> sock_if_index rx \<noteq> 0)"
proof -
  have "snd (RipIfc_create_ifc os name n) = Inr ifc"
    using assms by (auto simp: RipIfc_create_def map_err_def split: prod.splits sum.splits)
  then show ?thesis
    by (auto simp: RipIfc_create_ifc_def RipSocket_new_tx_socket_def RipSocket_new_rx_socket_def
        and_then_Inr dest!: ifc_nametoindex_nonzero)
qed

section \<open>Properties\<close>

text \<open>
  C40: looking up an interface. A name of 15 bytes or more is refused without asking the kernel (the
  kernel itself allows 15); a shorter one is handed over unchanged and NUL-terminated in its 16-byte
  buffer, and index 0 is the kernel's error.
\<close>

theorem ifc_nametoindex_behaviour:
  "ifc_nametoindex os name n =
     (if 15 \<le> length name then (n, Inl (InvalidInput (''invalid interface name: '' @ name)))
      else
        (case if_nametoindex os n (name @ replicate (16 - length name) (CHR 0x00)) of
           (n', index) \<Rightarrow> if index = 0 then (n', Inl (last_os_error os n')) else (n', Inr index)))"
  using ifc_buffer [of name] by (auto simp: ifc_nametoindex_def IFNAMSIZ_def Let_def split: prod.splits)

text \<open>
  An operating system in which every interface has the index \<open>idx\<close>, call number \<open>n\<close> fails, the world is
  the list of calls made, and a new socket is named by the number of its first call.
\<close>

definition failing_os :: "nat \<Rightarrow> io_error \<Rightarrow> u32 \<Rightarrow> syscall list os" where
  "failing_os n err idx =
     \<lparr> sys = (\<lambda>calls c. (calls @ [c], if length calls = n then Inl err else Inr (length calls))),
       if_nametoindex = (\<lambda>calls name. (calls, idx)), last_os_error = (\<lambda>_. err),
       instant_now = (\<lambda>calls. (calls, 0)), unix_subsec_nanos = (\<lambda>calls. (calls, None)),
       env_var = (\<lambda>_. None), endianness = Little \<rparr>"

definition interface_calls :: "string \<Rightarrow> u32 \<Rightarrow> syscall list" where
  "interface_calls name idx =
     [SocketNew, BindDevice 0 name, SetReusePort 0 True, BindAddr 0 rip_any_addr, SetNonblocking 0 True,
      SetMulticastLoopV4 0 False, TokioFromStd 0,
      SocketNew, BindDevice 7 name, SetReusePort 7 True, BindAddr 7 rip_any_addr, SetNonblocking 7 True,
      JoinMulticastV4 7 multicast_addr idx, TokioFromStd 7]"

text \<open>
  C39: setting up an interface. The sending socket is made first, with its own multicast datagrams not
  looped back, then the receiving one, joined to the group on the interface; both are bound to the
  device and the RIP port. Whichever of the 14 calls fails, it is the last one made, and the error
  names the interface; if none does, the interface has both sockets.
\<close>

theorem interface_setup_calls:
  assumes "length name < 15" and "idx \<noteq> 0"
  shows "fst (RipIfc_create (failing_os n err idx) name []) = take (Suc n) (interface_calls name idx)
    \<and> (case snd (RipIfc_create (failing_os n err idx) name []) of
         Inl e \<Rightarrow> n < 14 \<and> e = FailedToConfigureInterface (io_error_text err) name
       | Inr ifc \<Rightarrow> 14 \<le> n \<and> ifc_if_name ifc = name
           \<and> ifc_tx ifc = \<lparr> sock_fd = 6, sock_if_name = name, sock_if_index = idx \<rparr>
           \<and> ifc_rx ifc = Some \<lparr> sock_fd = 13, sock_if_name = name, sock_if_index = idx \<rparr>)"
proof -
  have name: "ifc_nametoindex (failing_os m err idx) name calls = (calls, Inr idx)" for m calls
    using assms by (simp add: ifc_nametoindex_def IFNAMSIZ_def failing_os_def Let_def)
  have call: "sys (failing_os m err idx) calls c = (calls @ [c], if length calls = m then Inl err else Inr (length calls))"
    for m calls c by (simp add: failing_os_def)
  note evals = RipIfc_create_def RipIfc_create_ifc_def RipSocket_new_tx_socket_def RipSocket_new_rx_socket_def
    create_multicast_tx_socket_def create_multicast_rx_socket_def bind_port_and_device_def into_tokio_socket_def
    interface_calls_def name call
  show ?thesis
  proof (cases "n < 14")
    case True
    then have "n \<in> {0, 1, 2, 3, 4, 5, 6, 7, 8, 9, 10, 11, 12, 13}" by (simp, presburger)
    then show ?thesis by (elim insertE; simp add: evals)
  next
    case False
    then show ?thesis by (simp add: evals)
  qed
qed

theorem interface_setup_calls_witness:
  "snd (RipIfc_create (failing_os 12 (OsError ''No such device'') 7) ''eth0'' []) =
     Inl (FailedToConfigureInterface ''No such device'' ''eth0'')"
  using interface_setup_calls [of "''eth0''" 7 12 "OsError ''No such device''"] by (simp split: sum.splits)

end
