(* ===== verification/Rip_Hash_Map.thy ===== *)
theory Rip_Hash_Map
  imports Rip_Prelude "HOL-Library.AList"
begin

text \<open>
  The part of \<^verbatim>\<open>std::collections::HashMap\<close> the daemon uses. A map is the list of its entries in
  its current iteration order, each key once. The order of a real \<^verbatim>\<open>HashMap\<close> is arbitrary: every
  statement below about a given map quantifies over all its orders, and the database theorems are
  stated over lookups and sets, which do not see the order.

  The locale \<open>keyed_store\<close> is the interface the database relies on: what a lookup returns after
  each operation, and what iteration visits. The lemmas about predicates on all entries are proved
  once inside it and used through its interpretation \<open>hm\<close> on the entry lists.
\<close>

section \<open>The interface\<close>

locale keyed_store =
  fixes lookup :: "'m \<Rightarrow> 'k \<Rightarrow> 'v option"
    and insert_new :: "'k \<Rightarrow> 'v \<Rightarrow> 'm \<Rightarrow> 'm"
    and remove_key :: "'k \<Rightarrow> 'm \<Rightarrow> 'm"
    and update_key :: "'k \<Rightarrow> ('v \<Rightarrow> 'v) \<Rightarrow> 'm \<Rightarrow> 'm"
    and update_each :: "('v \<Rightarrow> 'v) \<Rightarrow> 'm \<Rightarrow> 'm"
    and visited :: "'m \<Rightarrow> 'v list"
    and invar :: "'m \<Rightarrow> bool"
  assumes lookup_insert_new: "lookup (insert_new k v m) k' = (if k' = k then Some v else lookup m k')"
    and lookup_remove_key: "lookup (remove_key k m) k' = (if k' = k then None else lookup m k')"
    and lookup_update_key:
      "lookup (update_key k f m) k' = (if k' = k then map_option f (lookup m k) else lookup m k')"
    and lookup_update_each: "lookup (update_each f m) k = map_option f (lookup m k)"
    and visited_lookup: "invar m \<Longrightarrow> v \<in> set (visited m) \<longleftrightarrow> (\<exists>k. lookup m k = Some v)"
    and invar_insert_new: "invar m \<Longrightarrow> invar (insert_new k v m)"
    and invar_remove_key: "invar m \<Longrightarrow> invar (remove_key k m)"
    and invar_update_key: "invar m \<Longrightarrow> invar (update_key k f m)"
    and invar_update_each: "invar m \<Longrightarrow> invar (update_each f m)"
begin

lemmas lookup_laws =
  lookup_insert_new lookup_remove_key lookup_update_key lookup_update_each

lemmas invar_laws =
  invar_insert_new invar_remove_key invar_update_key invar_update_each

definition entries_satisfy :: "('k \<Rightarrow> 'v \<Rightarrow> bool) \<Rightarrow> 'm \<Rightarrow> bool" where
  "entries_satisfy P m \<longleftrightarrow> (\<forall>k v. lookup m k = Some v \<longrightarrow> P k v)"

lemma entries_satisfyD: "entries_satisfy P m \<Longrightarrow> lookup m k = Some v \<Longrightarrow> P k v"
  by (simp add: entries_satisfy_def)

lemma entries_satisfy_insert_new:
  "entries_satisfy P m \<Longrightarrow> P k v \<Longrightarrow> entries_satisfy P (insert_new k v m)"
  by (simp add: entries_satisfy_def lookup_insert_new)

lemma entries_satisfy_remove_key: "entries_satisfy P m \<Longrightarrow> entries_satisfy P (remove_key k m)"
  by (simp add: entries_satisfy_def lookup_remove_key)

lemma entries_satisfy_update_key:
  "entries_satisfy P m \<Longrightarrow> (\<And>v. P k v \<Longrightarrow> P k (f v)) \<Longrightarrow> entries_satisfy P (update_key k f m)"
  by (auto simp: entries_satisfy_def lookup_update_key)

lemma entries_satisfy_update_each:
  "entries_satisfy P m \<Longrightarrow> (\<And>k v. P k v \<Longrightarrow> P k (f v)) \<Longrightarrow> entries_satisfy P (update_each f m)"
  by (auto simp: entries_satisfy_def lookup_update_each)

lemma entries_satisfy_update_each_all:
  "(\<And>k v. P k (f v)) \<Longrightarrow> entries_satisfy P (update_each f m)"
  by (auto simp: entries_satisfy_def lookup_update_each)

lemma entries_satisfy_mono:
  "entries_satisfy P m \<Longrightarrow> (\<And>k v. P k v \<Longrightarrow> Q k v) \<Longrightarrow> entries_satisfy Q m"
  by (simp add: entries_satisfy_def)

lemma entries_satisfy_visited:
  assumes "invar m"
  shows "entries_satisfy (\<lambda>_. P) m \<longleftrightarrow> (\<forall>v \<in> set (visited m). P v)"
  using assms by (auto simp: entries_satisfy_def visited_lookup)

lemma reinsert_removed:
  assumes "lookup m k = Some v"
  shows "lookup (insert_new k v (remove_key k m)) = lookup m"
  using assms by (auto simp: lookup_laws fun_eq_iff)

lemma remove_inserted:
  assumes "lookup m k = None"
  shows "lookup (remove_key k (insert_new k v m)) = lookup m"
  using assms by (auto simp: lookup_laws fun_eq_iff)

end

section \<open>Entry lists\<close>

type_synonym ('k, 'v) hash_map = "('k \<times> 'v) list"

definition hm_new :: "('k, 'v) hash_map" where
  "hm_new = []"

definition hm_get :: "('k, 'v) hash_map \<Rightarrow> 'k \<Rightarrow> 'v option" where
  "hm_get m k = map_of m k"

definition hm_contains_key :: "('k, 'v) hash_map \<Rightarrow> 'k \<Rightarrow> bool" where
  "hm_contains_key m k \<longleftrightarrow> hm_get m k \<noteq> None"

definition hm_is_empty :: "('k, 'v) hash_map \<Rightarrow> bool" where
  "hm_is_empty m \<longleftrightarrow> m = []"

definition hm_insert :: "'k \<Rightarrow> 'v \<Rightarrow> ('k, 'v) hash_map \<Rightarrow> ('k, 'v) hash_map" where
  "hm_insert k v m = AList.update k v m"

definition hm_remove :: "'k \<Rightarrow> ('k, 'v) hash_map \<Rightarrow> ('k, 'v) hash_map" where
  "hm_remove k m = AList.delete k m"

definition hm_modify :: "'k \<Rightarrow> ('v \<Rightarrow> 'v) \<Rightarrow> ('k, 'v) hash_map \<Rightarrow> ('k, 'v) hash_map" where
  "hm_modify k f m = map (\<lambda>(k', v). (k', if k' = k then f v else v)) m"

definition hm_map_values :: "('v \<Rightarrow> 'v) \<Rightarrow> ('k, 'v) hash_map \<Rightarrow> ('k, 'v) hash_map" where
  "hm_map_values f m = map (\<lambda>(k, v). (k, f v)) m"

definition hm_values :: "('k, 'v) hash_map \<Rightarrow> 'v list" where
  "hm_values m = map snd m"

definition hm_wf :: "('k, 'v) hash_map \<Rightarrow> bool" where
  "hm_wf m \<longleftrightarrow> distinct (map fst m)"

lemmas hm_defs = hm_new_def hm_get_def hm_contains_key_def hm_is_empty_def hm_insert_def
  hm_remove_def hm_modify_def hm_map_values_def hm_values_def hm_wf_def

lemma hm_get_new [simp]: "hm_get hm_new k = None"
  by (simp add: hm_get_def hm_new_def)

lemma hm_get_insert [simp]:
  "hm_get (hm_insert k v m) k' = (if k' = k then Some v else hm_get m k')"
  by (simp add: hm_get_def hm_insert_def update_conv')

lemma hm_get_remove [simp]:
  "hm_get (hm_remove k m) k' = (if k' = k then None else hm_get m k')"
  by (simp add: hm_get_def hm_remove_def delete_conv')

lemma hm_get_modify [simp]:
  "hm_get (hm_modify k f m) k' = (if k' = k then map_option f (hm_get m k) else hm_get m k')"
  unfolding hm_get_def hm_modify_def by (induction m) auto

lemma hm_get_map_values [simp]: "hm_get (hm_map_values f m) k = map_option f (hm_get m k)"
  unfolding hm_get_def hm_map_values_def by (induction m) auto

text \<open>The same facts as equivalences on a present key, for goals with the key quantified.\<close>

lemma hm_get_Some:
  "hm_get (hm_insert k v m) k' = Some w \<longleftrightarrow> (k' = k \<and> w = v \<or> k' \<noteq> k \<and> hm_get m k' = Some w)"
  "hm_get (hm_remove k m) k' = Some w \<longleftrightarrow> (k' \<noteq> k \<and> hm_get m k' = Some w)"
  "hm_get (hm_modify k f m) k' = Some w \<longleftrightarrow>
     (k' = k \<and> (\<exists>v. hm_get m k = Some v \<and> w = f v) \<or> k' \<noteq> k \<and> hm_get m k' = Some w)"
  by auto

lemma hm_values_map_values [simp]: "hm_values (hm_map_values f m) = map f (hm_values m)"
  by (simp add: hm_values_def hm_map_values_def split_def)

lemma hm_keys_modify: "map fst (hm_modify k f m) = map fst m"
  by (simp add: hm_modify_def split_def)

lemma hm_keys_map_values: "map fst (hm_map_values f m) = map fst m"
  by (simp add: hm_map_values_def split_def)

lemma hm_wf_new [simp]: "hm_wf hm_new"
  by (simp add: hm_wf_def hm_new_def)

lemma hm_wf_insert [simp]: "hm_wf m \<Longrightarrow> hm_wf (hm_insert k v m)"
  by (simp add: hm_wf_def hm_insert_def distinct_update)

lemma hm_wf_remove [simp]: "hm_wf m \<Longrightarrow> hm_wf (hm_remove k m)"
  by (simp add: hm_wf_def hm_remove_def distinct_delete)

lemma hm_wf_modify [simp]: "hm_wf (hm_modify k f m) = hm_wf m"
  by (simp add: hm_wf_def hm_keys_modify)

lemma hm_wf_map_values [simp]: "hm_wf (hm_map_values f m) = hm_wf m"
  by (simp add: hm_wf_def hm_keys_map_values)

lemma hm_get_in_set: "hm_wf m \<Longrightarrow> (k, v) \<in> set m \<longleftrightarrow> hm_get m k = Some v"
  by (simp add: hm_wf_def hm_get_def)

lemma hm_values_iff: "hm_wf m \<Longrightarrow> v \<in> set (hm_values m) \<longleftrightarrow> (\<exists>k. hm_get m k = Some v)"
  by (force simp: hm_values_def simp flip: hm_get_in_set)

lemma hm_is_empty_iff: "hm_is_empty m \<longleftrightarrow> (\<forall>k. hm_get m k = None)"
  by (cases m) (auto simp: hm_is_empty_def hm_get_def)

lemma hm_is_empty_map_values [simp]: "hm_is_empty (hm_map_values f m) = hm_is_empty m"
  by (simp add: hm_is_empty_def hm_map_values_def)

lemma hm_remove_absent: "hm_get m k = None \<Longrightarrow> hm_remove k m = m"
  by (simp add: hm_get_def hm_remove_def map_of_eq_None_iff)

interpretation hm: keyed_store hm_get hm_insert hm_remove hm_modify hm_map_values hm_values hm_wf
  by unfold_locales (simp_all add: hm_values_iff)

text \<open>Executable form of a predicate on all entries.\<close>

definition hm_all :: "('k \<Rightarrow> 'v \<Rightarrow> bool) \<Rightarrow> ('k, 'v) hash_map \<Rightarrow> bool" where
  "hm_all P m \<longleftrightarrow> list_all (\<lambda>(k, v). P k v) m"

lemma hm_all_iff: "hm_wf m \<Longrightarrow> hm_all P m \<longleftrightarrow> hm.entries_satisfy P m"
  by (auto simp: hm_all_def list_all_iff hm.entries_satisfy_def simp flip: hm_get_in_set)

end
