(* ===== verification/Rip_Database.thy ===== *)
theory Rip_Database
  imports Rip_Hash_Map Rip_Packet Rip_Text
begin

text \<open>
  \<^verbatim>\<open>src/src/rip_database.rs\<close>: the active routes, the garbage routes (withdrawn, still advertised as
  unreachable) and the flag that asks for a triggered update. Every method is a function of the
  database; the ones that fail return the database as the code leaves it.
\<close>

section \<open>State\<close>

record RipRouteKey =
  key_ip_address :: u32
  key_subnet_mask :: u32

definition RipRouteKey_fmt :: "RipRouteKey \<Rightarrow> string" where
  "RipRouteKey_fmt k =
     ''ip_address='' @ ipv4_to_string (key_ip_address k)
     @ '', subnet_mask='' @ ipv4_to_string (key_subnet_mask k)"

record RipDbEntry =
  rip_entry :: RipEntry
  if_index :: u32
  if_name :: string
  changed :: bool
  is_local :: bool
  in_routing_table :: bool
  timeout_cnt :: u64
  garbage_started_at :: "Instant option"

record RipDatabase =
  ok_routes :: "(RipRouteKey, RipDbEntry) hash_map"
  garbage_routes :: "(RipRouteKey, RipDbEntry) hash_map"
  any_changed :: bool

definition RipDatabase_new :: RipDatabase where
  "RipDatabase_new = \<lparr> ok_routes = hm_new, garbage_routes = hm_new, any_changed = False \<rparr>"

definition build_route_key :: "RipEntry \<Rightarrow> RipRouteKey" where
  "build_route_key e = \<lparr> key_ip_address = ip_address e, key_subnet_mask = subnet_mask e \<rparr>"

section \<open>Operations\<close>

definition get_route :: "RipDatabase \<Rightarrow> RipEntry \<Rightarrow> RipDbEntry option" where
  "get_route db e = hm_get (ok_routes db) (build_route_key e)"

definition route_exists_msg :: "RipRouteKey \<Rightarrow> string" where
  "route_exists_msg k = ''route already exists in RIP database: '' @ RipRouteKey_fmt k"

definition route_missing_msg :: "RipRouteKey \<Rightarrow> string" where
  "route_missing_msg k = ''route does not exist in RIP database: '' @ RipRouteKey_fmt k"

definition garbage_exists_msg :: "RipRouteKey \<Rightarrow> string" where
  "garbage_exists_msg k = ''route already exists in RIP garbage database: '' @ RipRouteKey_fmt k"

definition add_route ::
  "RipEntry \<Rightarrow> u32 \<Rightarrow> string \<Rightarrow> bool \<Rightarrow> bool \<Rightarrow> bool \<Rightarrow> RipDatabase
    \<Rightarrow> RipDatabase \<times> RipDbEntry RipResult" where
  "add_route e ifx ifn chg loc inrt db =
     (let k = build_route_key e;
          v = \<lparr> rip_entry = e, if_index = ifx, if_name = ifn, changed = chg, is_local = loc,
                in_routing_table = inrt, timeout_cnt = 0, garbage_started_at = None \<rparr>
      in case hm_get (ok_routes db) k of
           None \<Rightarrow>
             (db\<lparr> ok_routes := hm_insert k v (ok_routes db),
                  any_changed := (if changed v then True else any_changed db) \<rparr>, Inr v)
         | Some _ \<Rightarrow> (db, Inl (InvalidConfiguration (route_exists_msg k))))"

definition add_local_route ::
  "RipEntry \<Rightarrow> u32 \<Rightarrow> string \<Rightarrow> RipDatabase \<Rightarrow> RipDatabase \<times> unit RipResult" where
  "add_local_route e ifx ifn db =
     and_then (add_route e ifx ifn True True False db) (\<lambda>_ db'. (db', Inr ()))"

definition add_remote_route ::
  "RipEntry \<Rightarrow> u32 \<Rightarrow> string \<Rightarrow> RipDatabase \<Rightarrow> RipDatabase \<times> RipDbEntry RipResult" where
  "add_remote_route e ifx ifn db = add_route e ifx ifn True False True db"

definition remove_route :: "RipEntry \<Rightarrow> RipDatabase \<Rightarrow> RipDatabase \<times> RipDbEntry RipResult" where
  "remove_route e db =
     (let k = build_route_key e
      in case hm_get (ok_routes db) k of
           Some r \<Rightarrow> (db\<lparr> ok_routes := hm_remove k (ok_routes db) \<rparr>, Inr r)
         | None \<Rightarrow>
             (case hm_get (garbage_routes db) k of
                Some r \<Rightarrow> (db\<lparr> garbage_routes := hm_remove k (garbage_routes db) \<rparr>, Inr r)
              | None \<Rightarrow> (db, Inl (InvalidConfiguration (route_missing_msg k)))))"

definition remove_garbage_route :: "RipEntry \<Rightarrow> RipDatabase \<Rightarrow> RipDatabase \<times> RipDbEntry option" where
  "remove_garbage_route e db =
     (let k = build_route_key e
      in (db\<lparr> garbage_routes := hm_remove k (garbage_routes db) \<rparr>, hm_get (garbage_routes db) k))"

definition has_garbage_route :: "RipDatabase \<Rightarrow> RipEntry \<Rightarrow> bool" where
  "has_garbage_route db e = hm_contains_key (garbage_routes db) (build_route_key e)"

definition refresh_route_timeout :: "RipEntry \<Rightarrow> RipDatabase \<Rightarrow> RipDatabase" where
  "refresh_route_timeout e db =
     db\<lparr> ok_routes := hm_modify (build_route_key e) (\<lambda>r. r\<lparr> timeout_cnt := 0 \<rparr>) (ok_routes db) \<rparr>"

text \<open>The closure of \<^verbatim>\<open>collect_timed_out_routes\<close>: the route as it leaves it, and what it yields.\<close>

definition timeout_closure :: "u64 \<Rightarrow> u64 \<Rightarrow> RipDbEntry \<Rightarrow> RipDbEntry \<times> RipDbEntry option" where
  "timeout_closure inc limit r =
     (if is_local r then (r, None)
      else
        let r' = r\<lparr> timeout_cnt := saturating_add (timeout_cnt r) inc \<rparr>
        in if timeout_cnt r' \<ge> limit then (r', Some r') else (r', None))"

definition collect_timed_out_routes :: "u64 \<Rightarrow> u64 \<Rightarrow> RipDatabase \<Rightarrow> RipDatabase \<times> RipDbEntry list" where
  "collect_timed_out_routes inc limit db =
     (db\<lparr> ok_routes := hm_map_values (\<lambda>r. fst (timeout_closure inc limit r)) (ok_routes db) \<rparr>,
      List.map_filter (\<lambda>r. snd (timeout_closure inc limit r)) (hm_values (ok_routes db)))"

definition to_garbage :: "Instant \<Rightarrow> RipDbEntry \<Rightarrow> RipDbEntry" where
  "to_garbage started r =
     r\<lparr> changed := True, rip_entry := (rip_entry r)\<lparr> metric := 16 \<rparr>, in_routing_table := False,
        garbage_started_at := Some started \<rparr>"

definition move_route_to_garbage ::
  "RipEntry \<Rightarrow> Instant \<Rightarrow> RipDatabase \<Rightarrow> RipDatabase \<times> RipDbEntry RipResult" where
  "move_route_to_garbage e started db =
     (let k = build_route_key e
      in case hm_get (ok_routes db) k of
           None \<Rightarrow> (db, Inl (InvalidConfiguration (route_missing_msg k)))
         | Some r0 \<Rightarrow>
             (let r = to_garbage started r0;
                  db' = db\<lparr> ok_routes := hm_remove k (ok_routes db), any_changed := True \<rparr>
              in case hm_get (garbage_routes db') k of
                   None \<Rightarrow> (db'\<lparr> garbage_routes := hm_insert k r (garbage_routes db') \<rparr>, Inr r)
                 | Some _ \<Rightarrow> (db', Inl (InvalidConfiguration (garbage_exists_msg k)))))"

definition garbage_expired :: "Instant \<Rightarrow> Duration \<Rightarrow> RipDbEntry \<Rightarrow> bool" where
  "garbage_expired now lifetime r =
     (case garbage_started_at r of
        None \<Rightarrow> False
      | Some started \<Rightarrow> duration_since now started \<ge> lifetime)"

fun remove_keys ::
  "RipRouteKey list \<Rightarrow> (RipRouteKey, RipDbEntry) hash_map
    \<Rightarrow> (RipRouteKey, RipDbEntry) hash_map \<times> RipDbEntry list" where
  "remove_keys [] m = (m, [])"
| "remove_keys (k # ks) m =
     (case remove_keys ks (hm_remove k m) of
        (m', rs) \<Rightarrow> (m', case hm_get m k of None \<Rightarrow> rs | Some r \<Rightarrow> r # rs))"

definition remove_expired_garbage_routes ::
  "Instant \<Rightarrow> Duration \<Rightarrow> RipDatabase \<Rightarrow> RipDatabase \<times> RipDbEntry list" where
  "remove_expired_garbage_routes now lifetime db =
     (let expired_keys =
            List.map_filter (\<lambda>(k, r). if garbage_expired now lifetime r then Some k else None)
              (garbage_routes db);
          (garbage', removed) = remove_keys expired_keys (garbage_routes db)
      in (db\<lparr> garbage_routes := garbage' \<rparr>, removed))"

definition has_garbage_routes :: "RipDatabase \<Rightarrow> bool" where
  "has_garbage_routes db \<longleftrightarrow> \<not> hm_is_empty (garbage_routes db)"

definition poison_route :: "RipDbEntry \<Rightarrow> RipDbEntry" where
  "poison_route r = r\<lparr> rip_entry := (rip_entry r)\<lparr> metric := 16 \<rparr>, changed := True \<rparr>"

definition poison_all_routes :: "RipDatabase \<Rightarrow> RipDatabase" where
  "poison_all_routes db =
     (if hm_is_empty (ok_routes db) \<and> hm_is_empty (garbage_routes db) then db
      else db\<lparr> ok_routes := hm_map_values poison_route (ok_routes db),
               garbage_routes := hm_map_values poison_route (garbage_routes db),
               any_changed := True \<rparr>)"

definition get_routes_in_routing_table :: "RipDatabase \<Rightarrow> RipDbEntry list" where
  "get_routes_in_routing_table db =
     filter in_routing_table (hm_values (ok_routes db) @ hm_values (garbage_routes db))"

definition get_routes_for_advertisement :: "RipDatabase \<Rightarrow> u32 \<Rightarrow> bool \<Rightarrow> RipEntry list" where
  "get_routes_for_advertisement db target_if_index changed_only =
     map (\<lambda>r. (rip_entry r)\<lparr> next_hop := 0 \<rparr>)
       (filter (\<lambda>r. if changed_only \<and> \<not> changed r then False else if_index r \<noteq> target_if_index)
         (hm_values (ok_routes db) @ hm_values (garbage_routes db)))"

definition any_route_changed :: "RipDatabase \<Rightarrow> bool" where
  "any_route_changed db = any_changed db"

definition mark_unchanged :: "RipDbEntry \<Rightarrow> RipDbEntry" where
  "mark_unchanged r = r\<lparr> changed := False \<rparr>"

definition mark_all_routes_as_unchanged :: "RipDatabase \<Rightarrow> RipDatabase" where
  "mark_all_routes_as_unchanged db =
     (if \<not> any_changed db then db
      else db\<lparr> ok_routes := hm_map_values mark_unchanged (ok_routes db),
               garbage_routes := hm_map_values mark_unchanged (garbage_routes db),
               any_changed := False \<rparr>)"

section \<open>The well-formedness invariant\<close>

text \<open>
  Each route is stored under its own key. An active route has no garbage clock and is in the
  kernel exactly when it is remote; a garbage route is unreachable, out of the kernel and has its
  clock running. Where the change flag is off, no route is marked as changed.
\<close>

definition ok_entry :: "RipRouteKey \<Rightarrow> RipDbEntry \<Rightarrow> bool" where
  "ok_entry k r \<longleftrightarrow>
     build_route_key (rip_entry r) = k \<and> garbage_started_at r = None
     \<and> in_routing_table r = (\<not> is_local r)"

definition garbage_entry :: "RipRouteKey \<Rightarrow> RipDbEntry \<Rightarrow> bool" where
  "garbage_entry k r \<longleftrightarrow>
     build_route_key (rip_entry r) = k \<and> garbage_started_at r \<noteq> None
     \<and> \<not> in_routing_table r \<and> metric (rip_entry r) = 16"

definition db_wf :: "RipDatabase \<Rightarrow> bool" where
  "db_wf db \<longleftrightarrow>
     hm_wf (ok_routes db) \<and> hm_wf (garbage_routes db)
     \<and> hm_all ok_entry (ok_routes db) \<and> hm_all garbage_entry (garbage_routes db)
     \<and> (any_changed db \<or> hm_all (\<lambda>_ r. \<not> changed r) (ok_routes db)
                            \<and> hm_all (\<lambda>_ r. \<not> changed r) (garbage_routes db))"

lemma db_wf_iff:
  "db_wf db \<longleftrightarrow>
     hm_wf (ok_routes db) \<and> hm_wf (garbage_routes db)
     \<and> hm.entries_satisfy ok_entry (ok_routes db)
     \<and> hm.entries_satisfy garbage_entry (garbage_routes db)
     \<and> (any_changed db \<or> hm.entries_satisfy (\<lambda>_ r. \<not> changed r) (ok_routes db)
                            \<and> hm.entries_satisfy (\<lambda>_ r. \<not> changed r) (garbage_routes db))"
  by (auto simp: db_wf_def hm_all_iff)

lemma db_wf_ok: "db_wf db \<Longrightarrow> hm_get (ok_routes db) k = Some r \<Longrightarrow> ok_entry k r"
  by (auto simp: db_wf_iff dest: hm.entries_satisfyD)

lemma db_wf_garbage: "db_wf db \<Longrightarrow> hm_get (garbage_routes db) k = Some r \<Longrightarrow> garbage_entry k r"
  by (auto simp: db_wf_iff dest: hm.entries_satisfyD)

lemma db_wf_maps: "db_wf db \<Longrightarrow> hm_wf (ok_routes db) \<and> hm_wf (garbage_routes db)"
  by (simp add: db_wf_def)

named_theorems db_wf_intros \<open>every database operation keeps the well-formedness invariant\<close>

lemmas entries_intros =
  hm.entries_satisfy_insert_new hm.entries_satisfy_remove_key hm.entries_satisfy_update_key
  hm.entries_satisfy_update_each

lemma db_wf_new [db_wf_intros]: "db_wf RipDatabase_new"
  by (simp add: db_wf_def RipDatabase_new_def hm_new_def hm_all_def hm_wf_def)

lemma db_wf_add_route [db_wf_intros]:
  assumes "db_wf db" and "inrt = (\<not> loc)" and "chg"
  shows "db_wf (fst (add_route e ifx ifn chg loc inrt db))"
  using assms
  by (auto simp: add_route_def db_wf_iff ok_entry_def Let_def split: option.splits
      intro!: entries_intros)

lemma add_local_route_fst: "fst (add_local_route e ifx ifn db) = fst (add_route e ifx ifn True True False db)"
  by (simp add: add_local_route_def and_then_def split: prod.splits sum.splits)

lemma db_wf_add_local_route [db_wf_intros]:
  "db_wf db \<Longrightarrow> db_wf (fst (add_local_route e ifx ifn db))"
  by (simp add: add_local_route_fst db_wf_add_route)

lemma db_wf_add_remote_route [db_wf_intros]:
  "db_wf db \<Longrightarrow> db_wf (fst (add_remote_route e ifx ifn db))"
  by (simp add: add_remote_route_def db_wf_add_route)

lemma db_wf_remove_route [db_wf_intros]: "db_wf db \<Longrightarrow> db_wf (fst (remove_route e db))"
  by (auto simp: remove_route_def db_wf_iff Let_def split: option.splits intro!: entries_intros)

lemma db_wf_remove_garbage_route [db_wf_intros]:
  "db_wf db \<Longrightarrow> db_wf (fst (remove_garbage_route e db))"
  by (auto simp: remove_garbage_route_def db_wf_iff Let_def intro!: entries_intros)

lemma db_wf_refresh [db_wf_intros]: "db_wf db \<Longrightarrow> db_wf (refresh_route_timeout e db)"
  by (auto simp: refresh_route_timeout_def db_wf_iff ok_entry_def intro!: entries_intros)

lemma timeout_closure_fields:
  "rip_entry (fst (timeout_closure inc limit r)) = rip_entry r"
  "if_index (fst (timeout_closure inc limit r)) = if_index r"
  "if_name (fst (timeout_closure inc limit r)) = if_name r"
  "changed (fst (timeout_closure inc limit r)) = changed r"
  "is_local (fst (timeout_closure inc limit r)) = is_local r"
  "in_routing_table (fst (timeout_closure inc limit r)) = in_routing_table r"
  "garbage_started_at (fst (timeout_closure inc limit r)) = garbage_started_at r"
  by (simp_all add: timeout_closure_def Let_def)

lemma db_wf_collect [db_wf_intros]:
  "db_wf db \<Longrightarrow> db_wf (fst (collect_timed_out_routes inc limit db))"
  by (auto simp: collect_timed_out_routes_def db_wf_iff ok_entry_def timeout_closure_fields
      intro!: entries_intros)

lemma build_route_key_metric [simp]: "build_route_key (e\<lparr> metric := m \<rparr>) = build_route_key e"
  by (simp add: build_route_key_def)

lemma build_route_key_next_hop [simp]: "build_route_key (e\<lparr> next_hop := m \<rparr>) = build_route_key e"
  by (simp add: build_route_key_def)

lemma db_wf_move_to_garbage [db_wf_intros]:
  assumes "db_wf db"
  shows "db_wf (fst (move_route_to_garbage e started db))"
  using assms db_wf_ok [OF assms]
  by (auto simp: move_route_to_garbage_def db_wf_iff Let_def to_garbage_def garbage_entry_def
      ok_entry_def split: option.splits intro!: entries_intros)

lemma remove_keys_wf: "hm_wf m \<Longrightarrow> hm_wf (fst (remove_keys ks m))"
  by (induction ks m rule: remove_keys.induct) (auto split: prod.splits)

lemma remove_keys_get:
  "hm_get (fst (remove_keys ks m)) k = (if k \<in> set ks then None else hm_get m k)"
  by (induction ks m rule: remove_keys.induct) (auto split: prod.splits)

lemma db_wf_remove_expired [db_wf_intros]:
  "db_wf db \<Longrightarrow> db_wf (fst (remove_expired_garbage_routes now lifetime db))"
  using remove_keys_wf [of "garbage_routes db"]
  by (auto simp: remove_expired_garbage_routes_def db_wf_iff Let_def hm.entries_satisfy_def
      remove_keys_get split: prod.splits if_splits)
     (metis fst_conv remove_keys_wf remove_keys_get option.distinct(1))+

lemma db_wf_mark_all [db_wf_intros]: "db_wf db \<Longrightarrow> db_wf (mark_all_routes_as_unchanged db)"
  by (auto simp: mark_all_routes_as_unchanged_def db_wf_iff hm.entries_satisfy_def mark_unchanged_def
      ok_entry_def garbage_entry_def)

lemma db_wf_poison_all [db_wf_intros]: "db_wf db \<Longrightarrow> db_wf (poison_all_routes db)"
  by (auto simp: poison_all_routes_def db_wf_iff hm.entries_satisfy_def poison_route_def
      ok_entry_def garbage_entry_def)

end
