(* ===== verification/Rip_Database_Laws.thy ===== *)
theory Rip_Database_Laws
  imports Rip_Database "HOL-Library.Multiset"
begin

text \<open>
  What the database operations do: lookups after an insertion, a withdrawal and a collection, the
  timeout counter over repeated checks, what is advertised, and the independence of all of it from
  the iteration order of the hash maps.
\<close>

section \<open>Lookups\<close>

definition garbage_route :: "RipDatabase \<Rightarrow> RipEntry \<Rightarrow> RipDbEntry option" where
  "garbage_route db e = hm_get (garbage_routes db) (build_route_key e)"

lemma has_garbage_route_iff: "has_garbage_route db e \<longleftrightarrow> garbage_route db e \<noteq> None"
  by (simp add: has_garbage_route_def garbage_route_def hm_contains_key_def)

definition new_db_entry :: "RipEntry \<Rightarrow> u32 \<Rightarrow> string \<Rightarrow> bool \<Rightarrow> RipDbEntry" where
  "new_db_entry e ifx ifn loc =
     \<lparr> rip_entry = e, if_index = ifx, if_name = ifn, changed = True, is_local = loc,
       in_routing_table = (\<not> loc), timeout_cnt = 0, garbage_started_at = None \<rparr>"

lemma new_db_entry_fields [simp]:
  "rip_entry (new_db_entry e ifx ifn loc) = e"
  "if_index (new_db_entry e ifx ifn loc) = ifx"
  "if_name (new_db_entry e ifx ifn loc) = ifn"
  "changed (new_db_entry e ifx ifn loc)"
  "is_local (new_db_entry e ifx ifn loc) = loc"
  "in_routing_table (new_db_entry e ifx ifn loc) = (\<not> loc)"
  "timeout_cnt (new_db_entry e ifx ifn loc) = 0"
  "garbage_started_at (new_db_entry e ifx ifn loc) = None"
  by (simp_all add: new_db_entry_def)

definition db_store :: "RipDbEntry \<Rightarrow> RipDatabase \<Rightarrow> RipDatabase" where
  "db_store r db =
     db\<lparr> ok_routes := hm_insert (build_route_key (rip_entry r)) r (ok_routes db), any_changed := True \<rparr>"

lemma add_remote_route_eq:
  "add_remote_route e ifx ifn db =
     (if get_route db e = None
      then (db_store (new_db_entry e ifx ifn False) db, Inr (new_db_entry e ifx ifn False))
      else (db, Inl (InvalidConfiguration (route_exists_msg (build_route_key e)))))"
  by (auto simp: add_remote_route_def add_route_def get_route_def db_store_def new_db_entry_def Let_def)

lemma add_local_route_eq:
  "add_local_route e ifx ifn db =
     (if get_route db e = None
      then (db_store (new_db_entry e ifx ifn True) db, Inr ())
      else (db, Inl (InvalidConfiguration (route_exists_msg (build_route_key e)))))"
  by (auto simp: add_local_route_def add_route_def get_route_def db_store_def new_db_entry_def Let_def)

lemma db_store_get_route:
  "get_route (db_store r db) e =
     (if build_route_key e = build_route_key (rip_entry r) then Some r else get_route db e)"
  by (simp add: db_store_def get_route_def)

lemma db_store_garbage [simp]: "garbage_routes (db_store r db) = garbage_routes db"
  by (simp add: db_store_def)

lemma db_store_flag [simp]: "any_changed (db_store r db)"
  by (simp add: db_store_def)

lemma move_to_garbage_ok:
  assumes "get_route db e = Some r" and "\<not> has_garbage_route db e"
  shows "move_route_to_garbage e t db =
    (db\<lparr> ok_routes := hm_remove (build_route_key e) (ok_routes db), any_changed := True,
         garbage_routes := hm_insert (build_route_key e) (to_garbage t r) (garbage_routes db) \<rparr>,
     Inr (to_garbage t r))"
  using assms
  by (simp add: move_route_to_garbage_def get_route_def has_garbage_route_def hm_contains_key_def Let_def)

lemma move_to_garbage_missing:
  assumes "get_route db e = None"
  shows "move_route_to_garbage e t db =
    (db, Inl (InvalidConfiguration (route_missing_msg (build_route_key e))))"
  using assms by (simp add: move_route_to_garbage_def get_route_def)

lemma move_to_garbage_occupied:
  assumes "get_route db e = Some r" and "has_garbage_route db e"
  shows "move_route_to_garbage e t db =
    (db\<lparr> ok_routes := hm_remove (build_route_key e) (ok_routes db), any_changed := True \<rparr>,
     Inl (InvalidConfiguration (garbage_exists_msg (build_route_key e))))"
  using assms
  by (auto simp: move_route_to_garbage_def get_route_def has_garbage_route_def hm_contains_key_def Let_def)

section \<open>Garbage collection\<close>

lemma remove_keys_removed:
  "distinct ks \<Longrightarrow> set (snd (remove_keys ks m)) = {r. \<exists>k \<in> set ks. hm_get m k = Some r}"
proof (induction ks m rule: remove_keys.induct)
  case (2 k ks m)
  have "set (snd (remove_keys ks (hm_remove k m))) = {r. \<exists>k' \<in> set ks. hm_get m k' = Some r}"
    using 2 by auto
  then show ?case by (auto split: prod.splits option.splits)
qed simp

definition expired_keys :: "Instant \<Rightarrow> Duration \<Rightarrow> (RipRouteKey, RipDbEntry) hash_map \<Rightarrow> RipRouteKey list" where
  "expired_keys now lifetime m =
     List.map_filter (\<lambda>(k, r). if garbage_expired now lifetime r then Some k else None) m"

lemma expired_keys_sub: "map fst (filter (\<lambda>(k, r). garbage_expired now lifetime r) m) =
    expired_keys now lifetime m"
  by (induction m) (auto simp: expired_keys_def List.map_filter_def)

lemma distinct_expired_keys: "hm_wf m \<Longrightarrow> distinct (expired_keys now lifetime m)"
  by (simp add: hm_wf_def distinct_map_filter flip: expired_keys_sub)

lemma set_expired_keys:
  assumes "hm_wf m"
  shows "set (expired_keys now lifetime m) =
    {k. \<exists>r. hm_get m k = Some r \<and> garbage_expired now lifetime r}"
  using assms by (force simp flip: expired_keys_sub hm_get_in_set)

lemma remove_expired_unfold:
  "remove_expired_garbage_routes now lifetime db =
     (db\<lparr> garbage_routes := fst (remove_keys (expired_keys now lifetime (garbage_routes db)) (garbage_routes db)) \<rparr>,
      snd (remove_keys (expired_keys now lifetime (garbage_routes db)) (garbage_routes db)))"
  by (simp add: remove_expired_garbage_routes_def expired_keys_def Let_def split: prod.splits)

lemma remove_expired_garbage:
  assumes "hm_wf (garbage_routes db)"
  shows "hm_get (garbage_routes (fst (remove_expired_garbage_routes now lifetime db))) k =
    (case hm_get (garbage_routes db) k of
       None \<Rightarrow> None
     | Some r \<Rightarrow> if garbage_expired now lifetime r then None else Some r)"
  using assms
  by (auto simp: remove_expired_unfold remove_keys_get set_expired_keys split: option.splits)

lemma remove_expired_result:
  assumes "hm_wf (garbage_routes db)"
  shows "set (snd (remove_expired_garbage_routes now lifetime db)) =
    {r. \<exists>k. hm_get (garbage_routes db) k = Some r \<and> garbage_expired now lifetime r}"
  using assms
  by (auto simp: remove_expired_unfold remove_keys_removed distinct_expired_keys set_expired_keys)

lemma remove_expired_frame [simp]:
  "ok_routes (fst (remove_expired_garbage_routes now lifetime db)) = ok_routes db"
  "any_changed (fst (remove_expired_garbage_routes now lifetime db)) = any_changed db"
  by (simp_all add: remove_expired_unfold)

section \<open>Timeouts\<close>

definition age :: "u64 \<Rightarrow> RipDbEntry \<Rightarrow> RipDbEntry" where
  "age inc r = (if is_local r then r else r\<lparr> timeout_cnt := saturating_add (timeout_cnt r) inc \<rparr>)"

lemma timeout_closure_fst: "fst (timeout_closure inc limit r) = age inc r"
  by (simp add: timeout_closure_def age_def Let_def)

lemma timeout_closure_snd:
  "snd (timeout_closure inc limit r) =
     (if is_local r \<or> timeout_cnt (age inc r) < limit then None else Some (age inc r))"
  by (auto simp: timeout_closure_def age_def Let_def not_le)

lemma age_fields [simp]:
  "rip_entry (age inc r) = rip_entry r" "if_index (age inc r) = if_index r"
  "if_name (age inc r) = if_name r" "is_local (age inc r) = is_local r"
  "changed (age inc r) = changed r" "in_routing_table (age inc r) = in_routing_table r"
  "garbage_started_at (age inc r) = garbage_started_at r"
  by (simp_all add: age_def)

lemma collect_state:
  "fst (collect_timed_out_routes inc limit db) = db\<lparr> ok_routes := hm_map_values (age inc) (ok_routes db) \<rparr>"
  by (simp add: collect_timed_out_routes_def timeout_closure_fst)

lemma collect_result:
  assumes "hm_wf (ok_routes db)"
  shows "set (snd (collect_timed_out_routes inc limit db)) =
    {age inc r | r. (\<exists>k. hm_get (ok_routes db) k = Some r) \<and> \<not> is_local r
                    \<and> limit \<le> timeout_cnt (age inc r)}"
  using assms
  by (force simp: collect_timed_out_routes_def List.map_filter_def timeout_closure_snd hm_values_iff
      split: if_splits)

text \<open>\<^term>\<open>n\<close> checks in a row, without an update in between.\<close>

definition checks_passed :: "u64 \<Rightarrow> nat \<Rightarrow> RipDatabase \<Rightarrow> RipDatabase" where
  "checks_passed inc n db = ((\<lambda>d. fst (collect_timed_out_routes inc 0 d)) ^^ n) db"

lemma age_iterate_local: "is_local r \<Longrightarrow> (age inc ^^ n) r = r"
  by (induction n) (simp_all add: age_def)

lemma age_iterate_fields:
  "rip_entry ((age inc ^^ n) r) = rip_entry r \<and> is_local ((age inc ^^ n) r) = is_local r"
  by (induction n) simp_all

lemma age_iterate_cnt:
  assumes "\<not> is_local r"
  shows "unat (timeout_cnt ((age inc ^^ n) r)) = min (unat (timeout_cnt r) + n * unat inc) (2 ^ 64 - 1)"
proof (induction n)
  case 0
  have "unat (timeout_cnt r) < 2 ^ LENGTH(64)" by (rule unsigned_less)
  then show ?case by simp
next
  case (Suc n)
  have "\<not> is_local ((age inc ^^ n) r)" using assms age_iterate_fields by blast
  then have "unat (timeout_cnt ((age inc ^^ Suc n) r)) =
      min (unat (timeout_cnt ((age inc ^^ n) r)) + unat inc) (2 ^ 64 - 1)"
    by (simp add: age_def unat_saturating_add)
  with Suc show ?case by simp
qed

lemma checks_passed_ok:
  "hm_get (ok_routes (checks_passed inc n db)) k = map_option (age inc ^^ n) (hm_get (ok_routes db) k)"
  by (induction n) (simp_all add: checks_passed_def collect_state option.map_comp comp_def
      option.map_ident)

lemma checks_passed_wf: "hm_wf (ok_routes db) \<Longrightarrow> hm_wf (ok_routes (checks_passed inc n db))"
  by (induction n) (simp_all add: checks_passed_def collect_state)

section \<open>Advertisements\<close>

definition all_routes :: "RipDatabase \<Rightarrow> RipDbEntry list" where
  "all_routes db = hm_values (ok_routes db) @ hm_values (garbage_routes db)"

lemma all_routes_iff:
  assumes "db_wf db"
  shows "r \<in> set (all_routes db) \<longleftrightarrow>
    (\<exists>k. hm_get (ok_routes db) k = Some r \<or> hm_get (garbage_routes db) k = Some r)"
  using db_wf_maps [OF assms] by (auto simp: all_routes_def hm_values_iff)

lemma set_advertisement:
  "set (get_routes_for_advertisement db target changed_only) =
    {(rip_entry r)\<lparr> next_hop := 0 \<rparr> | r. r \<in> set (all_routes db)
       \<and> if_index r \<noteq> target \<and> (changed_only \<longrightarrow> changed r)}"
  by (auto simp: get_routes_for_advertisement_def all_routes_def image_iff split: if_splits)

lemma advertisement_all_changed:
  assumes "\<forall>r \<in> set (all_routes db). changed r"
  shows "get_routes_for_advertisement db target True = get_routes_for_advertisement db target False"
  using assms unfolding get_routes_for_advertisement_def all_routes_def
  by (intro arg_cong [where f = "map _"] filter_cong) auto

lemma all_routes_poisoned: "\<forall>r \<in> set (all_routes (poison_all_routes db)). metric (rip_entry r) = 16 \<and> changed r"
  by (auto simp: all_routes_def poison_all_routes_def hm_is_empty_def hm_values_def poison_route_def
      hm_map_values_def)

lemma all_routes_unchanged:
  assumes "db_wf db"
  shows "\<forall>r \<in> set (all_routes (mark_all_routes_as_unchanged db)). \<not> changed r"
proof (cases "any_changed db")
  case True
  then show ?thesis
    by (auto simp: all_routes_def mark_all_routes_as_unchanged_def mark_unchanged_def)
next
  case False
  with assms have "hm.entries_satisfy (\<lambda>_ r. \<not> changed r) (ok_routes db)"
    and "hm.entries_satisfy (\<lambda>_ r. \<not> changed r) (garbage_routes db)"
    by (auto simp: db_wf_iff)
  with False db_wf_maps [OF assms] show ?thesis
    by (simp add: all_routes_def mark_all_routes_as_unchanged_def hm.entries_satisfy_visited ball_Un)
qed

text \<open>
  The early return of \<^verbatim>\<open>mark_all_routes_as_unchanged\<close> is an optimisation only: on a well-formed
  database the method is the unconditional loop.
\<close>

definition mark_all_unconditionally :: "RipDatabase \<Rightarrow> RipDatabase" where
  "mark_all_unconditionally db =
     db\<lparr> ok_routes := hm_map_values mark_unchanged (ok_routes db),
         garbage_routes := hm_map_values mark_unchanged (garbage_routes db), any_changed := False \<rparr>"

lemma mark_unchanged_id: "\<not> changed r \<Longrightarrow> mark_unchanged r = r"
  by (simp add: mark_unchanged_def)

lemma hm_map_values_id: "(\<And>v. v \<in> set (hm_values m) \<Longrightarrow> f v = v) \<Longrightarrow> hm_map_values f m = m"
  unfolding hm_map_values_def hm_values_def by (induction m) auto

lemma mark_all_eq:
  assumes "db_wf db"
  shows "mark_all_routes_as_unchanged db = mark_all_unconditionally db"
proof (cases "any_changed db")
  case True
  then show ?thesis
    by (simp add: mark_all_routes_as_unchanged_def mark_all_unconditionally_def)
next
  case False
  then have "mark_all_routes_as_unchanged db = db"
    by (simp add: mark_all_routes_as_unchanged_def)
  moreover have "\<forall>r \<in> set (all_routes db). \<not> changed r"
    using all_routes_unchanged [OF assms] calculation by simp
  then have "hm_map_values mark_unchanged (ok_routes db) = ok_routes db"
    and "hm_map_values mark_unchanged (garbage_routes db) = garbage_routes db"
    by (auto simp: all_routes_def intro!: hm_map_values_id mark_unchanged_id)
  ultimately show ?thesis using False by (simp add: mark_all_unconditionally_def)
qed

section \<open>Independence of the iteration order\<close>

text \<open>Two databases with the same entries, each map in an iteration order of its own.\<close>

definition same_db :: "RipDatabase \<Rightarrow> RipDatabase \<Rightarrow> bool" where
  "same_db db db' \<longleftrightarrow>
     mset (ok_routes db) = mset (ok_routes db') \<and> mset (garbage_routes db) = mset (garbage_routes db')
     \<and> any_changed db = any_changed db'"

lemma hm_wf_mset:
  assumes "mset m = mset m'"
  shows "hm_wf m = hm_wf m'"
proof -
  have "mset (map fst m) = mset (map fst m')"
    by (simp only: mset_map assms)
  then show ?thesis
    unfolding hm_wf_def by (metis mset_eq_imp_distinct_iff)
qed

lemma hm_get_mset:
  assumes "mset m = mset m'" and "hm_wf m"
  shows "hm_get m = hm_get m'"
proof
  fix k
  have "set m = set m'" using assms(1) by (metis set_mset_mset)
  moreover have "hm_wf m'" using assms hm_wf_mset by blast
  ultimately have "hm_get m k = Some v \<longleftrightarrow> hm_get m' k = Some v" for v
    using assms(2) by (simp flip: hm_get_in_set)
  then show "hm_get m k = hm_get m' k"
    by (metis not_Some_eq)
qed

lemma mset_all_routes: "same_db db db' \<Longrightarrow> mset (all_routes db) = mset (all_routes db')"
  by (simp add: same_db_def all_routes_def hm_values_def)

lemma mset_advertisement:
  assumes "same_db db db'"
  shows "mset (get_routes_for_advertisement db target chg) = mset (get_routes_for_advertisement db' target chg)"
  using mset_all_routes [OF assms]
  by (simp add: get_routes_for_advertisement_def all_routes_def [symmetric])

lemma same_db_get_route: "same_db db db' \<Longrightarrow> db_wf db \<Longrightarrow> get_route db = get_route db'"
  unfolding get_route_def same_db_def by (metis hm_get_mset db_wf_maps)

section \<open>Sample databases\<close>

text \<open>Concrete routes for the witnesses: 10.0.k.0/24, and a database that stores one per \<open>k\<close>.\<close>

definition sample_entry :: "u32 \<Rightarrow> u32 \<Rightarrow> u32 \<Rightarrow> RipEntry" where
  "sample_entry k nh m =
     \<lparr> routing_family_id = 2, route_tag = 0, ip_address = 167772160 + 256 * k,
       subnet_mask = 4294967040, next_hop = nh, metric = m \<rparr>"

fun sample_db :: "u32 list \<Rightarrow> RipDatabase" where
  "sample_db [] = RipDatabase_new"
| "sample_db (k # ks) = fst (add_remote_route (sample_entry k 3232235521 2) 3 ''eth0'' (sample_db ks))"

lemma sample_db_wf: "db_wf (sample_db ks)"
  by (induction ks) (simp_all add: db_wf_intros)

section \<open>Properties\<close>

text \<open>
  Adding a learned route to a database. A destination without an active route gets exactly the
  new route, marked as changed, to be in the kernel, with a fresh timeout; every other destination,
  the garbage included, is as before. A destination with an active route is refused and nothing
  changes.
\<close>

theorem add_remote_route_lookup:
  "case add_remote_route e ifx ifn db of
     (db', Inr r) \<Rightarrow>
       get_route db e = None \<and> get_route db' e = Some r
       \<and> rip_entry r = e \<and> if_index r = ifx \<and> if_name r = ifn \<and> changed r \<and> in_routing_table r
       \<and> \<not> is_local r \<and> timeout_cnt r = 0 \<and> garbage_started_at r = None \<and> any_route_changed db'
       \<and> (\<forall>e'. build_route_key e' = build_route_key e \<or> get_route db' e' = get_route db e')
       \<and> garbage_routes db' = garbage_routes db
   | (db', Inl err) \<Rightarrow> get_route db e \<noteq> None \<and> db' = db \<and> (\<exists>msg. err = InvalidConfiguration msg)"
  by (auto simp: add_remote_route_eq db_store_get_route any_route_changed_def)

text \<open>
  C23: withdrawing a route, on every branch. Without an active route it is an error and nothing
  changes. Otherwise the active route goes; it becomes a garbage route of metric 16 with its clock
  started, or, where the destination has a garbage route already, it is an error and the withdrawn
  route is in neither map. No other destination is affected.
\<close>

theorem move_route_to_garbage_lookup:
  "case (get_route db e, move_route_to_garbage e now db) of
     (None, db', res) \<Rightarrow> db' = db \<and> (\<exists>msg. res = Inl (InvalidConfiguration msg))
   | (Some r, db', res) \<Rightarrow>
       get_route db' e = None \<and> any_route_changed db'
       \<and> (\<forall>e'. build_route_key e' = build_route_key e
              \<or> get_route db' e' = get_route db e' \<and> garbage_route db' e' = garbage_route db e')
       \<and> (if has_garbage_route db e
          then garbage_route db' e = garbage_route db e \<and> (\<exists>msg. res = Inl (InvalidConfiguration msg))
          else \<exists>g. res = Inr g \<and> garbage_route db' e = Some g \<and> metric (rip_entry g) = 16
                   \<and> build_route_key (rip_entry g) = build_route_key (rip_entry r)
                   \<and> next_hop (rip_entry g) = next_hop (rip_entry r) \<and> if_index g = if_index r
                   \<and> changed g \<and> \<not> in_routing_table g \<and> garbage_started_at g = Some now)"
proof (cases "get_route db e")
  case None
  then show ?thesis by (simp add: move_to_garbage_missing)
next
  case (Some r)
  then show ?thesis
    by (cases "has_garbage_route db e")
       (auto simp: move_to_garbage_ok move_to_garbage_occupied to_garbage_def get_route_def garbage_route_def
          any_route_changed_def)
qed

text \<open>
  C24: the timeout counter. A learned route that is not refreshed is reported by check number
  \<open>n + 1\<close> exactly when the counter plus \<open>n + 1\<close> increments has come to the limit; the counter
  saturates, so it never wraps around to a route that seems young again.
\<close>

theorem timed_out_after_checks:
  assumes "db_wf db" and "get_route db e = Some r" and "\<not> is_local r"
  shows "(\<exists>r' \<in> set (snd (collect_timed_out_routes inc limit (checks_passed inc n db))).
            build_route_key (rip_entry r') = build_route_key e)
     \<longleftrightarrow> unat limit \<le> unat (timeout_cnt r) + Suc n * unat inc"
proof -
  have wf: "hm_wf (ok_routes (checks_passed inc n db))"
    using db_wf_maps [OF assms(1)] by (simp add: checks_passed_wf)
  have key: "build_route_key (rip_entry v) = k" if "hm_get (ok_routes db) k = Some v" for k v
    using db_wf_ok [OF assms(1) that] by (simp add: ok_entry_def)
  have r: "hm_get (ok_routes db) (build_route_key e) = Some r"
    using assms(2) by (simp add: get_route_def)
  have "(\<exists>r' \<in> set (snd (collect_timed_out_routes inc limit (checks_passed inc n db))).
            build_route_key (rip_entry r') = build_route_key e)
      \<longleftrightarrow> limit \<le> timeout_cnt ((age inc ^^ Suc n) r)"
    using r key assms(3)
    by (fastforce simp: collect_result [OF wf] checks_passed_ok age_iterate_fields)
  also have "\<dots> \<longleftrightarrow> unat limit \<le> unat (timeout_cnt r) + Suc n * unat inc"
  proof -
    have "unat limit < 2 ^ LENGTH(64)" by (rule unsigned_less)
    then show ?thesis
      using age_iterate_cnt [OF assms(3), of "Suc n" inc] by (auto simp: word_le_nat_alt)
  qed
  finally show ?thesis .
qed

text \<open>With the default interval of 15 and limit of 180 seconds, the twelfth check is the first.\<close>

theorem timed_out_after_checks_witness:
  "let db = sample_db [1, 2]; e = sample_entry 1 0 0
   in (\<exists>r' \<in> set (snd (collect_timed_out_routes 15 180 (checks_passed 15 11 db))).
         build_route_key (rip_entry r') = build_route_key e)
      \<and> \<not> (\<exists>r' \<in> set (snd (collect_timed_out_routes 15 180 (checks_passed 15 10 db))).
            build_route_key (rip_entry r') = build_route_key e)"
proof -
  let ?r = "new_db_entry (sample_entry 1 3232235521 2) 3 ''eth0'' False"
  have r: "get_route (sample_db [1, 2]) (sample_entry 1 0 0) = Some ?r" by code_simp
  show ?thesis
    using timed_out_after_checks [OF sample_db_wf r, of 15 180 11]
      timed_out_after_checks [OF sample_db_wf r, of 15 180 10]
    by (simp add: Let_def)
qed



text \<open>
  The early return of \<^verbatim>\<open>mark_all_routes_as_unchanged\<close> is only an optimisation: on a well-formed
  database it equals clearing every route's mark, so afterwards no route is marked.
\<close>

theorem mark_all_early_return:
  assumes "db_wf db"
  shows "mark_all_routes_as_unchanged db = mark_all_unconditionally db
    \<and> get_routes_for_advertisement (mark_all_routes_as_unchanged db) target True = []"
proof
  show "mark_all_routes_as_unchanged db = mark_all_unconditionally db"
    using assms by (rule mark_all_eq)
  have "set (get_routes_for_advertisement (mark_all_routes_as_unchanged db) target True) = {}"
    using all_routes_unchanged [OF assms] unfolding set_advertisement by auto
  then show "get_routes_for_advertisement (mark_all_routes_as_unchanged db) target True = []"
    by simp
qed

theorem mark_all_early_return_witness:
  "let db = sample_db [1, 2]
   in get_routes_for_advertisement db 9 True \<noteq> []
      \<and> get_routes_for_advertisement (mark_all_routes_as_unchanged db) 9 True = []"
proof -
  have "get_routes_for_advertisement (sample_db [1, 2]) 9 True \<noteq> []" by code_simp
  then show ?thesis
    using conjunct2 [OF mark_all_early_return [OF sample_db_wf, of "[1, 2]" 9]]
    by (simp only: Let_def simp_thms)
qed

text \<open>
  Before a shutdown every route is poisoned: the daemon then advertises, on each interface, the
  same destinations as before, all of them with metric 16, and all count as changed.
\<close>

theorem poisoned_advertisement:
  "map build_route_key (get_routes_for_advertisement (poison_all_routes db) target changed_only') =
     map build_route_key (get_routes_for_advertisement db target False)
   \<and> list_all (\<lambda>e. metric e = 16) (get_routes_for_advertisement (poison_all_routes db) target changed_only')"
proof -
  let ?routes = "filter (\<lambda>r. if_index r \<noteq> target) (hm_values (ok_routes db) @ hm_values (garbage_routes db))"
  have filtered: "filter (\<lambda>r. if changed_only' \<and> \<not> changed r then False else if_index r \<noteq> target) (map poison_route rs) =
      map poison_route (filter (\<lambda>r. if_index r \<noteq> target) rs)" for rs
    by (induction rs) (simp_all add: poison_route_def)
  have "get_routes_for_advertisement (poison_all_routes db) target changed_only' =
      map (\<lambda>r. (rip_entry r)\<lparr> next_hop := 0 \<rparr>) (map poison_route ?routes)"
  proof (cases "hm_is_empty (ok_routes db) \<and> hm_is_empty (garbage_routes db)")
    case True
    then have "hm_values (ok_routes db) = []" "hm_values (garbage_routes db) = []"
      by (simp_all add: hm_is_empty_def hm_values_def)
    then show ?thesis
      using True by (simp add: get_routes_for_advertisement_def poison_all_routes_def)
  next
    case False
    then have "hm_values (ok_routes (poison_all_routes db)) @ hm_values (garbage_routes (poison_all_routes db)) =
        map poison_route (hm_values (ok_routes db) @ hm_values (garbage_routes db))"
      by (auto simp: poison_all_routes_def)
    then show ?thesis
      by (simp only: get_routes_for_advertisement_def filtered)
  qed
  moreover have "get_routes_for_advertisement db target False =
      map (\<lambda>r. (rip_entry r)\<lparr> next_hop := 0 \<rparr>) ?routes"
    by (simp add: get_routes_for_advertisement_def)
  ultimately show ?thesis
    by (auto simp: poison_route_def list_all_iff)
qed

end
