(* ===== verification/Rip_Updater.thy ===== *)
theory Rip_Updater
  imports Rip_Os Rip_Database_Laws
begin

text \<open>
  \<^verbatim>\<open>src/src/rip_updater.rs\<close>: building the response datagrams from the database and sending them, and
  the whole-table request sent at start-up.
\<close>

section \<open>Response buffers\<close>

definition RIP_RESPONSE_MAX_ENTRIES :: nat where "RIP_RESPONSE_MAX_ENTRIES = 25"

text \<open>\<^verbatim>\<open>buffer[offset..offset + len].copy_from_slice(bytes)\<close>, inside the buffer.\<close>

definition copy_at :: "nat \<Rightarrow> 'a list \<Rightarrow> 'a list \<Rightarrow> 'a list" where
  "copy_at offset bytes buffer = take offset buffer @ bytes @ drop (offset + length bytes) buffer"

definition response_header :: RipHeader where
  "response_header = \<lparr> command = RIP_CMD_RESPONSE, version = RIP_2_VERSION, padding = 0 \<rparr>"

definition entry_offset :: "nat \<Rightarrow> nat" where
  "entry_offset index = RIP_HEADER_SIZE + index * RIP_ENTRY_SIZE"

fun write_entries :: "endian \<Rightarrow> nat \<Rightarrow> RipEntry list \<Rightarrow> u8 list \<Rightarrow> u8 list" where
  "write_entries en index [] buffer = buffer"
| "write_entries en index (e # es) buffer =
     write_entries en (Suc index) es
       (copy_at (entry_offset index) (as_bytes_RipEntry en (RipEntry_to_be en e)) buffer)"

definition build_response_buffer :: "endian \<Rightarrow> RipEntry list \<Rightarrow> u8 list" where
  "build_response_buffer en es =
     (let buffer = replicate (RIP_HEADER_SIZE + length es * RIP_ENTRY_SIZE) 0;
          buffer = copy_at 0 (as_bytes_RipHeader en response_header) buffer
      in write_entries en 0 es buffer)"

text \<open>\<^verbatim>\<open>slice::chunks\<close>; a chunk size of zero panics in Rust and is not used.\<close>

function chunks :: "nat \<Rightarrow> 'a list \<Rightarrow> 'a list list" where
  "chunks n xs = (if xs = [] \<or> n = 0 then [] else take n xs # chunks n (drop n xs))"
  by pat_completeness auto
termination
  by (relation "measure (\<lambda>(n, xs). length xs)") auto

declare chunks.simps [simp del]

definition build_response_buffers :: "endian \<Rightarrow> RipDatabase \<Rightarrow> u32 \<Rightarrow> bool \<Rightarrow> u8 list list" where
  "build_response_buffers en db target_if_index changed_only =
     map (build_response_buffer en)
       (chunks RIP_RESPONSE_MAX_ENTRIES (get_routes_for_advertisement db target_if_index changed_only))"

section \<open>Sending\<close>

definition request_header :: RipHeader where
  "request_header = \<lparr> command = RIP_CMD_REQUEST, version = RIP_2_VERSION, padding = 0 \<rparr>"

definition request_buffer :: "endian \<Rightarrow> u8 list" where
  "request_buffer en =
     (let buffer = replicate (RIP_HEADER_SIZE + RIP_ENTRY_SIZE) 0;
          buffer = copy_at 0 (as_bytes_RipHeader en request_header) buffer
      in copy_at RIP_HEADER_SIZE (as_bytes_RipEntry en (RipEntry_to_be en RIP_ENTRY_REQUEST)) buffer)"

definition rip_send_request_multicast :: "'n os \<Rightarrow> RipSocket \<Rightarrow> 'n \<Rightarrow> 'n \<times> (io_error + unit)" where
  "rip_send_request_multicast os sock n = send_multicast os sock (request_buffer (endianness os)) n"

definition create_unicast_tx_socket :: "'n os \<Rightarrow> string \<Rightarrow> 'n \<Rightarrow> 'n \<times> (io_error + nat)" where
  "create_unicast_tx_socket os name n =
     and_then (sys os n SocketNew) (\<lambda>s n.
     and_then (sys os n (BindDevice s name)) (\<lambda>_ n.
     and_then (sys os n (SetReusePort s True)) (\<lambda>_ n.
     and_then (sys os n (BindAddr s rip_any_addr)) (\<lambda>_ n.
     and_then (sys os n (SetNonblocking s True)) (\<lambda>_ n.
     sys os n (TokioFromStd s))))))"

definition send_unicast :: "'n os \<Rightarrow> fd \<Rightarrow> SocketAddrV4 \<Rightarrow> u8 list \<Rightarrow> 'n \<Rightarrow> 'n \<times> (io_error + unit)" where
  "send_unicast os s target buffer n =
     and_then (sys os n (SendTo s buffer target)) (\<lambda>sentn n.
     if sentn \<noteq> length buffer then (n, Inl (WriteZero ''failed to send full RIP response''))
     else (n, Inr ()))"

definition rip_send_response_unicast ::
  "'n os \<Rightarrow> RipDatabase \<Rightarrow> SocketAddrV4 \<Rightarrow> RipIfInfo \<Rightarrow> 'n \<Rightarrow> 'n \<times> (io_error + unit)" where
  "rip_send_response_unicast os db target target_if n =
     (let buffers = build_response_buffers (endianness os) db (info_if_index target_if) False
      in if buffers = [] then (n, Inr ())
         else and_then (create_unicast_tx_socket os (info_if_name target_if) n) (\<lambda>s n.
              for_each (send_unicast os s target) buffers n))"

definition advertise_on :: "'n os \<Rightarrow> RipDatabase \<Rightarrow> bool \<Rightarrow> RipIfc \<Rightarrow> 'n \<Rightarrow> 'n \<times> (io_error + unit)" where
  "advertise_on os db changed_only ifc n =
     (let buffers = build_response_buffers (endianness os) db (sock_if_index (ifc_tx ifc)) changed_only
      in if buffers = [] then (n, Inr ())
         else for_each (send_multicast os (ifc_tx ifc)) buffers n)"

definition rip_send_advertisement_multicast ::
  "'n os \<Rightarrow> RipDatabase \<Rightarrow> RipIfc list \<Rightarrow> bool \<Rightarrow> 'n \<Rightarrow> 'n \<times> (io_error + unit)" where
  "rip_send_advertisement_multicast os db interfaces changed_only n =
     for_each (advertise_on os db changed_only) interfaces n"

section \<open>The buffers are the wire format\<close>

lemma length_as_bytes:
  "length (as_bytes_RipHeader en h) = RIP_HEADER_SIZE"
  "length (as_bytes_RipEntry en e) = RIP_ENTRY_SIZE"
  by (cases en; simp add: as_bytes_RipHeader_def as_bytes_RipEntry_def ne_bytes16_def ne_bytes32_def
      rip_sizes)+

lemma copy_at_append: "length xs = length bytes \<Longrightarrow> copy_at (length pre) bytes (pre @ xs @ post) = pre @ bytes @ post"
  by (simp add: copy_at_def)

lemma write_entries_eq:
  assumes "length pre = entry_offset index" and "length rest = length es * RIP_ENTRY_SIZE"
  shows "write_entries en index es (pre @ rest) = pre @ concat (map entry_wire es)"
  using assms
proof (induction es arbitrary: index pre rest)
  case Nil
  then show ?case by simp
next
  case (Cons e es)
  obtain slot rest' where rest: "rest = slot @ rest'" "length slot = RIP_ENTRY_SIZE"
      "length rest' = length es * RIP_ENTRY_SIZE"
    using Cons.prems(2)
    by (intro that [of "take RIP_ENTRY_SIZE rest" "drop RIP_ENTRY_SIZE rest"]) (simp_all add: rip_sizes)
  have "copy_at (entry_offset index) (entry_wire e) (pre @ rest) = (pre @ entry_wire e) @ rest'"
    using copy_at_append [of slot "entry_wire e" pre rest'] rest Cons.prems(1)
    by (simp add: entry_codec.length_enc)
  moreover have "length (pre @ entry_wire e) = entry_offset (Suc index)"
    using Cons.prems(1) by (simp add: entry_codec.length_enc entry_offset_def)
  ultimately show ?case
    using Cons.IH [of "pre @ entry_wire e" "Suc index" rest'] rest
    by (simp add: as_bytes_entry_to_be)
qed

lemma build_response_buffer_eq:
  "build_response_buffer en es = packet_wire \<lparr> header = response_header, entries = es \<rparr>"
proof -
  let ?n = "length es * RIP_ENTRY_SIZE"
  have "as_bytes_RipHeader en response_header = header_wire response_header"
    by (rule as_bytes_header_zero) (simp add: response_header_def)
  then have "copy_at 0 (as_bytes_RipHeader en response_header) (replicate (RIP_HEADER_SIZE + ?n) 0) =
      header_wire response_header @ replicate ?n 0"
    by (simp add: copy_at_def header_codec.length_enc replicate_add)
  then show ?thesis
    by (simp add: build_response_buffer_def packet_wire_def Let_def write_entries_eq
        header_codec.length_enc entry_offset_def)
qed

text \<open>Every write of the loop is inside the buffer: no slice index of it panics.\<close>

lemma response_writes_in_range:
  assumes "index < length es"
  shows "entry_offset index + length (as_bytes_RipEntry en (RipEntry_to_be en (es ! index)))
    \<le> length (build_response_buffer en es)"
proof -
  have "RIP_ENTRY_SIZE * Suc index \<le> RIP_ENTRY_SIZE * length es"
    using assms by (intro mult_le_mono2) simp
  then show ?thesis
    by (simp add: build_response_buffer_eq length_packet_wire entry_offset_def length_as_bytes rip_sizes)
qed

lemma request_buffer_eq:
  "request_buffer en = packet_wire \<lparr> header = request_header, entries = [RIP_ENTRY_REQUEST] \<rparr>"
proof -
  have "as_bytes_RipHeader en request_header = header_wire request_header"
    by (rule as_bytes_header_zero) (simp add: request_header_def)
  then show ?thesis
    by (simp add: request_buffer_def packet_wire_def Let_def copy_at_def header_codec.length_enc
        entry_codec.length_enc as_bytes_entry_to_be rip_sizes)
qed

section \<open>Chunks\<close>

lemma concat_chunks: "0 < n \<Longrightarrow> concat (chunks n xs) = xs"
proof (induction n xs rule: chunks.induct)
  case (1 n xs)
  then show ?case by (subst chunks.simps) simp
qed

lemma chunks_size: "c \<in> set (chunks n xs) \<Longrightarrow> c \<noteq> [] \<and> length c \<le> n"
proof (induction n xs rule: chunks.induct)
  case (1 n xs)
  from "1.prems" have "\<not> (xs = [] \<or> n = 0)"
    by (subst (asm) chunks.simps) (simp split: if_splits)
  with 1 show ?case
    by (subst (asm) (2) chunks.simps) auto
qed

lemma chunks_nonempty: "0 < n \<Longrightarrow> chunks n xs = [] \<longleftrightarrow> xs = []"
  by (subst chunks.simps) simp

definition decoded_responses :: "bool \<Rightarrow> u8 list list \<Rightarrow> RipPacketData RipResult option list" where
  "decoded_responses checks = map (RipPacketData_from_slice checks)"

lemma buffers_decode:
  "decoded_responses checks (build_response_buffers en db target changed_only) =
     map (\<lambda>es. Some (Inr \<lparr> header = response_header, entries = es \<rparr>))
       (chunks RIP_RESPONSE_MAX_ENTRIES (get_routes_for_advertisement db target changed_only))"
  by (simp add: decoded_responses_def build_response_buffers_def build_response_buffer_eq
      from_slice_packet_wire)

section \<open>Database and world\<close>

text \<open>A world in which every call succeeds and every datagram is sent whole, recording the calls.\<close>

definition recording_sys :: "syscall list \<Rightarrow> syscall \<Rightarrow> syscall list \<times> (io_error + nat)" where
  "recording_sys calls c =
     (calls @ [c], Inr (case c of SendTo _ bytes _ \<Rightarrow> length bytes | _ \<Rightarrow> length calls))"

definition sends_whole :: "'n os \<Rightarrow> bool" where
  "sends_whole os \<longleftrightarrow> (\<forall>n s b t. \<exists>n'. sys os n (SendTo s b t) = (n', Inr (length b)))"

definition after_call :: "'n os \<Rightarrow> syscall \<Rightarrow> 'n \<Rightarrow> 'n" where
  "after_call os c n = fst (sys os n c)"

lemma send_multicast_whole:
  assumes "sends_whole os"
  shows "send_multicast os sock b n = (after_call os (SendTo (sock_fd sock) b rip_multicast_target) n, Inr ())"
proof -
  obtain n' where "sys os n (SendTo (sock_fd sock) b rip_multicast_target) = (n', Inr (length b))"
    using assms unfolding sends_whole_def by blast
  then show ?thesis by (simp add: send_multicast_def after_call_def)
qed

lemma for_each_ok:
  assumes "\<And>x n. x \<in> set xs \<Longrightarrow> f x n = (g x n, Inr ())"
  shows "for_each f xs n = (fold g xs n, Inr ())"
  using assms by (induction xs arbitrary: n) simp_all

definition advertisement_calls :: "endian \<Rightarrow> RipDatabase \<Rightarrow> bool \<Rightarrow> RipIfc list \<Rightarrow> syscall list" where
  "advertisement_calls en db changed_only interfaces =
     concat (map (\<lambda>ifc. map (\<lambda>b. SendTo (sock_fd (ifc_tx ifc)) b rip_multicast_target)
       (build_response_buffers en db (sock_if_index (ifc_tx ifc)) changed_only)) interfaces)"

lemma advertise_on_whole:
  assumes "sends_whole os"
  shows "advertise_on os db chg ifc n =
    (fold (after_call os)
       (map (\<lambda>b. SendTo (sock_fd (ifc_tx ifc)) b rip_multicast_target)
          (build_response_buffers (endianness os) db (sock_if_index (ifc_tx ifc)) chg)) n, Inr ())"
  by (auto simp: advertise_on_def Let_def fold_map comp_def
      for_each_ok [OF send_multicast_whole [OF assms]])

lemma advertisement_whole:
  assumes "sends_whole os"
  shows "rip_send_advertisement_multicast os db interfaces chg n =
    (fold (after_call os) (advertisement_calls (endianness os) db chg interfaces) n, Inr ())"
proof (induction interfaces arbitrary: n)
  case Nil
  then show ?case by (simp add: rip_send_advertisement_multicast_def advertisement_calls_def)
next
  case (Cons ifc interfaces)
  then show ?case
    by (simp add: rip_send_advertisement_multicast_def advertisement_calls_def
        advertise_on_whole [OF assms])
qed

section \<open>Properties\<close>

text \<open>
  C13: what a neighbour parses from the response datagrams is the advertisement: in order, nothing
  lost, in packets of at most 25 entries with a version 2 response header, whatever the byte order
  of the sender and the overflow checks of the receiver. No datagram exceeds 504 bytes, so none is
  cut by a receive buffer of 2048.
\<close>

theorem response_datagrams_round_trip:
  "\<exists>ess. map (RipPacketData_from_slice checks) (build_response_buffers en db target changed_only) =
           map (\<lambda>es. Some (Inr \<lparr> header = \<lparr> command = 2, version = 2, padding = 0 \<rparr>, entries = es \<rparr>)) ess
     \<and> concat ess = get_routes_for_advertisement db target changed_only
     \<and> list_all (\<lambda>es. es \<noteq> [] \<and> length es \<le> 25) ess
     \<and> list_all (\<lambda>b. length b \<le> 504) (build_response_buffers en db target changed_only)"
proof (intro exI conjI)
  let ?ess = "chunks RIP_RESPONSE_MAX_ENTRIES (get_routes_for_advertisement db target changed_only)"
  have size: "es \<noteq> [] \<and> length es \<le> 25" if "es \<in> set ?ess" for es
    using chunks_size [OF that] by (simp add: RIP_RESPONSE_MAX_ENTRIES_def)
  show "map (RipPacketData_from_slice checks) (build_response_buffers en db target changed_only) =
      map (\<lambda>es. Some (Inr \<lparr> header = \<lparr> command = 2, version = 2, padding = 0 \<rparr>, entries = es \<rparr>)) ?ess"
    using buffers_decode [of checks en db target changed_only]
    by (simp add: decoded_responses_def response_header_def rip_constants)
  show "concat ?ess = get_routes_for_advertisement db target changed_only"
    by (rule concat_chunks) (simp add: RIP_RESPONSE_MAX_ENTRIES_def)
  show "list_all (\<lambda>es. es \<noteq> [] \<and> length es \<le> 25) ?ess"
    using size by (simp add: list_all_iff)
  show "list_all (\<lambda>b. length b \<le> 504) (build_response_buffers en db target changed_only)"
    using size
    by (fastforce simp: list_all_iff build_response_buffers_def build_response_buffer_eq length_packet_wire
        rip_sizes)
qed

end
