(* ===== verification/Rip_Address.thy ===== *)
theory Rip_Address
  imports Rip_Text
begin

text \<open>
  \<^verbatim>\<open>src/src/address.rs\<close>: prefix lengths, netmasks and unicast addresses, on 32-bit words in host
  order. The bit counts are the standard library's \<^verbatim>\<open>trailing_zeros\<close>, \<^verbatim>\<open>leading_zeros\<close>,
  \<^verbatim>\<open>leading_ones\<close> and \<^verbatim>\<open>count_ones\<close>.
\<close>

section \<open>Bit counts\<close>

definition trailing_zeros :: "'a::len word \<Rightarrow> nat" where
  "trailing_zeros w = length (takeWhile (\<lambda>n. \<not> bit w n) [0..<LENGTH('a)])"

definition leading_zeros :: "'a::len word \<Rightarrow> nat" where
  "leading_zeros w = length (takeWhile (\<lambda>n. \<not> bit w n) (rev [0..<LENGTH('a)]))"

definition leading_ones :: "'a::len word \<Rightarrow> nat" where
  "leading_ones w = leading_zeros (not w)"

definition count_ones :: "'a::len word \<Rightarrow> nat" where
  "count_ones w = length (filter (bit w) [0..<LENGTH('a)])"

section \<open>The operations\<close>

definition prefix_to_mask :: "u32 \<Rightarrow> u32 RipResult" where
  "prefix_to_mask prefix =
     (if prefix > 32 then Inl (InvalidConfiguration (''invalid prefix: '' @ show_word prefix))
      else if prefix = 0 then Inr 0
      else Inr (push_bit (unat (32 - prefix)) (- 1)))"

definition is_unicast_address :: "u32 \<Rightarrow> bool" where
  "is_unicast_address address =
     (let msb = drop_bit 24 address
      in if msb = 0 then False
         else if msb = 127 then False
         else if msb \<ge> 224 then False
         else True)"

definition is_net_mask_valid :: "u32 \<Rightarrow> bool" where
  "is_net_mask_valid net_mask =
     (if net_mask = 0 \<or> net_mask = - 1 then False
      else trailing_zeros net_mask + leading_zeros (not net_mask) = 32)"

section \<open>Runs of equal bits\<close>

lemma trailing_zeros_low:
  assumes "i < trailing_zeros w"
  shows "\<not> bit w i"
proof -
  let ?P = "\<lambda>n. \<not> bit w n" and ?xs = "[0..<LENGTH('a)]"
  have "takeWhile ?P ?xs ! i \<in> set (takeWhile ?P ?xs)"
    using assms by (simp add: trailing_zeros_def)
  moreover have "takeWhile ?P ?xs ! i = i"
    using assms length_takeWhile_le [of ?P ?xs]
    by (simp add: trailing_zeros_def takeWhile_nth)
  ultimately show ?thesis by (auto dest: set_takeWhileD)
qed

lemma leading_zeros_high:
  fixes w :: "'a::len word"
  assumes "LENGTH('a) - leading_zeros w \<le> i"
  shows "\<not> bit w i"
proof (cases "i < LENGTH('a)")
  case True
  let ?P = "\<lambda>n. \<not> bit w n" and ?xs = "rev [0..<LENGTH('a)]"
  let ?j = "LENGTH('a) - Suc i"
  have j: "?j < length (takeWhile ?P ?xs)"
    using assms True by (simp add: leading_zeros_def)
  then have "takeWhile ?P ?xs ! ?j \<in> set (takeWhile ?P ?xs)" by simp
  moreover have "takeWhile ?P ?xs ! ?j = i"
    using j True by (simp add: takeWhile_nth rev_nth)
  ultimately show ?thesis by (auto dest: set_takeWhileD)
next
  case False
  then show ?thesis by (simp add: bit_eq_iff not_le impossible_bit)
qed

lemma trailing_zeros_eqI:
  fixes w :: "'a::len word"
  assumes "\<And>i. i < k \<Longrightarrow> \<not> bit w i" and "bit w k"
  shows "trailing_zeros w = k"
proof -
  have "k < LENGTH('a)" using assms(2) by (rule bit_imp_le_length)
  then have "[0..<LENGTH('a)] = [0..<k] @ k # [Suc k..<LENGTH('a)]"
    by (metis le0 less_imp_le_nat upt_add_eq_append upt_conv_Cons le_add_diff_inverse)
  moreover have "takeWhile (\<lambda>n. \<not> bit w n) ([0..<k] @ k # r) = [0..<k]" for r
    using assms by (subst takeWhile_append2) auto
  ultimately show ?thesis by (simp add: trailing_zeros_def)
qed

lemma leading_zeros_eqI:
  fixes w :: "'a::len word"
  assumes "\<And>i. k < i \<Longrightarrow> \<not> bit w i" and "bit w k"
  shows "leading_zeros w = LENGTH('a) - Suc k"
proof -
  have "k < LENGTH('a)" using assms(2) by (rule bit_imp_le_length)
  then have "[0..<LENGTH('a)] = [0..<k] @ k # [Suc k..<LENGTH('a)]"
    by (metis le0 less_imp_le_nat upt_add_eq_append upt_conv_Cons le_add_diff_inverse)
  moreover have "takeWhile (\<lambda>n. \<not> bit w n) (rev [Suc k..<LENGTH('a)] @ k # r) =
      rev [Suc k..<LENGTH('a)]" for r
    using assms by (subst takeWhile_append2) auto
  ultimately show ?thesis by (simp add: leading_zeros_def)
qed

section \<open>Masks\<close>

text \<open>The mask of a prefix length, as a function of the length alone.\<close>

definition mask_of :: "nat \<Rightarrow> u32" where
  "mask_of p = push_bit (32 - p) (- 1)"

lemma bit_mask_of: "p \<le> 32 \<Longrightarrow> bit (mask_of p) i \<longleftrightarrow> 32 - p \<le> i \<and> i < 32"
  by (auto simp: mask_of_def bit_simps)

lemma mask_of_0 [simp]: "mask_of 0 = 0"
  by (rule bit_word_eqI) (simp add: bit_mask_of)

lemma mask_of_32 [simp]: "mask_of 32 = - 1"
  by (simp add: mask_of_def)

lemma prefix_to_mask_eq:
  assumes "p \<le> 32"
  shows "prefix_to_mask p = Inr (mask_of (unat p))"
proof -
  have "unat p \<le> 32" using assms by (simp add: word_le_nat_alt)
  moreover have "unat (32 - p) = 32 - unat p"
    using assms by (simp add: unat_sub)
  moreover have "push_bit 32 (- 1 :: u32) = 0"
    by (rule bit_word_eqI) (simp add: bit_simps)
  ultimately show ?thesis
    using assms by (auto simp: prefix_to_mask_def mask_of_def)
qed

lemma prefix_to_mask_error: "p > 32 \<Longrightarrow> \<exists>msg. prefix_to_mask p = Inl (InvalidConfiguration msg)"
  by (simp add: prefix_to_mask_def)

lemma leading_ones_mask_of:
  assumes "p \<le> 32"
  shows "leading_ones (mask_of p) = p"
proof (cases "p = 32")
  case True
  then show ?thesis
    by (simp add: leading_ones_def leading_zeros_def mask_of_def takeWhile_eq_all_conv [THEN iffD2])
next
  case False
  have "leading_zeros (not (mask_of p)) = LENGTH(32) - Suc (31 - p)"
    by (rule leading_zeros_eqI) (use assms False in \<open>auto simp: bit_not_iff bit_mask_of\<close>)
  then show ?thesis using assms False by (simp add: leading_ones_def)
qed

lemma trailing_zeros_mask_of:
  assumes "0 < p" "p \<le> 32"
  shows "trailing_zeros (mask_of p) = 32 - p"
  by (rule trailing_zeros_eqI) (use assms in \<open>auto simp: bit_mask_of\<close>)

lemma mask_of_inj: "p \<le> 32 \<Longrightarrow> q \<le> 32 \<Longrightarrow> mask_of p = mask_of q \<Longrightarrow> p = q"
  by (metis leading_ones_mask_of)

lemma is_net_mask_valid_mask_of:
  assumes "0 < p" "p < 32"
  shows "is_net_mask_valid (mask_of p)"
proof -
  have "bit (mask_of p) 31" "\<not> bit (mask_of p) 0"
    using assms by (simp_all add: bit_mask_of)
  then have "mask_of p \<noteq> 0" "mask_of p \<noteq> - 1" by auto
  then show ?thesis
    using assms trailing_zeros_mask_of [of p] leading_ones_mask_of [of p]
    by (simp add: is_net_mask_valid_def leading_ones_def)
qed

lemma is_net_mask_validD:
  assumes "is_net_mask_valid m"
  shows "\<exists>p. 0 < p \<and> p < 32 \<and> m = mask_of p"
proof -
  let ?p = "leading_ones m"
  have m: "m \<noteq> 0" "m \<noteq> - 1" and sum: "trailing_zeros m + ?p = 32"
    using assms by (auto simp: is_net_mask_valid_def leading_ones_def split: if_splits)
  have le: "?p \<le> 32" using sum by simp
  have "m = mask_of ?p"
  proof (rule bit_word_eqI)
    fix i assume "i < LENGTH(32)"
    then show "bit m i = bit (mask_of ?p) i"
      using trailing_zeros_low [of i m] leading_zeros_high [of "not m" i] sum le
      by (cases "i < trailing_zeros m") (auto simp: bit_mask_of bit_not_iff leading_ones_def)
  qed
  moreover from this m have "?p \<noteq> 0" "?p \<noteq> 32"
    by (metis mask_of_0) (metis m(2) \<open>m = mask_of ?p\<close> mask_of_32)
  ultimately show ?thesis using le by (metis le_neq_implies_less neq0_conv)
qed

lemma is_net_mask_valid_iff:
  "is_net_mask_valid m \<longleftrightarrow> (\<exists>p. 0 < p \<and> p < 32 \<and> m = mask_of p)"
  using is_net_mask_validD is_net_mask_valid_mask_of by blast

lemma leading_ones_inj:
  assumes "is_net_mask_valid m" "is_net_mask_valid m'" "leading_ones m = leading_ones m'"
  shows "m = m'"
  using assms by (metis is_net_mask_validD leading_ones_mask_of less_imp_le_nat)

lemma leading_ones_le: "leading_ones w \<le> LENGTH('a)" for w :: "'a::len word"
  unfolding leading_ones_def leading_zeros_def
  by (metis length_rev length_takeWhile_le length_upt diff_zero)

lemma is_unicast_address_iff:
  "is_unicast_address a \<longleftrightarrow> (let o1 = unat a div 2 ^ 24 in o1 \<noteq> 0 \<and> o1 \<noteq> 127 \<and> o1 < 224)"
proof -
  have u: "unat (drop_bit 24 a) = unat a div 2 ^ 24"
    by (simp add: drop_bit_eq_div unat_div)
  show ?thesis
    unfolding is_unicast_address_def Let_def u [symmetric]
    by (auto simp: word_le_nat_alt unat_eq_zero simp flip: unat_eq_zero)
       (auto simp: word_unat_eq_iff not_le)
qed

lemma count_ones_mask_of:
  assumes "p \<le> 32"
  shows "count_ones (mask_of p) = p"
proof -
  have split: "[0..<32] = [0..<32 - p] @ [32 - p..<32]"
    using upt_add_eq_append [of 0 "32 - p" p] assms by simp
  have "filter (bit (mask_of p)) [0..<32 - p] = []" "filter (bit (mask_of p)) [32 - p..<32] = [32 - p..<32]"
    using assms by (auto simp: filter_empty_conv filter_id_conv bit_mask_of)
  then have "filter (bit (mask_of p)) [0..<LENGTH(32)] = [32 - p..<32]"
    by (simp add: split)
  then show ?thesis
    using assms by (simp only: count_ones_def) simp
qed

section \<open>Properties\<close>

text \<open>
  The netmask check of a received entry accepts exactly the masks of the prefix lengths 1 to 31:
  contiguous masks, without the default route and without host routes.
\<close>

theorem netmask_valid_iff_prefix:
  "is_net_mask_valid m \<longleftrightarrow> (\<exists>p. 1 \<le> p \<and> p \<le> 31 \<and> prefix_to_mask p = Inr m)"
proof
  assume "is_net_mask_valid m"
  then obtain q where q: "0 < q" "q < 32" "m = mask_of q" using is_net_mask_validD by blast
  then have u: "unat (of_nat q :: u32) = q" by (simp add: unat_of_nat)
  then have "1 \<le> (of_nat q :: u32)" "(of_nat q :: u32) \<le> 31"
    using q by (simp_all add: word_le_nat_alt)
  moreover have "(of_nat q :: u32) \<le> 32" using u q by (simp add: word_le_nat_alt)
  then have "prefix_to_mask (of_nat q) = Inr m"
    using prefix_to_mask_eq [of "of_nat q"] u q(3) by simp
  ultimately show "\<exists>p. 1 \<le> p \<and> p \<le> 31 \<and> prefix_to_mask p = Inr m" by blast
next
  assume "\<exists>p. 1 \<le> p \<and> p \<le> 31 \<and> prefix_to_mask p = Inr m"
  then obtain p where p: "1 \<le> p" "p \<le> 31" "prefix_to_mask p = Inr m" by blast
  then have "0 < unat p" "unat p < 32" "p \<le> 32"
    by (simp_all add: word_le_nat_alt)
  then show "is_net_mask_valid m"
    using is_net_mask_valid_mask_of [of "unat p"] prefix_to_mask_eq [of p] p(3) by simp
qed

text \<open>
  A prefix length above 32 is refused; any other gives a mask from which the same length is read
  back, both by \<^verbatim>\<open>leading_ones\<close> (the kernel's prefix) and by \<^verbatim>\<open>count_ones\<close> (the HTTP listing).
\<close>

theorem prefix_mask_round_trip:
  "case prefix_to_mask p of
     Inl e \<Rightarrow> 32 < p
   | Inr m \<Rightarrow> p \<le> 32 \<and> leading_ones m = unat p \<and> count_ones m = unat p"
proof (cases "p \<le> 32")
  case True
  then have "unat p \<le> 32" by (simp add: word_le_nat_alt)
  with True show ?thesis
    by (simp add: prefix_to_mask_eq leading_ones_mask_of count_ones_mask_of)
next
  case False
  then have "32 < p" by simp
  then show ?thesis by (simp add: prefix_to_mask_def)
qed

text \<open>
  An address is a unicast destination exactly when its first octet is neither 0 nor 127 and is
  below 224.
\<close>

lemma unicast_by_first_octet:
  "is_unicast_address a \<longleftrightarrow> unat a div 2 ^ 24 \<noteq> 0 \<and> unat a div 2 ^ 24 \<noteq> 127 \<and> unat a div 2 ^ 24 < 224"
  using is_unicast_address_iff [of a] by (simp add: Let_def)

end
