(* ===== verification/Rip_Route.thy ===== *)
theory Rip_Route
  imports Rip_Os Rip_Address
begin

text \<open>
  \<^verbatim>\<open>src/src/cfg.rs\<close> and \<^verbatim>\<open>rip_route.rs\<close>: the configuration, and the local route of an advertised
  network. The YAML parser \<^verbatim>\<open>serde_saphyr\<close> and the file system are parameters.
\<close>

section \<open>Configuration\<close>

record RipInterface =
  rif_dev :: string

record AdvertisedNetwork =
  net_address :: string
  net_prefix :: u32
  net_dev :: string

record RipConfiguration =
  cfg_version :: u32
  rip_interfaces :: "RipInterface list"
  advertised_networks :: "AdvertisedNetwork list"

record Cfg =
  rip_configuration :: RipConfiguration

definition RipConfiguration_parse :: "(string \<Rightarrow> string + Cfg) \<Rightarrow> string \<Rightarrow> RipConfiguration RipResult" where
  "RipConfiguration_parse yaml_from_str content =
     (case yaml_from_str content of
        Inl err \<Rightarrow> Inl (InvalidConfiguration err)
      | Inr config \<Rightarrow> Inr (rip_configuration config))"

definition RipConfiguration_read_and_parse ::
  "(string \<Rightarrow> string + Cfg) \<Rightarrow> (string \<Rightarrow> io_error + string) \<Rightarrow> string \<Rightarrow> RipConfiguration RipResult" where
  "RipConfiguration_read_and_parse yaml_from_str read_to_string path =
     (case read_to_string path of
        Inl err \<Rightarrow> Inl (InvalidConfiguration (io_error_text err @ '': '' @ path))
      | Inr contents \<Rightarrow> RipConfiguration_parse yaml_from_str contents)"

section \<open>Local routes\<close>

definition AF_INET :: u16 where "AF_INET = 2"

record LocalRoute =
  lr_entry :: RipEntry
  lr_if_index :: u32
  lr_if_name :: string

definition local_route_entry :: "u32 \<Rightarrow> u32 \<Rightarrow> RipEntry" where
  "local_route_entry ip netmask =
     \<lparr> routing_family_id = AF_INET, route_tag = 0, ip_address = ip, subnet_mask = netmask,
       next_hop = 0, metric = 1 \<rparr>"

definition advertised_network_to_local_route ::
  "'n os \<Rightarrow> AdvertisedNetwork \<Rightarrow> 'n \<Rightarrow> 'n \<times> LocalRoute RipResult" where
  "advertised_network_to_local_route os network n =
     and_then
       (map_err (\<lambda>err. InvalidConfiguration
                   (''invalid dev: '' @ net_dev network @ '': '' @ io_error_text err))
          (ifc_nametoindex os (net_dev network) n)) (\<lambda>index n.
     and_then (n, prefix_to_mask (net_prefix network)) (\<lambda>netmask n.
     case ipv4_from_str (net_address network) of
       None \<Rightarrow> (n, Inl (InvalidConfiguration
                 (''invalid address: '' @ net_address network @ '': '' @ ipv4_parse_error)))
     | Some ip \<Rightarrow>
         (n, Inr \<lparr> lr_entry = local_route_entry (and ip netmask) netmask,
                  lr_if_index = index, lr_if_name = net_dev network \<rparr>)))"

lemma local_route_shape:
  assumes "snd (advertised_network_to_local_route os network n) = Inr lr"
  shows "\<exists>ip p. lr_entry lr = local_route_entry (and ip (mask_of p)) (mask_of p) \<and> p \<le> 32
    \<and> p = unat (net_prefix network) \<and> ipv4_from_str (net_address network) = Some ip
    \<and> lr_if_name lr = net_dev network \<and> lr_if_index lr \<noteq> 0"
proof -
  let ?index = "ifc_nametoindex os (net_dev network) n"
  from assms obtain index netmask ip where
      ix: "snd ?index = Inr index" and netmask: "prefix_to_mask (net_prefix network) = Inr netmask"
      and ip: "ipv4_from_str (net_address network) = Some ip"
      and lr: "lr = \<lparr> lr_entry = local_route_entry (and ip netmask) netmask, lr_if_index = index,
                      lr_if_name = net_dev network \<rparr>"
    by (cases ?index; cases "snd ?index")
       (auto simp: advertised_network_to_local_route_def and_then_def split: sum.splits option.splits)
  from netmask have "net_prefix network \<le> 32"
    using prefix_to_mask_error [of "net_prefix network"] by (cases "net_prefix network > 32") auto
  then have "netmask = mask_of (unat (net_prefix network))" "unat (net_prefix network) \<le> 32"
    using netmask prefix_to_mask_eq by (auto simp: word_le_nat_alt)
  with ip lr show ?thesis
    using ifc_nametoindex_nonzero [OF ix] by auto
qed

section \<open>Properties\<close>

text \<open>
  The local route of an advertised network. It is built exactly when the interface is known, the
  prefix is at most 32 and the address parses; its entry is the network address under the mask of
  the prefix, with metric 1 and no next hop, on the interface the kernel named.
\<close>

lemma local_route_of_network:
  "(\<exists>lr. snd (advertised_network_to_local_route os network n) = Inr lr
      \<and> lr_entry lr =
          \<lparr> routing_family_id = 2, route_tag = 0, ip_address = and ip netmask, subnet_mask = netmask,
            next_hop = 0, metric = 1 \<rparr>
      \<and> lr_if_index lr = index \<and> lr_if_name lr = net_dev network)
   \<longleftrightarrow> snd (ifc_nametoindex os (net_dev network) n) = Inr index
       \<and> prefix_to_mask (net_prefix network) = Inr netmask
       \<and> (\<exists>ip'. ipv4_from_str (net_address network) = Some ip' \<and> and ip' netmask = and ip netmask)"
  by (cases "ifc_nametoindex os (net_dev network) n"; cases "snd (ifc_nametoindex os (net_dev network) n)";
      cases "prefix_to_mask (net_prefix network)"; cases "ipv4_from_str (net_address network)")
     (auto simp: advertised_network_to_local_route_def local_route_entry_def AF_INET_def)

text \<open>
  An address the daemon prints is an address it reads: a network configured with the printed form
  of \<open>ip\<close> gets the local route of \<open>ip\<close> itself, for every prefix length up to 32 and every interface
  the kernel knows, and no other outcome.
\<close>

theorem printed_network_round_trip:
  assumes "snd (ifc_nametoindex os dev n) = Inr index" and "p \<le> 32"
  shows "snd (advertised_network_to_local_route os
            \<lparr> net_address = ipv4_to_string ip, net_prefix = p, net_dev = dev \<rparr> n) =
    Inr \<lparr> lr_entry =
            \<lparr> routing_family_id = 2, route_tag = 0, ip_address = and ip (mask_of (unat p)),
              subnet_mask = mask_of (unat p), next_hop = 0, metric = 1 \<rparr>,
          lr_if_index = index, lr_if_name = dev \<rparr>"
  using assms
  by (cases "ifc_nametoindex os dev n")
     (simp add: advertised_network_to_local_route_def prefix_to_mask_eq ipv4_round_trip
        local_route_entry_def AF_INET_def)

definition quiet_os :: "unit os" where
  "quiet_os =
     \<lparr> sys = (\<lambda>n c. (n, Inr (case c of SendTo _ bytes _ \<Rightarrow> length bytes | _ \<Rightarrow> 3))),
       if_nametoindex = (\<lambda>n name. (n, if take 4 name = ''eth0'' then 7 else if take 4 name = ''eth1'' then 8 else 0)),
       last_os_error = (\<lambda>_. OsError ''No such device (os error 19)''),
       instant_now = (\<lambda>n. (n, 5000000000)), unix_subsec_nanos = (\<lambda>n. (n, Some 123456)),
       env_var = (\<lambda>_. None), endianness = Little \<rparr>"

theorem printed_network_round_trip_witness:
  "snd (advertised_network_to_local_route quiet_os
          \<lparr> net_address = ipv4_to_string 3232236030, net_prefix = 24, net_dev = ''eth0'' \<rparr> ()) =
    Inr \<lparr> lr_entry =
            \<lparr> routing_family_id = 2, route_tag = 0, ip_address = 3232235776, subnet_mask = 4294967040,
              next_hop = 0, metric = 1 \<rparr>,
          lr_if_index = 7, lr_if_name = ''eth0'' \<rparr>"
proof -
  have "snd (ifc_nametoindex quiet_os ''eth0'' ()) = Inr 7"
    using ifc_buffer [of "''eth0''"]
    by (simp add: ifc_nametoindex_def IFNAMSIZ_def Let_def quiet_os_def)
  moreover have "and 3232236030 (mask_of (unat (24 :: u32))) = 3232235776"
    "mask_of (unat (24 :: u32)) = 4294967040"
    by (simp_all add: mask_of_def mask_eq_exp_minus_1)
  ultimately show ?thesis
    using printed_network_round_trip [of quiet_os "''eth0''" "()" 7 24 3232236030] by simp
qed

end
