(* ===== verification/Rip_Routing_Table.thy ===== *)
theory Rip_Routing_Table
  imports Rip_Database_Laws Rip_Address
begin

text \<open>
  \<^verbatim>\<open>src/src/routing_table.rs\<close>, its netlink driver \<^verbatim>\<open>routing_table_rtnetlink.rs\<close> and the test driver
  \<^verbatim>\<open>routing_table_stub.rs\<close>. The trait \<^verbatim>\<open>RoutingTableDriver\<close> is a record of its two methods over the
  driver's state. The \<^verbatim>\<open>rtnetlink\<close> crate and the kernel behind it are a parameter: a function that
  executes an add or a delete of a route message.

  Two locales state what is relied on: \<open>route_kernel\<close> what the kernel documents, \<open>fib_driver\<close>
  what the daemon needs of a driver; the netlink driver turns the first into the second.
\<close>

section \<open>The trait and its wrapper\<close>

record 'd RoutingTableDriver =
  drv_add_route :: "'d \<Rightarrow> RipDbEntry \<Rightarrow> 'd \<times> unit RipResult"
  drv_delete_route :: "'d \<Rightarrow> RipDbEntry \<Rightarrow> 'd \<times> unit RipResult"

record 'd RoutingTable =
  driver :: 'd

definition RoutingTable_with_driver :: "'d \<Rightarrow> 'd RoutingTable" where
  "RoutingTable_with_driver d = \<lparr> driver = d \<rparr>"

definition RoutingTable_add_route ::
  "'d RoutingTableDriver \<Rightarrow> RipDbEntry \<Rightarrow> 'd RoutingTable \<Rightarrow> 'd RoutingTable \<times> unit RipResult" where
  "RoutingTable_add_route drv r rt =
     (case drv_add_route drv (driver rt) r of (d, res) \<Rightarrow> (rt\<lparr> driver := d \<rparr>, res))"

definition RoutingTable_delete_route ::
  "'d RoutingTableDriver \<Rightarrow> RipDbEntry \<Rightarrow> 'd RoutingTable \<Rightarrow> 'd RoutingTable \<times> unit RipResult" where
  "RoutingTable_delete_route drv r rt =
     (case drv_delete_route drv (driver rt) r of (d, res) \<Rightarrow> (rt\<lparr> driver := d \<rparr>, res))"

section \<open>The test driver\<close>

record StubRoutingTableDriver =
  added_routes :: "RipDbEntry list"
  deleted_routes :: "RipDbEntry list"

definition StubRoutingTableDriver_new :: StubRoutingTableDriver where
  "StubRoutingTableDriver_new = \<lparr> added_routes = [], deleted_routes = [] \<rparr>"

definition stub_driver :: "StubRoutingTableDriver RoutingTableDriver" where
  "stub_driver =
     \<lparr> drv_add_route = (\<lambda>d r. (d\<lparr> added_routes := added_routes d @ [r] \<rparr>, Inr ())),
       drv_delete_route = (\<lambda>d r. (d\<lparr> deleted_routes := deleted_routes d @ [r] \<rparr>, Inr ())) \<rparr>"

section \<open>Route messages\<close>

definition RIP_ROUTE_PRIORITY_BASE :: u32 where "RIP_ROUTE_PRIORITY_BASE = 20"

datatype RouteProtocol = Rip

text \<open>The arguments handed to \<^verbatim>\<open>RouteMessageBuilder\<close>.\<close>

record RouteMessage =
  msg_destination :: u32
  msg_prefix_len :: u8
  msg_gateway :: u32
  msg_output_interface :: u32
  msg_priority :: u32
  msg_protocol :: RouteProtocol

definition build_route_message :: "RipDbEntry \<Rightarrow> RouteMessage" where
  "build_route_message r =
     (let e = rip_entry r
      in \<lparr> msg_destination = ip_address e, msg_prefix_len = of_nat (leading_ones (subnet_mask e)),
           msg_gateway = next_hop e, msg_output_interface = if_index r,
           msg_priority = RIP_ROUTE_PRIORITY_BASE + metric e, msg_protocol = Rip \<rparr>)"

section \<open>The netlink driver\<close>

text \<open>
  An error of the crate: the kernel's own answer with its signed 32-bit code, or anything else;
  each with the text it displays as.
\<close>

datatype RtNetlinkError = NetlinkError "32 word" string | OtherNetlinkError string

fun nl_error_text :: "RtNetlinkError \<Rightarrow> string" where
  "nl_error_text (NetlinkError _ t) = t"
| "nl_error_text (OtherNetlinkError t) = t"

definition EEXIST :: "32 word" where "EEXIST = 17"
definition ENOENT :: "32 word" where "ENOENT = 2"
definition ESRCH :: "32 word" where "ESRCH = 3"

definition i32_abs :: "32 word \<Rightarrow> 32 word" where
  "i32_abs w = (if sint w < 0 then - w else w)"

fun is_netlink_errno :: "RtNetlinkError \<Rightarrow> 32 word list \<Rightarrow> bool" where
  "is_netlink_errno (NetlinkError code _) errnos = (i32_abs code \<in> set errnos)"
| "is_netlink_errno (OtherNetlinkError _) errnos = False"

text \<open>Opening the connection; the driver's state is the kernel at its other end.\<close>

definition RtNetlinkRoutingTableDriver_new :: "string + 'k \<Rightarrow> 'k RipResult" where
  "RtNetlinkRoutingTableDriver_new new_connection =
     (case new_connection of
        Inl err \<Rightarrow> Inl (IoError (''failed to create rtnetlink connection: '' @ err))
      | Inr k \<Rightarrow> Inr k)"

definition rtnetlink_add_route ::
  "('k \<Rightarrow> RouteMessage \<Rightarrow> 'k \<times> (RtNetlinkError + unit)) \<Rightarrow> 'k \<Rightarrow> RipDbEntry \<Rightarrow> 'k \<times> unit RipResult" where
  "rtnetlink_add_route exec_add k r =
     (case exec_add k (build_route_message r) of
        (k', Inr u) \<Rightarrow> (k', Inr u)
      | (k', Inl err) \<Rightarrow>
          if is_netlink_errno err [EEXIST] then (k', Inr ())
          else (k', Inl (IoError (''failed to add route: '' @ nl_error_text err))))"

definition rtnetlink_delete_route ::
  "('k \<Rightarrow> RouteMessage \<Rightarrow> 'k \<times> (RtNetlinkError + unit)) \<Rightarrow> 'k \<Rightarrow> RipDbEntry \<Rightarrow> 'k \<times> unit RipResult" where
  "rtnetlink_delete_route exec_del k r =
     (case exec_del k (build_route_message r) of
        (k', Inr u) \<Rightarrow> (k', Inr u)
      | (k', Inl err) \<Rightarrow>
          if is_netlink_errno err [ENOENT, ESRCH] then (k', Inr ())
          else (k', Inl (IoError (''failed to delete route: '' @ nl_error_text err))))"

definition rtnetlink_driver ::
  "('k \<Rightarrow> RouteMessage \<Rightarrow> 'k \<times> (RtNetlinkError + unit))
    \<Rightarrow> ('k \<Rightarrow> RouteMessage \<Rightarrow> 'k \<times> (RtNetlinkError + unit)) \<Rightarrow> 'k RoutingTableDriver" where
  "rtnetlink_driver exec_add exec_del =
     \<lparr> drv_add_route = rtnetlink_add_route exec_add,
       drv_delete_route = rtnetlink_delete_route exec_del \<rparr>"

section \<open>What is relied on\<close>

text \<open>
  Two messages compete for the same kernel route when they agree on destination, prefix length and
  priority: the kernel refuses to add the second one with \<^verbatim>\<open>EEXIST\<close>.
\<close>

definition same_slot :: "RouteMessage \<Rightarrow> RouteMessage \<Rightarrow> bool" where
  "same_slot m m' \<longleftrightarrow>
     msg_destination m = msg_destination m' \<and> msg_prefix_len m = msg_prefix_len m'
     \<and> msg_priority m = msg_priority m'"

locale fib_driver =
  fixes drv :: "'d RoutingTableDriver" and fib :: "'d \<Rightarrow> RouteMessage set"
  assumes add_ok: "drv_add_route drv d r = (d', Inr ()) \<Longrightarrow>
      fib d' = insert (build_route_message r) (fib d)
      \<or> fib d' = fib d \<and> (\<exists>m \<in> fib d. same_slot m (build_route_message r))"
    and add_err: "drv_add_route drv d r = (d', Inl e) \<Longrightarrow> fib d' = fib d"
    and delete_ok: "drv_delete_route drv d r = (d', Inr ()) \<Longrightarrow>
      fib d' = fib d - {build_route_message r}"
    and delete_err: "drv_delete_route drv d r = (d', Inl e) \<Longrightarrow> fib d' = fib d"
begin

lemma add_free_slot:
  assumes "drv_add_route drv d r = (d', Inr ())"
    and "\<forall>m \<in> fib d. \<not> same_slot m (build_route_message r)"
  shows "fib d' = insert (build_route_message r) (fib d)"
  using add_ok [OF assms(1)] assms(2) by blast

lemma table_add_ok:
  assumes "RoutingTable_add_route drv r rt = (rt', Inr ())"
    and "\<forall>m \<in> fib (driver rt). \<not> same_slot m (build_route_message r)"
  shows "fib (driver rt') = insert (build_route_message r) (fib (driver rt))"
  using assms add_free_slot by (auto simp: RoutingTable_add_route_def split: prod.splits)

lemma table_add_err:
  "RoutingTable_add_route drv r rt = (rt', Inl e) \<Longrightarrow> fib (driver rt') = fib (driver rt)"
  using add_err by (auto simp: RoutingTable_add_route_def split: prod.splits)

lemma table_delete_ok:
  "RoutingTable_delete_route drv r rt = (rt', Inr ()) \<Longrightarrow>
     fib (driver rt') = fib (driver rt) - {build_route_message r}"
  using delete_ok by (auto simp: RoutingTable_delete_route_def split: prod.splits)

lemma table_delete_err:
  "RoutingTable_delete_route drv r rt = (rt', Inl e) \<Longrightarrow> fib (driver rt') = fib (driver rt)"
  using delete_err by (auto simp: RoutingTable_delete_route_def split: prod.splits)

end

text \<open>
  The kernel, as documented: an add succeeds and installs the route, or answers \<^verbatim>\<open>EEXIST\<close> because
  the slot is taken by a route of this table, or fails otherwise and changes nothing; a delete
  removes the route, or answers \<^verbatim>\<open>ESRCH\<close> or \<^verbatim>\<open>ENOENT\<close> because there is none, or fails otherwise.
\<close>

locale route_kernel =
  fixes exec_add exec_del :: "'k \<Rightarrow> RouteMessage \<Rightarrow> 'k \<times> (RtNetlinkError + unit)"
    and fib :: "'k \<Rightarrow> RouteMessage set"
  assumes kernel_add: "exec_add k m = (k', Inr ()) \<Longrightarrow> fib k' = insert m (fib k)"
    and kernel_add_err: "exec_add k m = (k', Inl err) \<Longrightarrow> fib k' = fib k"
    and kernel_exists: "exec_add k m = (k', Inl err) \<Longrightarrow> is_netlink_errno err [EEXIST] \<Longrightarrow>
      \<exists>m' \<in> fib k. same_slot m' m"
    and kernel_del: "exec_del k m = (k', Inr ()) \<Longrightarrow> fib k' = fib k - {m}"
    and kernel_del_err: "exec_del k m = (k', Inl err) \<Longrightarrow> fib k' = fib k"
    and kernel_absent: "exec_del k m = (k', Inl err) \<Longrightarrow> is_netlink_errno err [ENOENT, ESRCH] \<Longrightarrow>
      m \<notin> fib k"

sublocale route_kernel \<subseteq> netlink: fib_driver "rtnetlink_driver exec_add exec_del" fib
proof unfold_locales
  fix d r d'
  assume ok: "drv_add_route (rtnetlink_driver exec_add exec_del) d r = (d', Inr ())"
  obtain k res where ex: "exec_add d (build_route_message r) = (k, res)" by fastforce
  show "fib d' = insert (build_route_message r) (fib d)
      \<or> fib d' = fib d \<and> (\<exists>m \<in> fib d. same_slot m (build_route_message r))"
  proof (cases res)
    case (Inl err)
    with ok ex have "is_netlink_errno err [EEXIST]" "d' = k"
      by (simp_all add: rtnetlink_driver_def rtnetlink_add_route_def split: if_splits)
    with ex Inl show ?thesis
      by (metis kernel_exists kernel_add_err)
  next
    case (Inr u)
    then have ex': "exec_add d (build_route_message r) = (k, Inr ())" using ex by simp
    then have "d' = k"
      using ok by (simp add: rtnetlink_driver_def rtnetlink_add_route_def)
    then show ?thesis using kernel_add [OF ex'] by simp
  qed
next
  fix d r d' e
  assume "drv_add_route (rtnetlink_driver exec_add exec_del) d r = (d', Inl e)"
  then show "fib d' = fib d"
    using kernel_add_err
    by (auto simp: rtnetlink_driver_def rtnetlink_add_route_def
        split: prod.splits sum.splits if_splits)
next
  fix d r d'
  assume ok: "drv_delete_route (rtnetlink_driver exec_add exec_del) d r = (d', Inr ())"
  obtain k res where ex: "exec_del d (build_route_message r) = (k, res)" by fastforce
  show "fib d' = fib d - {build_route_message r}"
  proof (cases res)
    case (Inl err)
    with ex have ex': "exec_del d (build_route_message r) = (k, Inl err)" by simp
    then have absent: "is_netlink_errno err [ENOENT, ESRCH]" and "d' = k"
      using ok by (simp_all add: rtnetlink_driver_def rtnetlink_delete_route_def split: if_splits)
    then show ?thesis
      using kernel_absent [OF ex' absent] kernel_del_err [OF ex'] by simp
  next
    case (Inr u)
    then have ex': "exec_del d (build_route_message r) = (k, Inr ())" using ex by simp
    then have "d' = k"
      using ok by (simp add: rtnetlink_driver_def rtnetlink_delete_route_def)
    then show ?thesis using kernel_del [OF ex'] by simp
  qed
next
  fix d r d' e
  assume "drv_delete_route (rtnetlink_driver exec_add exec_del) d r = (d', Inl e)"
  then show "fib d' = fib d"
    using kernel_del_err
    by (auto simp: rtnetlink_driver_def rtnetlink_delete_route_def
        split: prod.splits sum.splits if_splits)
qed

context route_kernel
begin

lemma netlink_fib_driver: "fib_driver (rtnetlink_driver exec_add exec_del) fib"
  by (rule netlink.fib_driver_axioms)

end

text \<open>
  A reference kernel with the documented behaviour: a list of routes. It instantiates the
  parameter in the witnesses.
\<close>

definition table_kernel_add :: "RouteMessage list \<Rightarrow> RouteMessage \<Rightarrow> RouteMessage list \<times> (RtNetlinkError + unit)" where
  "table_kernel_add k m =
     (if list_ex (\<lambda>m'. same_slot m' m) k then (k, Inl (NetlinkError (- EEXIST) ''File exists''))
      else (m # k, Inr ()))"

definition table_kernel_del :: "RouteMessage list \<Rightarrow> RouteMessage \<Rightarrow> RouteMessage list \<times> (RtNetlinkError + unit)" where
  "table_kernel_del k m =
     (if m \<in> set k then (removeAll m k, Inr ())
      else (k, Inl (NetlinkError (- ESRCH) ''No such process'')))"

lemma table_route_kernel: "route_kernel table_kernel_add table_kernel_del set"
  by unfold_locales
     (auto simp: table_kernel_add_def table_kernel_del_def list_ex_iff split: if_splits)

abbreviation "table_driver \<equiv> rtnetlink_driver table_kernel_add table_kernel_del"

interpretation table_fib: fib_driver table_driver set
  by (rule route_kernel.netlink_fib_driver [OF table_route_kernel])

interpretation table_kernel: route_kernel table_kernel_add table_kernel_del set
  by (rule table_route_kernel)

section \<open>Messages identify routes\<close>

lemma prefix_len_inj:
  assumes "is_net_mask_valid m" "is_net_mask_valid m'"
    and "(of_nat (leading_ones m) :: u8) = of_nat (leading_ones m')"
  shows "m = m'"
proof -
  have "leading_ones m \<le> 32" "leading_ones m' \<le> 32"
    using leading_ones_le [of m] leading_ones_le [of m'] by simp_all
  moreover have "unat (of_nat (leading_ones m) :: u8) = unat (of_nat (leading_ones m') :: u8)"
    using assms(3) by simp
  ultimately have "leading_ones m = leading_ones m'"
    by (simp add: unat_of_nat)
  with assms show ?thesis by (blast intro: leading_ones_inj)
qed

lemma same_slot_same_key:
  assumes "is_net_mask_valid (subnet_mask (rip_entry r))"
    and "is_net_mask_valid (subnet_mask (rip_entry r'))"
    and "same_slot (build_route_message r) (build_route_message r')"
  shows "build_route_key (rip_entry r) = build_route_key (rip_entry r')"
  using assms prefix_len_inj
  by (auto simp: same_slot_def build_route_message_def build_route_key_def Let_def)

lemma same_message_same_key:
  assumes "is_net_mask_valid (subnet_mask (rip_entry r))"
    and "is_net_mask_valid (subnet_mask (rip_entry r'))"
    and "build_route_message r = build_route_message r'"
  shows "build_route_key (rip_entry r) = build_route_key (rip_entry r')"
  using assms by (intro same_slot_same_key) (simp_all add: same_slot_def)

lemma message_of_fields:
  "rip_entry r = rip_entry r' \<Longrightarrow> if_index r = if_index r' \<Longrightarrow>
     build_route_message r = build_route_message r'"
  by (simp add: build_route_message_def)

lemma message_prefix_len:
  assumes "p \<le> 32" and "prefix_to_mask p = Inr (subnet_mask (rip_entry r))"
  shows "unat (msg_prefix_len (build_route_message r)) = unat p"
proof -
  have p: "unat p \<le> 32" using assms(1) by (simp add: word_le_nat_alt)
  then have "leading_ones (subnet_mask (rip_entry r)) = unat p"
    using assms prefix_to_mask_eq [of p] leading_ones_mask_of [of "unat p"] by simp
  then show ?thesis
    using p by (simp add: build_route_message_def Let_def unsigned_ucast_eq take_bit_eq_mod)
qed

section \<open>Properties\<close>

lemma i32_abs_iff:
  assumes "sint m = x" and "sint (- m) = - x" and "0 < x"
  shows "i32_abs w = m \<longleftrightarrow> \<bar>sint w\<bar> = x"
proof (cases "sint w < 0")
  case True
  then have "i32_abs w = m \<longleftrightarrow> sint w = sint (- m)"
    by (metis i32_abs_def minus_minus signed_word_eqI)
  with True assms show ?thesis by auto
next
  case False
  then have "i32_abs w = m \<longleftrightarrow> sint w = sint m"
    by (metis i32_abs_def signed_word_eqI)
  with False assms show ?thesis by auto
qed

text \<open>
  The kernel's answers that are not failures. Adding ignores exactly the code 17 (\<^verbatim>\<open>EEXIST\<close>) and
  deleting exactly 2 and 3 (\<^verbatim>\<open>ENOENT\<close>, \<^verbatim>\<open>ESRCH\<close>), of either sign, read as signed 32-bit numbers;
  any other error is reported with the kernel's text and the new kernel state is kept in every case.
\<close>

theorem netlink_soft_errors:
  "rtnetlink_add_route exec_add k r =
     (case exec_add k (build_route_message r) of
        (k', Inr _) \<Rightarrow> (k', Inr ())
      | (k', Inl (NetlinkError code t)) \<Rightarrow>
          if \<bar>sint code\<bar> = 17 then (k', Inr ()) else (k', Inl (IoError (''failed to add route: '' @ t)))
      | (k', Inl (OtherNetlinkError t)) \<Rightarrow> (k', Inl (IoError (''failed to add route: '' @ t))))
   \<and> rtnetlink_delete_route exec_del k r =
     (case exec_del k (build_route_message r) of
        (k', Inr _) \<Rightarrow> (k', Inr ())
      | (k', Inl (NetlinkError code t)) \<Rightarrow>
          if \<bar>sint code\<bar> = 2 \<or> \<bar>sint code\<bar> = 3 then (k', Inr ())
          else (k', Inl (IoError (''failed to delete route: '' @ t)))
      | (k', Inl (OtherNetlinkError t)) \<Rightarrow> (k', Inl (IoError (''failed to delete route: '' @ t))))"
proof -
  have "i32_abs code = EEXIST \<longleftrightarrow> \<bar>sint code\<bar> = 17" "i32_abs code = ENOENT \<longleftrightarrow> \<bar>sint code\<bar> = 2"
    "i32_abs code = ESRCH \<longleftrightarrow> \<bar>sint code\<bar> = 3" for code
    by (rule i32_abs_iff; simp add: EEXIST_def ENOENT_def ESRCH_def)+
  then show ?thesis
    by (auto simp: rtnetlink_add_route_def rtnetlink_delete_route_def
        split: prod.splits sum.splits RtNetlinkError.splits)
qed

text \<open>
  C37: the netlink driver over a kernel with the documented behaviour. A successful add installs the
  route, unless a route of the same destination, prefix length and priority is there already, which
  then stays in its place; a successful delete leaves no such route; an error changes nothing.
\<close>

theorem netlink_driver_contract:
  assumes "route_kernel exec_add exec_del fib"
  shows "(case rtnetlink_add_route exec_add k r of
            (k', Inr _) \<Rightarrow> fib k' = insert (build_route_message r) (fib k)
              \<or> fib k' = fib k \<and> (\<exists>m. m \<in> fib k \<and> same_slot m (build_route_message r))
          | (k', Inl _) \<Rightarrow> fib k' = fib k)
    \<and> (case rtnetlink_delete_route exec_del k r of
         (k', Inr _) \<Rightarrow> fib k' = fib k - {build_route_message r}
       | (k', Inl _) \<Rightarrow> fib k' = fib k)"
proof -
  note netlink = route_kernel.netlink_fib_driver [OF assms]
  have add: "drv_add_route (rtnetlink_driver exec_add exec_del) k r = rtnetlink_add_route exec_add k r"
    and del: "drv_delete_route (rtnetlink_driver exec_add exec_del) k r = rtnetlink_delete_route exec_del k r"
    by (simp_all add: rtnetlink_driver_def)
  note laws = fib_driver.add_ok [OF netlink, of k r, unfolded add] fib_driver.add_err [OF netlink, of k r, unfolded add]
    fib_driver.delete_ok [OF netlink, of k r, unfolded del] fib_driver.delete_err [OF netlink, of k r, unfolded del]
  show ?thesis
    using laws
    by (cases "rtnetlink_add_route exec_add k r"; cases "rtnetlink_delete_route exec_del k r";
        cases "snd (rtnetlink_add_route exec_add k r)"; cases "snd (rtnetlink_delete_route exec_del k r)")
       auto
qed

text \<open>On the reference kernel: a second route for a taken slot leaves the first one in place.\<close>

theorem netlink_driver_contract_witness:
  "let r = new_db_entry (sample_entry 1 3232235521 2) 3 ''eth0'' False;
       r' = new_db_entry (sample_entry 1 3232235522 2) 3 ''eth0'' False;
       k = fst (rtnetlink_add_route table_kernel_add [] r)
   in build_route_message r \<in> set k
      \<and> build_route_message r' \<notin> set (fst (rtnetlink_add_route table_kernel_add k r'))
      \<and> set (fst (rtnetlink_delete_route table_kernel_del k r)) = set k - {build_route_message r}"
proof -
  let ?r = "new_db_entry (sample_entry 1 3232235521 2) 3 ''eth0'' False"
  let ?r' = "new_db_entry (sample_entry 1 3232235522 2) 3 ''eth0'' False"
  let ?k = "fst (rtnetlink_add_route table_kernel_add [] ?r)"
  have "build_route_message ?r \<in> set ?k"
    "build_route_message ?r' \<notin> set (fst (rtnetlink_add_route table_kernel_add ?k ?r'))"
    "isl (snd (rtnetlink_delete_route table_kernel_del ?k ?r)) = False"
    by code_simp+
  moreover have "set (fst (rtnetlink_delete_route table_kernel_del ?k ?r)) = set ?k - {build_route_message ?r}"
    using conjunct2 [OF netlink_driver_contract [OF table_kernel.route_kernel_axioms, of ?k ?r]] calculation(3)
    by (cases "rtnetlink_delete_route table_kernel_del ?k ?r";
        cases "snd (rtnetlink_delete_route table_kernel_del ?k ?r)") simp_all
  ultimately show ?thesis by (simp only: Let_def) simp
qed

end
