(* ===== verification/Rip_Deamon.thy ===== *)
theory Rip_Deamon
  imports Rip_Updater Rip_Route Rip_Routing_Table
begin

text \<open>
  \<^verbatim>\<open>src/src/rip_deamon.rs\<close>, the handlers: responses, requests, advertisements, timeouts, garbage
  collection, shutdown and administration requests. The state is the struct's fields and the
  world its sockets and clocks live in; the driver's trait methods and the operating system are
  arguments. Log lines are left out; everything else a handler does is in its definition.
\<close>

section \<open>Constants\<close>

definition RIP_INFINITY_METRIC :: u32 where "RIP_INFINITY_METRIC = 16"
definition RIP_REQUEST_WARMUP_MIN_MILLIS :: u64 where "RIP_REQUEST_WARMUP_MIN_MILLIS = 500"
definition RIP_REQUEST_WARMUP_MAX_MILLIS :: u64 where "RIP_REQUEST_WARMUP_MAX_MILLIS = 1000"
definition RIP_UPDATE_MIN_MILLIS :: u64 where "RIP_UPDATE_MIN_MILLIS = 27500"
definition RIP_UPDATE_MAX_MILLIS :: u64 where "RIP_UPDATE_MAX_MILLIS = 35000"
definition RIP_TRIGGERED_UPDATE_LOCK_MIN_MILLIS :: u64 where "RIP_TRIGGERED_UPDATE_LOCK_MIN_MILLIS = 1000"
definition RIP_TRIGGERED_UPDATE_LOCK_MAX_MILLIS :: u64 where "RIP_TRIGGERED_UPDATE_LOCK_MAX_MILLIS = 5000"
definition RIP_TIMEOUT_CHECK_INTERVAL_SECS :: u64 where "RIP_TIMEOUT_CHECK_INTERVAL_SECS = 15"
definition RIP_ROUTE_TIMEOUT_SECS :: u64 where "RIP_ROUTE_TIMEOUT_SECS = 180"
definition RIP_GARBAGE_COLLECTION_INTERVAL_SECS :: u64 where "RIP_GARBAGE_COLLECTION_INTERVAL_SECS = 5"
definition RIP_GARBAGE_COLLECTION_LIFETIME_SECS :: u64 where "RIP_GARBAGE_COLLECTION_LIFETIME_SECS = 120"

section \<open>Entries\<close>

definition is_metric_valid :: "u32 \<Rightarrow> bool" where
  "is_metric_valid m \<longleftrightarrow> 1 \<le> m \<and> m \<le> RIP_INFINITY_METRIC"

definition is_entry_valid :: "RipEntry \<Rightarrow> bool" where
  "is_entry_valid e \<longleftrightarrow>
     is_unicast_address (ip_address e) \<and> is_net_mask_valid (subnet_mask e) \<and> is_metric_valid (metric e)"

definition update_metric :: "u32 \<Rightarrow> u32" where
  "update_metric m = min (saturating_add m 1) RIP_INFINITY_METRIC"

definition response_entry_to_route :: "RipEntry \<Rightarrow> RipPacket \<Rightarrow> RipEntry option" where
  "response_entry_to_route e packet =
     (if \<not> is_entry_valid e then None
      else Some (e\<lparr> metric := update_metric (metric e), next_hop := sa_ip (source packet) \<rparr>))"

definition route_is_from_current_next_hop :: "RipDbEntry \<Rightarrow> RipEntry \<Rightarrow> bool" where
  "route_is_from_current_next_hop old_route route_entry \<longleftrightarrow>
     next_hop (rip_entry old_route) = next_hop route_entry"

section \<open>Durations\<close>

definition random_millis_in_range :: "'n os \<Rightarrow> u64 \<Rightarrow> u64 \<Rightarrow> 'n \<Rightarrow> 'n \<times> u64" where
  "random_millis_in_range os min_millis max_millis n =
     (let range_len = max_millis - min_millis + 1;
          (n', nanos) = unix_subsec_nanos os n;
          random_seed = (case nanos of None \<Rightarrow> 0 | Some x \<Rightarrow> x)
      in (n', min_millis + random_seed mod range_len))"

definition env_u64_or_default :: "'n os \<Rightarrow> string \<Rightarrow> u64 \<Rightarrow> u64" where
  "env_u64_or_default os name default_value =
     (case Option.bind (env_var os name) u64_from_str of None \<Rightarrow> default_value | Some v \<Rightarrow> v)"

definition create_request_warmup_duration :: "'n os \<Rightarrow> 'n \<Rightarrow> 'n \<times> Duration" where
  "create_request_warmup_duration os n =
     apsnd duration_from_millis
       (random_millis_in_range os RIP_REQUEST_WARMUP_MIN_MILLIS RIP_REQUEST_WARMUP_MAX_MILLIS n)"

definition create_update_duration :: "'n os \<Rightarrow> 'n \<Rightarrow> 'n \<times> Duration" where
  "create_update_duration os n =
     apsnd duration_from_millis (random_millis_in_range os RIP_UPDATE_MIN_MILLIS RIP_UPDATE_MAX_MILLIS n)"

definition create_triggered_update_lock_duration :: "'n os \<Rightarrow> 'n \<Rightarrow> 'n \<times> Duration" where
  "create_triggered_update_lock_duration os n =
     apsnd duration_from_millis
       (random_millis_in_range os RIP_TRIGGERED_UPDATE_LOCK_MIN_MILLIS
          RIP_TRIGGERED_UPDATE_LOCK_MAX_MILLIS n)"

definition timeout_check_interval_secs :: "'n os \<Rightarrow> u64" where
  "timeout_check_interval_secs os =
     env_u64_or_default os ''RIP_TIMEOUT_CHECK_INTERVAL_SECS'' RIP_TIMEOUT_CHECK_INTERVAL_SECS"

definition route_timeout_secs :: "'n os \<Rightarrow> u64" where
  "route_timeout_secs os = env_u64_or_default os ''RIP_ROUTE_TIMEOUT_SECS'' RIP_ROUTE_TIMEOUT_SECS"

definition garbage_collection_interval_secs :: "'n os \<Rightarrow> u64" where
  "garbage_collection_interval_secs os =
     env_u64_or_default os ''RIP_GARBAGE_COLLECTION_INTERVAL_SECS'' RIP_GARBAGE_COLLECTION_INTERVAL_SECS"

definition garbage_collection_lifetime_secs :: "'n os \<Rightarrow> u64" where
  "garbage_collection_lifetime_secs os =
     env_u64_or_default os ''RIP_GARBAGE_COLLECTION_LIFETIME_SECS'' RIP_GARBAGE_COLLECTION_LIFETIME_SECS"

section \<open>State\<close>

record ('d, 'n) RipDeamon =
  routing_table :: "'d RoutingTable"
  interfaces :: "RipIfc list"
  database :: RipDatabase
  world :: 'n

definition RipDeamon_new :: "'d RoutingTable \<Rightarrow> 'n \<Rightarrow> ('d, 'n) RipDeamon" where
  "RipDeamon_new rt n = \<lparr> routing_table = rt, interfaces = [], database = RipDatabase_new, world = n \<rparr>"

text \<open>Calls on one field of the struct, and on the world.\<close>

definition on_database ::
  "(RipDatabase \<Rightarrow> RipDatabase \<times> 'a) \<Rightarrow> ('d, 'n) RipDeamon \<Rightarrow> ('d, 'n) RipDeamon \<times> 'a" where
  "on_database f s = (case f (database s) of (db, x) \<Rightarrow> (s\<lparr> database := db \<rparr>, x))"

definition on_table ::
  "('d RoutingTable \<Rightarrow> 'd RoutingTable \<times> 'a) \<Rightarrow> ('d, 'n) RipDeamon \<Rightarrow> ('d, 'n) RipDeamon \<times> 'a" where
  "on_table f s = (case f (routing_table s) of (rt, x) \<Rightarrow> (s\<lparr> routing_table := rt \<rparr>, x))"

definition on_world ::
  "('n \<Rightarrow> 'n \<times> 'a) \<Rightarrow> ('d, 'n) RipDeamon \<Rightarrow> ('d, 'n) RipDeamon \<times> 'a" where
  "on_world f s = (case f (world s) of (n, x) \<Rightarrow> (s\<lparr> world := n \<rparr>, x))"

section \<open>Responses\<close>

definition handle_poisoned_route_from_response ::
  "'n os \<Rightarrow> 'd RoutingTableDriver \<Rightarrow> RipEntry \<Rightarrow> u32 \<Rightarrow> ('d, 'n) RipDeamon
    \<Rightarrow> ('d, 'n) RipDeamon \<times> unit RipResult" where
  "handle_poisoned_route_from_response os drv route_entry ifx s =
     (case get_route (database s) route_entry of
        Some old_route \<Rightarrow>
          if \<not> route_is_from_current_next_hop old_route route_entry then (s, Inr ())
          else
            and_then (on_table (RoutingTable_delete_route drv old_route) s) (\<lambda>_ s.
            (case on_world (instant_now os) s of (s, now) \<Rightarrow>
              and_then (on_database (move_route_to_garbage (rip_entry old_route) now) s) (\<lambda>_ s.
              (s, Inr ()))))
      | None \<Rightarrow>
          if has_garbage_route (database s) route_entry then (s, Inr ()) else (s, Inr ()))"

definition replace_route_from_response ::
  "'d RoutingTableDriver \<Rightarrow> RipDbEntry \<Rightarrow> RipEntry \<Rightarrow> u32 \<Rightarrow> string \<Rightarrow> ('d, 'n) RipDeamon
    \<Rightarrow> ('d, 'n) RipDeamon \<times> unit RipResult" where
  "replace_route_from_response drv old_route route_entry ifx ifn s =
     and_then (on_table (RoutingTable_delete_route drv old_route) s) (\<lambda>_ s.
     and_then (on_database (remove_route (rip_entry old_route)) s) (\<lambda>_ s.
     and_then (on_database (add_remote_route route_entry ifx ifn) s) (\<lambda>new_route s.
     on_table (RoutingTable_add_route drv new_route) s)))"

definition update_route_from_response ::
  "'n os \<Rightarrow> 'd RoutingTableDriver \<Rightarrow> RipEntry \<Rightarrow> RipIfInfo \<Rightarrow> ('d, 'n) RipDeamon
    \<Rightarrow> ('d, 'n) RipDeamon \<times> unit RipResult" where
  "update_route_from_response os drv route_entry info s =
     (let ifx = info_if_index info; ifn = info_if_name info
      in if metric route_entry \<ge> RIP_INFINITY_METRIC
         then handle_poisoned_route_from_response os drv route_entry ifx s
         else
           (case get_route (database s) route_entry of
              None \<Rightarrow>
                (case on_database (remove_garbage_route route_entry) s of (s, _) \<Rightarrow>
                  and_then (on_database (add_remote_route route_entry ifx ifn) s) (\<lambda>new_route s.
                  on_table (RoutingTable_add_route drv new_route) s))
            | Some old_route \<Rightarrow>
                if route_is_from_current_next_hop old_route route_entry then
                  let s = s\<lparr> database := refresh_route_timeout route_entry (database s) \<rparr>
                  in if rip_entry old_route = route_entry \<and> if_index old_route = ifx
                        \<and> if_name old_route = ifn
                     then (s, Inr ())
                     else replace_route_from_response drv old_route route_entry ifx ifn s
                else if metric (rip_entry old_route) > metric route_entry then
                  replace_route_from_response drv old_route route_entry ifx ifn s
                else (s, Inr ())))"

definition handle_response_packet ::
  "'n os \<Rightarrow> 'd RoutingTableDriver \<Rightarrow> RipPacket \<Rightarrow> ('d, 'n) RipDeamon
    \<Rightarrow> ('d, 'n) RipDeamon \<times> unit RipResult" where
  "handle_response_packet os drv packet s =
     (if version (header (packet_data packet)) \<noteq> RIP_2_VERSION then (s, Inl MalformedPacket)
      else if sa_port (source packet) \<noteq> RIP_UDP_PORT then (s, Inr ())
      else
        for_each (\<lambda>e s.
            case response_entry_to_route e packet of
              None \<Rightarrow> (s, Inr ())
            | Some route_entry \<Rightarrow> update_route_from_response os drv route_entry (if_info packet) s)
          (entries (packet_data packet)) s)"

definition handle_packet ::
  "'n os \<Rightarrow> 'd RoutingTableDriver \<Rightarrow> RipPacket \<Rightarrow> ('d, 'n) RipDeamon
    \<Rightarrow> ('d, 'n) RipDeamon \<times> unit RipResult" where
  "handle_packet os drv packet s =
     (if RipPacket_is_request packet then
        map_err (\<lambda>err. IoError (io_error_text err))
          (on_world (rip_send_response_unicast os (database s) (source packet) (if_info packet)) s)
      else if RipPacket_is_response packet then handle_response_packet os drv packet s
      else (s, Inl MalformedPacket))"

section \<open>Advertisements\<close>

definition send_multicast_advertisement ::
  "'n os \<Rightarrow> bool \<Rightarrow> ('d, 'n) RipDeamon \<Rightarrow> ('d, 'n) RipDeamon \<times> unit RipResult" where
  "send_multicast_advertisement os changed_only s =
     and_then
       (map_err (\<lambda>err. IoError (io_error_text err))
         (on_world (rip_send_advertisement_multicast os (database s) (interfaces s) changed_only) s))
       (\<lambda>_ s. (s\<lparr> database := mark_all_routes_as_unchanged (database s) \<rparr>, Inr ()))"

definition send_multicast_request ::
  "'n os \<Rightarrow> ('d, 'n) RipDeamon \<Rightarrow> ('d, 'n) RipDeamon \<times> unit RipResult" where
  "send_multicast_request os s =
     for_each (\<lambda>ifc s. map_err (\<lambda>err. IoError (io_error_text err))
         (on_world (rip_send_request_multicast os (ifc_tx ifc)) s))
       (interfaces s) s"

text \<open>A timer is armed with its deadline; \<^verbatim>\<open>sleep\<close> reads the clock when it is created.\<close>

type_synonym timer = "Instant option"

definition sleep_timer :: "'n os \<Rightarrow> Duration \<Rightarrow> ('d, 'n) RipDeamon \<Rightarrow> ('d, 'n) RipDeamon \<times> Instant" where
  "sleep_timer os d s = (case on_world (instant_now os) s of (s, now) \<Rightarrow> (s, now + d))"

definition maybe_send_triggered_update ::
  "'n os \<Rightarrow> ('d, 'n) RipDeamon \<times> timer \<Rightarrow> (('d, 'n) RipDeamon \<times> timer) \<times> unit RipResult" where
  "maybe_send_triggered_update os st =
     (case st of (s, lock) \<Rightarrow>
        if lock \<noteq> None \<or> \<not> any_route_changed (database s) then ((s, lock), Inr ())
        else
          (case send_multicast_advertisement os True s of
             (s, Inl e) \<Rightarrow> ((s, lock), Inl e)
           | (s, Inr _) \<Rightarrow>
               (case on_world (create_triggered_update_lock_duration os) s of (s, d) \<Rightarrow>
                (case sleep_timer os d s of (s, deadline) \<Rightarrow> ((s, Some deadline), Inr ())))))"

section \<open>Timeouts and garbage collection\<close>

definition expire_route ::
  "'n os \<Rightarrow> 'd RoutingTableDriver \<Rightarrow> RipDbEntry \<Rightarrow> ('d, 'n) RipDeamon
    \<Rightarrow> ('d, 'n) RipDeamon \<times> unit RipResult" where
  "expire_route os drv route s =
     and_then (on_table (RoutingTable_delete_route drv route) s) (\<lambda>_ s.
     (case on_world (instant_now os) s of (s, now) \<Rightarrow>
       and_then (on_database (move_route_to_garbage (rip_entry route) now) s) (\<lambda>_ s. (s, Inr ()))))"

definition handle_route_timeout_tick ::
  "'n os \<Rightarrow> 'd RoutingTableDriver \<Rightarrow> ('d, 'n) RipDeamon \<times> timer
    \<Rightarrow> (('d, 'n) RipDeamon \<times> timer) \<times> unit RipResult" where
  "handle_route_timeout_tick os drv st =
     (case st of (s, gc) \<Rightarrow>
       (case on_database (collect_timed_out_routes (timeout_check_interval_secs os) (route_timeout_secs os)) s
        of (s, timed_out_routes) \<Rightarrow>
          let should_start_garbage_collection = (timed_out_routes \<noteq> [] \<and> gc = None)
          in case for_each (expire_route os drv) timed_out_routes s of
               (s, Inl e) \<Rightarrow> ((s, gc), Inl e)
             | (s, Inr _) \<Rightarrow>
                 if should_start_garbage_collection
                 then (case sleep_timer os (duration_from_secs (garbage_collection_interval_secs os)) s
                       of (s, deadline) \<Rightarrow> ((s, Some deadline), Inr ()))
                 else ((s, gc), Inr ())))"

definition handle_garbage_collection_tick ::
  "'n os \<Rightarrow> ('d, 'n) RipDeamon \<times> timer \<Rightarrow> ('d, 'n) RipDeamon \<times> timer" where
  "handle_garbage_collection_tick os st =
     (case st of (s, gc) \<Rightarrow>
       let garbage_lifetime = duration_from_secs (garbage_collection_lifetime_secs os)
       in case on_world (instant_now os) s of (s, now) \<Rightarrow>
          (case on_database (remove_expired_garbage_routes now garbage_lifetime) s of (s, _) \<Rightarrow>
            if has_garbage_routes (database s)
            then (case sleep_timer os (duration_from_secs (garbage_collection_interval_secs os)) s
                  of (s, deadline) \<Rightarrow> (s, Some deadline))
            else (s, gc)))"

section \<open>Shutdown\<close>

fun delete_ignoring_errors ::
  "'d RoutingTableDriver \<Rightarrow> RipDbEntry list \<Rightarrow> ('d, 'n) RipDeamon \<Rightarrow> ('d, 'n) RipDeamon" where
  "delete_ignoring_errors drv [] s = s"
| "delete_ignoring_errors drv (r # rs) s =
     delete_ignoring_errors drv rs (fst (on_table (RoutingTable_delete_route drv r) s))"

definition handle_shutdown ::
  "'n os \<Rightarrow> 'd RoutingTableDriver \<Rightarrow> ('d, 'n) RipDeamon \<Rightarrow> ('d, 'n) RipDeamon" where
  "handle_shutdown os drv s =
     (let routes_to_delete = get_routes_in_routing_table (database s);
          s = s\<lparr> database := poison_all_routes (database s) \<rparr>;
          s = fst (send_multicast_advertisement os False s)
      in delete_ignoring_errors drv routes_to_delete s)"

section \<open>Setup and local routes\<close>

definition setup_sockets ::
  "'n os \<Rightarrow> RipConfiguration \<Rightarrow> ('d, 'n) RipDeamon \<Rightarrow> ('d, 'n) RipDeamon \<times> unit RipResult" where
  "setup_sockets os cfg s =
     for_each (\<lambda>ifc_cfg s.
         and_then (on_world (RipIfc_create os (rif_dev ifc_cfg)) s) (\<lambda>ifc s.
         (s\<lparr> interfaces := interfaces s @ [ifc] \<rparr>, Inr ())))
       (rip_interfaces cfg) s"

definition setup_advertised_network ::
  "'n os \<Rightarrow> AdvertisedNetwork \<Rightarrow> ('d, 'n) RipDeamon \<Rightarrow> ('d, 'n) RipDeamon \<times> unit RipResult" where
  "setup_advertised_network os network s =
     and_then (on_world (advertised_network_to_local_route os network) s) (\<lambda>lr s.
     on_database (add_local_route (lr_entry lr) (lr_if_index lr) (lr_if_name lr)) s)"

definition RipDeamon_setup ::
  "'n os \<Rightarrow> (string \<Rightarrow> string + Cfg) \<Rightarrow> (string \<Rightarrow> io_error + string) \<Rightarrow> string
    \<Rightarrow> ('d, 'n) RipDeamon \<Rightarrow> ('d, 'n) RipDeamon \<times> unit RipResult" where
  "RipDeamon_setup os yaml_from_str read_to_string cfg_path s =
     and_then (s, RipConfiguration_read_and_parse yaml_from_str read_to_string cfg_path) (\<lambda>rip_cfg s.
     and_then (setup_sockets os rip_cfg s) (\<lambda>_ s.
     for_each (setup_advertised_network os) (advertised_networks rip_cfg) s))"

end
