(* ===== verification/Rip_Deamon_Inv.thy ===== *)
theory Rip_Deamon_Inv
  imports Rip_Deamon
begin

text \<open>
  The routing invariant of the daemon and the effect of the response handlers on the database.
  Every handler keeps the invariant on success and on error. The effect lemmas
  (\<open>..._cases\<close>) give the database and the outcome of each handler as a function of what the
  driver answered; the refinement and the kernel-consistency theorems rest on them.
\<close>

section \<open>Frames\<close>

lemma on_database_fst [simp]: "fst (on_database f s) = s\<lparr> database := fst (f (database s)) \<rparr>"
  by (simp add: on_database_def split: prod.splits)

lemma on_database_snd [simp]: "snd (on_database f s) = snd (f (database s))"
  by (simp add: on_database_def split: prod.splits)

lemma on_table_fst [simp]: "fst (on_table f s) = s\<lparr> routing_table := fst (f (routing_table s)) \<rparr>"
  by (simp add: on_table_def split: prod.splits)

lemma on_table_snd [simp]: "snd (on_table f s) = snd (f (routing_table s))"
  by (simp add: on_table_def split: prod.splits)

lemma on_world_fst [simp]: "fst (on_world f s) = s\<lparr> world := fst (f (world s)) \<rparr>"
  by (simp add: on_world_def split: prod.splits)

lemma on_world_snd [simp]: "snd (on_world f s) = snd (f (world s))"
  by (simp add: on_world_def split: prod.splits)

lemma on_database_eq: "on_database f s = (s\<lparr> database := fst (f (database s)) \<rparr>, snd (f (database s)))"
  by (rule prod_eqI) simp_all

lemma on_table_eq:
  "on_table f s = (s\<lparr> routing_table := fst (f (routing_table s)) \<rparr>, snd (f (routing_table s)))"
  by (rule prod_eqI) simp_all

lemma on_world_eq: "on_world f s = (s\<lparr> world := fst (f (world s)) \<rparr>, snd (f (world s)))"
  by (rule prod_eqI) simp_all

lemmas on_field_eqs = on_database_eq on_table_eq on_world_eq

section \<open>Valid routes\<close>

text \<open>
  A local route is the one \<^verbatim>\<open>advertised_network_to_local_route\<close> builds: metric 1 and no next hop.
  A remote route was learned from a valid entry: its metric is between 2 and 15, and its next hop
  is a neighbour's address.
\<close>

definition remote_entry_ok :: "RipEntry \<Rightarrow> bool" where
  "remote_entry_ok e \<longleftrightarrow>
     is_unicast_address (ip_address e) \<and> is_net_mask_valid (subnet_mask e)
     \<and> 2 \<le> metric e \<and> metric e < RIP_INFINITY_METRIC \<and> next_hop e \<noteq> 0"

definition local_entry_ok :: "RipEntry \<Rightarrow> bool" where
  "local_entry_ok e \<longleftrightarrow> metric e = 1 \<and> next_hop e = 0"

definition route_ok :: "RipDbEntry \<Rightarrow> bool" where
  "route_ok r = (if is_local r then local_entry_ok (rip_entry r) else remote_entry_ok (rip_entry r))"

text \<open>
  The routing invariant: a well-formed database of valid active routes, no local route in the
  garbage, and a destination that is both active and garbage only where the active route is local
  (a local route can be added by an administrator while a withdrawn one is still being announced).
\<close>

definition rib_ok :: "RipDatabase \<Rightarrow> bool" where
  "rib_ok db \<longleftrightarrow>
     db_wf db \<and> hm_all (\<lambda>_. route_ok) (ok_routes db)
     \<and> hm_all (\<lambda>k g. \<not> is_local g \<and> (case hm_get (ok_routes db) k of None \<Rightarrow> True | Some r \<Rightarrow> is_local r))
         (garbage_routes db)"

lemma route_ok_update [simp]:
  "route_ok (r\<lparr> timeout_cnt := c \<rparr>) = route_ok r"
  "route_ok (mark_unchanged r) = route_ok r"
  "route_ok (r\<lparr> changed := c' \<rparr>) = route_ok r"
  "route_ok (age inc r) = route_ok r"
  by (simp_all add: route_ok_def mark_unchanged_def)

lemma rib_okI:
  assumes "db_wf db"
    and "\<And>k r. hm_get (ok_routes db) k = Some r \<Longrightarrow> route_ok r"
    and "\<And>k g. hm_get (garbage_routes db) k = Some g \<Longrightarrow> \<not> is_local g"
    and "\<And>k r g. hm_get (ok_routes db) k = Some r \<Longrightarrow> hm_get (garbage_routes db) k = Some g \<Longrightarrow> is_local r"
  shows "rib_ok db"
  using assms db_wf_maps [OF assms(1)]
  by (auto simp: rib_ok_def hm_all_iff hm.entries_satisfy_def split: option.splits)

lemma rib_ok_wf: "rib_ok db \<Longrightarrow> db_wf db"
  by (simp add: rib_ok_def)

lemma rib_ok_ok_route: "rib_ok db \<Longrightarrow> hm_get (ok_routes db) k = Some r \<Longrightarrow> route_ok r"
  using db_wf_maps [of db] by (auto simp: rib_ok_def hm_all_iff hm.entries_satisfy_def)

lemma rib_ok_garbage_route: "rib_ok db \<Longrightarrow> hm_get (garbage_routes db) k = Some g \<Longrightarrow> \<not> is_local g"
  using db_wf_maps [of db] by (auto simp: rib_ok_def hm_all_iff hm.entries_satisfy_def)

lemma rib_ok_both:
  "rib_ok db \<Longrightarrow> hm_get (ok_routes db) k = Some r \<Longrightarrow> hm_get (garbage_routes db) k = Some g \<Longrightarrow> is_local r"
  using db_wf_maps [of db] by (fastforce simp: rib_ok_def hm_all_iff hm.entries_satisfy_def)

lemmas rib_ok_dests = rib_ok_wf rib_ok_ok_route rib_ok_garbage_route rib_ok_both

lemma rib_ok_route: "rib_ok db \<Longrightarrow> get_route db e = Some r \<Longrightarrow>
    route_ok r \<and> build_route_key (rip_entry r) = build_route_key e"
  unfolding get_route_def by (metis rib_ok_ok_route rib_ok_wf db_wf_ok ok_entry_def)

lemma rib_ok_no_garbage:
  "rib_ok db \<Longrightarrow> get_route db e = Some r \<Longrightarrow> \<not> is_local r \<Longrightarrow> \<not> has_garbage_route db e"
  by (cases "hm_get (garbage_routes db) (build_route_key e)")
     (auto simp: get_route_def has_garbage_route_def hm_contains_key_def dest: rib_ok_both)

section \<open>The database side of the handlers\<close>

definition db_drop_ok :: "RipRouteKey \<Rightarrow> RipDatabase \<Rightarrow> RipDatabase" where
  "db_drop_ok k db = db\<lparr> ok_routes := hm_remove k (ok_routes db) \<rparr>"

definition db_drop_garbage :: "RipRouteKey \<Rightarrow> RipDatabase \<Rightarrow> RipDatabase" where
  "db_drop_garbage k db = db\<lparr> garbage_routes := hm_remove k (garbage_routes db) \<rparr>"

definition db_withdraw :: "RipRouteKey \<Rightarrow> RipDbEntry \<Rightarrow> RipDatabase \<Rightarrow> RipDatabase" where
  "db_withdraw k g db =
     db\<lparr> ok_routes := hm_remove k (ok_routes db), any_changed := True,
         garbage_routes := hm_insert k g (garbage_routes db) \<rparr>"

lemma db_wf_drop_ok: "db_wf db \<Longrightarrow> db_wf (db_drop_ok k db)"
  by (auto simp: db_drop_ok_def db_wf_iff intro!: entries_intros)

lemma db_wf_drop_garbage: "db_wf db \<Longrightarrow> db_wf (db_drop_garbage k db)"
  by (auto simp: db_drop_garbage_def db_wf_iff intro!: entries_intros)

lemma rib_ok_drop_ok: "rib_ok db \<Longrightarrow> rib_ok (db_drop_ok k db)"
  by (rule rib_okI)
     (auto simp: db_drop_ok_def db_wf_drop_ok [unfolded db_drop_ok_def] dest: rib_ok_dests split: if_splits)

lemma rib_ok_drop_garbage: "rib_ok db \<Longrightarrow> rib_ok (db_drop_garbage k db)"
  by (rule rib_okI)
     (auto simp: db_drop_garbage_def db_wf_drop_garbage [unfolded db_drop_garbage_def]
       dest: rib_ok_dests split: if_splits)

lemma db_wf_store:
  "db_wf db \<Longrightarrow> ok_entry (build_route_key (rip_entry r)) r \<Longrightarrow> db_wf (db_store r db)"
  by (auto simp: db_store_def db_wf_iff intro!: entries_intros)

lemma new_db_entry_ok_entry [simp]: "ok_entry (build_route_key e) (new_db_entry e ifx ifn loc)"
  by (simp add: ok_entry_def)

lemma rib_ok_store:
  assumes "rib_ok db" and "route_ok (new_db_entry e ifx ifn loc)"
    and "loc \<or> \<not> has_garbage_route db e"
  shows "rib_ok (db_store (new_db_entry e ifx ifn loc) db)"
proof -
  have "db_wf (db_store (new_db_entry e ifx ifn loc) db)"
    using assms(1) by (intro db_wf_store) (simp_all add: rib_ok_wf)
  then show ?thesis
    by (rule rib_okI)
       (use assms in \<open>auto simp: db_store_def has_garbage_route_def hm_contains_key_def
          dest: rib_ok_dests split: if_splits\<close>)
qed

lemma db_wf_withdraw:
  "db_wf db \<Longrightarrow> garbage_entry k g \<Longrightarrow> db_wf (db_withdraw k g db)"
  by (auto simp: db_withdraw_def db_wf_iff intro!: entries_intros)

lemma rib_ok_withdraw:
  assumes "rib_ok db" and "garbage_entry k g" and "\<not> is_local g"
  shows "rib_ok (db_withdraw k g db)"
proof -
  have "db_wf (db_withdraw k g db)"
    using assms by (intro db_wf_withdraw) (simp_all add: rib_ok_wf)
  then show ?thesis
    by (rule rib_okI)
       (use assms in \<open>auto simp: db_withdraw_def dest: rib_ok_dests split: if_splits\<close>)
qed

lemma rib_ok_refresh: "rib_ok db \<Longrightarrow> rib_ok (refresh_route_timeout e db)"
  by (rule rib_okI)
     (auto simp: db_wf_refresh refresh_route_timeout_def db_wf_refresh [unfolded refresh_route_timeout_def]
       dest: rib_ok_dests split: if_splits)

lemma rib_ok_mark_all: "rib_ok db \<Longrightarrow> rib_ok (mark_all_routes_as_unchanged db)"
proof (rule rib_okI)
  assume db: "rib_ok db"
  then show "db_wf (mark_all_routes_as_unchanged db)" by (intro db_wf_mark_all rib_ok_wf)
qed (auto simp: mark_all_routes_as_unchanged_def mark_unchanged_def [of "_"] dest: rib_ok_dests
       split: if_splits)

lemma rib_ok_collect: "rib_ok db \<Longrightarrow> rib_ok (fst (collect_timed_out_routes inc limit db))"
proof (rule rib_okI)
  assume db: "rib_ok db"
  then show "db_wf (fst (collect_timed_out_routes inc limit db))" by (intro db_wf_collect rib_ok_wf)
qed (auto simp: collect_state dest: rib_ok_dests)

lemma rib_ok_remove_expired:
  assumes "rib_ok db"
  shows "rib_ok (fst (remove_expired_garbage_routes now lifetime db))"
proof (rule rib_okI)
  show "db_wf (fst (remove_expired_garbage_routes now lifetime db))"
    using assms by (intro db_wf_remove_expired rib_ok_wf)
qed (use assms db_wf_maps [OF rib_ok_wf [OF assms]] in
      \<open>auto simp: remove_expired_garbage dest: rib_ok_dests split: option.splits if_splits\<close>)

lemma rib_ok_new: "rib_ok RipDatabase_new"
  by (rule rib_okI) (simp add: db_wf_new, simp_all add: RipDatabase_new_def)

lemma remove_route_active:
  "get_route db e = Some r \<Longrightarrow> remove_route e db = (db_drop_ok (build_route_key e) db, Inr r)"
  by (simp add: remove_route_def get_route_def db_drop_ok_def Let_def)

lemma remove_garbage_route_fst: "fst (remove_garbage_route e db) = db_drop_garbage (build_route_key e) db"
  by (simp add: remove_garbage_route_def db_drop_garbage_def Let_def)

lemma drop_get_route [simp]:
  "get_route (db_drop_ok k db) e = (if build_route_key e = k then None else get_route db e)"
  "get_route (db_drop_garbage k db) e = get_route db e"
  by (simp_all add: db_drop_ok_def db_drop_garbage_def get_route_def)

lemma drop_has_garbage [simp]:
  "has_garbage_route (db_drop_ok k db) e = has_garbage_route db e"
  "has_garbage_route (db_drop_garbage k db) e = (build_route_key e \<noteq> k \<and> has_garbage_route db e)"
  by (auto simp: db_drop_ok_def db_drop_garbage_def has_garbage_route_def hm_contains_key_def)

lemma refresh_get_route:
  "get_route (refresh_route_timeout e db) e' =
     (if build_route_key e' = build_route_key e
      then map_option (\<lambda>r. r\<lparr> timeout_cnt := 0 \<rparr>) (get_route db e) else get_route db e')"
  by (simp add: refresh_route_timeout_def get_route_def)

lemma refresh_has_garbage [simp]:
  "has_garbage_route (refresh_route_timeout e db) e' = has_garbage_route db e'"
  by (simp add: refresh_route_timeout_def has_garbage_route_def)

section \<open>Valid entries\<close>

lemma update_metric_bounds:
  assumes "is_metric_valid m"
  shows "2 \<le> update_metric m \<and> update_metric m \<le> RIP_INFINITY_METRIC"
proof -
  have m: "1 \<le> unat m" "unat m \<le> 16"
    using assms by (auto simp: is_metric_valid_def RIP_INFINITY_METRIC_def word_le_nat_alt)
  then have "unat (saturating_add m 1) = unat m + 1"
    by (simp add: unat_saturating_add)
  with m show ?thesis
    by (auto simp: update_metric_def RIP_INFINITY_METRIC_def word_le_nat_alt min_def)
qed

lemma update_metric_unat:
  "unat (update_metric m) = min (unat m + 1) 16"
proof -
  have "unat (saturating_add m 1) = min (unat m + 1) (2 ^ 32 - 1)"
    by (simp add: unat_saturating_add)
  then show ?thesis
    by (auto simp: update_metric_def RIP_INFINITY_METRIC_def word_le_nat_alt min_def)
qed

lemma response_route_ok:
  assumes "response_entry_to_route e packet = Some re" and "sa_ip (source packet) \<noteq> 0"
    and "\<not> metric re \<ge> RIP_INFINITY_METRIC"
  shows "remote_entry_ok re"
  using assms update_metric_bounds [of "metric e"]
  by (auto simp: response_entry_to_route_def is_entry_valid_def remote_entry_ok_def not_le
      split: if_splits)

lemma response_route_fields:
  assumes "response_entry_to_route e packet = Some re"
  shows "next_hop re = sa_ip (source packet)" "build_route_key re = build_route_key e"
    "metric re = update_metric (metric e)" "is_entry_valid e"
  using assms
  by (auto simp: response_entry_to_route_def build_route_key_def split: if_splits)

lemma new_remote_route_ok: "remote_entry_ok e \<Longrightarrow> route_ok (new_db_entry e ifx ifn False)"
  by (simp add: route_ok_def)

lemma local_not_from_neighbour:
  assumes "route_ok r" and "next_hop re \<noteq> 0" and "route_is_from_current_next_hop r re"
  shows "\<not> is_local r"
  using assms by (auto simp: route_ok_def local_entry_ok_def route_is_from_current_next_hop_def)

lemma local_not_worse:
  assumes "route_ok r" and "remote_entry_ok re" and "metric (rip_entry r) > metric re"
  shows "\<not> is_local r"
  using assms by (auto simp: route_ok_def local_entry_ok_def remote_entry_ok_def word_le_nat_alt word_less_nat_alt)

section \<open>Effect of the response handlers\<close>

text \<open>What a driver answers to a delete or an add in the state \<open>s\<close>.\<close>

definition delete_result ::
  "'d RoutingTableDriver \<Rightarrow> RipDbEntry \<Rightarrow> ('d, 'n) RipDeamon \<Rightarrow> 'd RoutingTable \<times> unit RipResult" where
  "delete_result drv r s = RoutingTable_delete_route drv r (routing_table s)"

definition db_replace :: "RipEntry \<Rightarrow> u32 \<Rightarrow> string \<Rightarrow> RipDatabase \<Rightarrow> RipDatabase" where
  "db_replace e ifx ifn db =
     db_store (new_db_entry e ifx ifn False) (db_drop_ok (build_route_key e) db)"

definition db_learn :: "RipEntry \<Rightarrow> u32 \<Rightarrow> string \<Rightarrow> RipDatabase \<Rightarrow> RipDatabase" where
  "db_learn e ifx ifn db =
     db_store (new_db_entry e ifx ifn False) (db_drop_garbage (build_route_key e) db)"

lemma replace_effect:
  assumes "get_route (database s) (rip_entry old) = Some r"
    and "build_route_key (rip_entry old) = build_route_key e"
  shows "replace_route_from_response drv old e ifx ifn s =
    (case delete_result drv old s of
       (rt, Inl err) \<Rightarrow> (s\<lparr> routing_table := rt \<rparr>, Inl err)
     | (rt, Inr _) \<Rightarrow>
         (case RoutingTable_add_route drv (new_db_entry e ifx ifn False) rt of
            (rt', res) \<Rightarrow> (s\<lparr> routing_table := rt', database := db_replace e ifx ifn (database s) \<rparr>, res)))"
proof -
  have "get_route (database s) e = Some r"
    using assms by (simp add: get_route_def)
  then show ?thesis
    using assms
    by (cases "delete_result drv old s"; cases "snd (delete_result drv old s)")
       (auto simp: replace_route_from_response_def delete_result_def on_field_eqs
          remove_route_active add_remote_route_eq db_replace_def split: prod.splits)
qed

lemma learn_effect:
  assumes "get_route (database s) e = None" and "\<not> metric e \<ge> RIP_INFINITY_METRIC"
  shows "update_route_from_response os drv e info s =
    (case RoutingTable_add_route drv (new_db_entry e (info_if_index info) (info_if_name info) False)
            (routing_table s) of
       (rt, res) \<Rightarrow>
         (s\<lparr> routing_table := rt,
             database := db_learn e (info_if_index info) (info_if_name info) (database s) \<rparr>, res))"
  using assms
  by (auto simp: update_route_from_response_def Let_def on_field_eqs remove_garbage_route_fst
      add_remote_route_eq db_learn_def split: prod.splits)

lemma poison_effect:
  assumes "rib_ok (database s)" and "next_hop e \<noteq> 0"
  shows "handle_poisoned_route_from_response os drv e ifx s =
    (case get_route (database s) e of
       None \<Rightarrow> (s, Inr ())
     | Some old \<Rightarrow>
         if \<not> route_is_from_current_next_hop old e then (s, Inr ())
         else
           (case delete_result drv old s of
              (rt, Inl err) \<Rightarrow> (s\<lparr> routing_table := rt \<rparr>, Inl err)
            | (rt, Inr _) \<Rightarrow>
                (case instant_now os (world s) of (n, now) \<Rightarrow>
                   (s\<lparr> routing_table := rt, world := n,
                       database := db_withdraw (build_route_key e) (to_garbage now old) (database s) \<rparr>,
                    Inr ()))))"
proof (cases "get_route (database s) e")
  case None
  then show ?thesis by (simp add: handle_poisoned_route_from_response_def)
next
  case (Some old)
  show ?thesis
  proof (cases "route_is_from_current_next_hop old e")
    case False
    with Some show ?thesis by (simp add: handle_poisoned_route_from_response_def)
  next
    case True
    have key: "build_route_key (rip_entry old) = build_route_key e" and "route_ok old"
      using rib_ok_route [OF assms(1) Some] by auto
    then have "\<not> is_local old"
      using True assms(2) by (intro local_not_from_neighbour)
    then have "\<not> has_garbage_route (database s) e"
      by (rule rib_ok_no_garbage [OF assms(1) Some])
    then have "\<not> has_garbage_route (database s) (rip_entry old)"
      "get_route (database s) (rip_entry old) = Some old"
      using Some key by (simp_all add: has_garbage_route_def get_route_def)
    then show ?thesis
      using Some True key
      by (cases "delete_result drv old s"; cases "snd (delete_result drv old s)")
         (auto simp: handle_poisoned_route_from_response_def delete_result_def on_field_eqs
            move_to_garbage_ok db_withdraw_def split: prod.splits)
  qed
qed

section \<open>The response handlers keep the invariant\<close>

lemma rib_ok_replace:
  assumes "rib_ok db" and "get_route db e = Some old" and "\<not> is_local old" and "remote_entry_ok e"
  shows "rib_ok (db_replace e ifx ifn db)"
  unfolding db_replace_def
  using assms rib_ok_no_garbage [OF assms(1-3)]
  by (intro rib_ok_store rib_ok_drop_ok new_remote_route_ok) simp_all

lemma rib_ok_learn:
  assumes "rib_ok db" and "remote_entry_ok e"
  shows "rib_ok (db_learn e ifx ifn db)"
  unfolding db_learn_def
  using assms by (intro rib_ok_store rib_ok_drop_garbage new_remote_route_ok) simp_all

lemma garbage_entry_to_garbage:
  "build_route_key (rip_entry r) = k \<Longrightarrow> garbage_entry k (to_garbage t r)"
  by (simp add: garbage_entry_def to_garbage_def)

lemma rib_ok_poison:
  assumes "rib_ok (database s)" and "next_hop e \<noteq> 0"
  shows "rib_ok (database (fst (handle_poisoned_route_from_response os drv e ifx s)))"
proof -
  have "rib_ok (db_withdraw (build_route_key e) (to_garbage now old) (database s))"
    if "get_route (database s) e = Some old" "route_is_from_current_next_hop old e" for old now
  proof -
    have "build_route_key (rip_entry old) = build_route_key e" "route_ok old"
      using rib_ok_route [OF assms(1) that(1)] by auto
    moreover have "\<not> is_local old"
      using calculation that(2) assms(2) by (intro local_not_from_neighbour)
    ultimately show ?thesis
      using assms(1) by (intro rib_ok_withdraw garbage_entry_to_garbage) (simp_all add: to_garbage_def)
  qed
  then show ?thesis
    using assms by (auto simp: poison_effect split: option.splits prod.splits sum.splits)
qed

lemma rib_ok_replace_step:
  assumes "rib_ok (database s)" and "get_route (database s) e = Some r" and "\<not> is_local r"
    and "build_route_key (rip_entry old) = build_route_key e" and "remote_entry_ok e"
  shows "rib_ok (database (fst (replace_route_from_response drv old e ifx ifn s)))"
proof -
  have "get_route (database s) (rip_entry old) = Some r"
    using assms(2,4) by (simp add: get_route_def)
  then show ?thesis
    using assms rib_ok_replace [OF assms(1-3) assms(5)]
    by (auto simp: replace_effect split: prod.splits sum.splits)
qed

lemma rib_ok_update:
  assumes s: "rib_ok (database s)" and nh: "next_hop e \<noteq> 0"
    and e: "\<not> metric e \<ge> RIP_INFINITY_METRIC \<Longrightarrow> remote_entry_ok e"
  shows "rib_ok (database (fst (update_route_from_response os drv e info s)))"
proof (cases "metric e \<ge> RIP_INFINITY_METRIC")
  case True
  then show ?thesis using s nh by (simp add: update_route_from_response_def Let_def rib_ok_poison)
next
  case reachable: False
  then have e: "remote_entry_ok e" by (rule e)
  show ?thesis
  proof (cases "get_route (database s) e")
    case None
    then show ?thesis
      using reachable rib_ok_learn [OF s e] by (auto simp: learn_effect split: prod.splits)
  next
    case (Some old)
    have old: "route_ok old" "build_route_key (rip_entry old) = build_route_key e"
      using rib_ok_route [OF s Some] by auto
    let ?s = "s\<lparr> database := refresh_route_timeout e (database s) \<rparr>"
    have same: "rib_ok (database (fst (replace_route_from_response drv old e ifx ifn ?s)))"
      if "\<not> is_local old" for ifx ifn
      using rib_ok_refresh [OF s] that old e Some
      by (intro rib_ok_replace_step [where r = "old\<lparr> timeout_cnt := 0 \<rparr>"]) (simp_all add: refresh_get_route)
    have better: "rib_ok (database (fst (replace_route_from_response drv old e ifx ifn s)))"
      if "\<not> is_local old" for ifx ifn
      using s that old e Some by (intro rib_ok_replace_step [where r = old]) simp_all
    show ?thesis
      using reachable Some same better s rib_ok_refresh [OF s]
        local_not_from_neighbour [OF old(1) nh] local_not_worse [OF old(1) e]
      by (auto simp: update_route_from_response_def Let_def)
  qed
qed

lemma rib_ok_response_step:
  assumes "rib_ok (database s)" and "sa_ip (source packet) \<noteq> 0"
    and "response_entry_to_route e packet = Some re"
  shows "rib_ok (database (fst (update_route_from_response os drv re info s)))"
  using assms response_route_ok [OF assms(3,2)] response_route_fields(1) [OF assms(3)]
  by (intro rib_ok_update) auto

lemma rib_ok_handle_packet:
  assumes "rib_ok (database s)" and "sa_ip (source packet) \<noteq> 0"
  shows "rib_ok (database (fst (handle_packet os drv packet s)))"
proof -
  let ?step = "\<lambda>e s. case response_entry_to_route e packet of
      None \<Rightarrow> (s, Inr ())
    | Some route_entry \<Rightarrow> update_route_from_response os drv route_entry (if_info packet) s"
  have "keeps (\<lambda>s. rib_ok (database s)) (for_each ?step (entries (packet_data packet)))"
    by (rule keeps_for_each, rule keepsI)
       (auto split: option.splits intro: rib_ok_response_step [OF _ assms(2)])
  from keepsD [OF this assms(1)] show ?thesis
    using assms(1)
    by (auto simp: handle_packet_def handle_response_packet_def)
qed

end
