(* ===== verification/Rip_Deamon_Fib.thy ===== *)
theory Rip_Deamon_Fib
  imports Rip_Deamon_Inv
begin

text \<open>
  Consistency of the routing information base and the kernel's table. \<open>installed\<close> is the set of
  route messages the database says are in the kernel; \<open>fib_ok\<close> says the kernel has exactly those.
  The lemmas of the locale \<open>fib_driver\<close> show that a handler that succeeds keeps it.
\<close>

section \<open>What should be installed\<close>

definition installed :: "RipDatabase \<Rightarrow> RouteMessage set" where
  "installed db = build_route_message ` set (filter in_routing_table (hm_values (ok_routes db)))"

lemma installed_iff:
  assumes "rib_ok db"
  shows "m \<in> installed db \<longleftrightarrow>
    (\<exists>k r. hm_get (ok_routes db) k = Some r \<and> \<not> is_local r \<and> m = build_route_message r)"
proof -
  have "in_routing_table r = (\<not> is_local r)" if "hm_get (ok_routes db) k = Some r" for k r
    using db_wf_ok [OF rib_ok_wf [OF assms] that] by (simp add: ok_entry_def)
  then show ?thesis
    using db_wf_maps [OF rib_ok_wf [OF assms]]
    by (force simp: installed_def image_iff hm_values_iff)
qed

lemma remote_mask_valid: "route_ok r \<Longrightarrow> \<not> is_local r \<Longrightarrow> is_net_mask_valid (subnet_mask (rip_entry r))"
  by (simp add: route_ok_def remote_entry_ok_def)

lemma same_slot_in_rib:
  assumes db: "rib_ok db" and r: "hm_get (ok_routes db) k = Some r" "\<not> is_local r"
    and r': "is_net_mask_valid (subnet_mask (rip_entry r'))"
    and slot: "same_slot (build_route_message r) (build_route_message r')"
  shows "k = build_route_key (rip_entry r')"
proof -
  have "is_net_mask_valid (subnet_mask (rip_entry r))"
    using rib_ok_ok_route [OF db r(1)] r(2) by (rule remote_mask_valid)
  then have "build_route_key (rip_entry r) = build_route_key (rip_entry r')"
    using r' slot by (rule same_slot_same_key)
  then show ?thesis
    using db_wf_ok [OF rib_ok_wf [OF db] r(1)] by (simp add: ok_entry_def)
qed

lemma installed_drop:
  assumes db: "rib_ok db" and old: "get_route db e = Some old" "\<not> is_local old"
  shows "installed (db_drop_ok (build_route_key e) db) = installed db - {build_route_message old}"
proof (rule set_eqI)
  fix m
  have key: "build_route_key (rip_entry old) = build_route_key e" and ok: "route_ok old"
    using rib_ok_route [OF db old(1)] by auto
  have valid: "is_net_mask_valid (subnet_mask (rip_entry old))"
    using ok old(2) by (rule remote_mask_valid)
  have unique: "k = build_route_key e"
    if "hm_get (ok_routes db) k = Some r" "\<not> is_local r" "build_route_message r = build_route_message old"
    for k r
    using same_slot_in_rib [OF db that(1,2) valid] that(3) key by (simp add: same_slot_def)
  have old_route: "hm_get (ok_routes db) (build_route_key e) = Some old"
    using old(1) by (simp add: get_route_def)
  have "m \<in> installed (db_drop_ok (build_route_key e) db) \<longleftrightarrow>
      (\<exists>k r. k \<noteq> build_route_key e \<and> hm_get (ok_routes db) k = Some r \<and> \<not> is_local r
        \<and> m = build_route_message r)"
    unfolding installed_iff [OF rib_ok_drop_ok [OF db]]
    by (simp add: db_drop_ok_def hm_get_Some del: hm_get_remove)
  also have "\<dots> \<longleftrightarrow> m \<in> installed db \<and> m \<noteq> build_route_message old"
    unfolding installed_iff [OF db]
  proof (intro iffI conjI; elim exE conjE)
    fix k r
    assume r: "hm_get (ok_routes db) k = Some r" "\<not> is_local r" "m = build_route_message r"
    then show "\<exists>k r. hm_get (ok_routes db) k = Some r \<and> \<not> is_local r \<and> m = build_route_message r"
      by blast
    assume "k \<noteq> build_route_key e"
    then show "m \<noteq> build_route_message old"
      using unique [OF r(1,2)] r(3) by argo
  next
    fix k r
    assume r: "hm_get (ok_routes db) k = Some r" "\<not> is_local r" "m = build_route_message r"
      and "m \<noteq> build_route_message old"
    then have "k \<noteq> build_route_key e" using old_route by auto
    with r show "\<exists>k r. k \<noteq> build_route_key e \<and> hm_get (ok_routes db) k = Some r \<and> \<not> is_local r
        \<and> m = build_route_message r"
      by blast
  qed
  finally show "m \<in> installed (db_drop_ok (build_route_key e) db) \<longleftrightarrow>
      m \<in> installed db - {build_route_message old}"
    by simp
qed

lemma installed_drop_garbage [simp]: "installed (db_drop_garbage k db) = installed db"
  by (simp add: installed_def db_drop_garbage_def)

lemma installed_withdraw [simp]: "installed (db_withdraw k g db) = installed (db_drop_ok k db)"
  by (simp add: installed_def db_withdraw_def db_drop_ok_def)

lemma installed_store:
  assumes db: "rib_ok db" and e: "remote_entry_ok e"
    and free: "get_route db e = None" "\<not> has_garbage_route db e"
  shows "installed (db_store (new_db_entry e ifx ifn False) db) =
    insert (build_route_message (new_db_entry e ifx ifn False)) (installed db)"
proof (rule set_eqI)
  fix m
  let ?r = "new_db_entry e ifx ifn False"
  have db': "rib_ok (db_store ?r db)"
    using db free(2) e by (intro rib_ok_store new_remote_route_ok) simp_all
  show "m \<in> installed (db_store ?r db) \<longleftrightarrow> m \<in> insert (build_route_message ?r) (installed db)"
    using free(1) unfolding installed_iff [OF db] installed_iff [OF db'] insert_iff
    by (simp add: db_store_def get_route_def hm_get_Some del: hm_get_insert)
       (metis new_db_entry_fields(5) option.distinct(1))
qed

lemma free_slot:
  assumes db: "rib_ok db" and e: "remote_entry_ok e" and free: "get_route db e = None"
  shows "\<forall>m \<in> installed db. \<not> same_slot m (build_route_message (new_db_entry e ifx ifn False))"
proof (intro ballI notI)
  fix m
  assume "m \<in> installed db" and slot: "same_slot m (build_route_message (new_db_entry e ifx ifn False))"
  then obtain k r where r: "hm_get (ok_routes db) k = Some r" "\<not> is_local r" "m = build_route_message r"
    unfolding installed_iff [OF db] by blast
  have "k = build_route_key (rip_entry (new_db_entry e ifx ifn False))"
    using db r(1,2) _ slot [unfolded r(3)]
    by (rule same_slot_in_rib) (use e in \<open>simp add: remote_entry_ok_def\<close>)
  with r(1) free show False by (simp add: get_route_def)
qed

lemma installed_map_values:
  assumes "\<And>r. in_routing_table (f r) = in_routing_table r"
    and "\<And>r. build_route_message (f r) = build_route_message r"
  shows "installed (db\<lparr> ok_routes := hm_map_values f (ok_routes db) \<rparr>) = installed db"
proof -
  have "build_route_message ` set (filter in_routing_table (map f rs)) =
      build_route_message ` set (filter in_routing_table rs)" for rs
    using assms by (induction rs) simp_all
  then show ?thesis by (simp add: installed_def del: set_filter set_map)
qed

lemma installed_frame [simp]:
  "installed (db\<lparr> garbage_routes := g \<rparr>) = installed db"
  "installed (db\<lparr> any_changed := c \<rparr>) = installed db"
  by (simp_all add: installed_def)

lemma installed_collect [simp]: "installed (fst (collect_timed_out_routes inc limit db)) = installed db"
  unfolding collect_state by (rule installed_map_values) (simp, rule message_of_fields, simp_all)

lemma mark_unchanged_fields [simp]:
  "rip_entry (mark_unchanged r) = rip_entry r" "if_index (mark_unchanged r) = if_index r"
  "in_routing_table (mark_unchanged r) = in_routing_table r" "is_local (mark_unchanged r) = is_local r"
  by (simp_all add: mark_unchanged_def)

lemma installed_mark_all [simp]: "installed (mark_all_routes_as_unchanged db) = installed db"
proof -
  have "installed (db\<lparr> ok_routes := hm_map_values mark_unchanged (ok_routes db) \<rparr>) = installed db"
    by (rule installed_map_values) (simp, rule message_of_fields, simp_all)
  then show ?thesis
    by (simp add: installed_def mark_all_routes_as_unchanged_def del: hm_values_map_values)
qed

lemma installed_remove_expired [simp]:
  "installed (fst (remove_expired_garbage_routes now lifetime db)) = installed db"
  by (simp add: installed_def)

lemma refreshed_local: "is_local (r\<lparr> timeout_cnt := 0 \<rparr>) = is_local r"
  by simp

lemma installed_refresh:
  assumes "rib_ok db"
  shows "installed (refresh_route_timeout e db) = installed db"
proof (rule set_eqI)
  fix m
  have same: "build_route_message (r\<lparr> timeout_cnt := 0 \<rparr>) = build_route_message r" for r
    by (rule message_of_fields) simp_all
  show "m \<in> installed (refresh_route_timeout e db) \<longleftrightarrow> m \<in> installed db"
    unfolding installed_iff [OF assms] installed_iff [OF rib_ok_refresh [OF assms]]
    by (simp add: refresh_route_timeout_def hm_get_Some del: hm_get_modify)
       (metis same refreshed_local)
qed

lemma installed_new [simp]: "installed RipDatabase_new = {}"
  by (simp add: installed_def RipDatabase_new_def hm_new_def hm_values_def)

lemma installed_add_local:
  assumes "rib_ok db" and "local_entry_ok e"
  shows "installed (fst (add_local_route e ifx ifn db)) = installed db"
proof (cases "get_route db e")
  case None
  let ?r = "new_db_entry e ifx ifn True"
  have db': "rib_ok (db_store ?r db)"
    using assms by (intro rib_ok_store) (simp_all add: route_ok_def)
  have "m \<in> installed (db_store ?r db) \<longleftrightarrow> m \<in> installed db" for m
    using None unfolding installed_iff [OF assms(1)] installed_iff [OF db']
    by (simp add: db_store_def get_route_def hm_get_Some del: hm_get_insert)
       (metis new_db_entry_fields(5) option.distinct(1))
  with None show ?thesis by (auto simp: add_local_route_eq)
next
  case (Some r)
  then show ?thesis by (simp add: add_local_route_eq)
qed

section \<open>Handlers\<close>

text \<open>
  The two halves of a state that is in order: the routing invariant and agreement with the kernel.
\<close>

context fib_driver
begin

definition fib_ok :: "('d, 'n) RipDeamon \<Rightarrow> bool" where
  "fib_ok s \<longleftrightarrow> rib_ok (database s) \<and> fib (driver (routing_table s)) = installed (database s)"

lemma fib_okD:
  "fib_ok s \<Longrightarrow> rib_ok (database s)"
  "fib_ok s \<Longrightarrow> fib (driver (routing_table s)) = installed (database s)"
  by (simp_all add: fib_ok_def)

lemma fib_ok_world [simp]: "fib_ok (s\<lparr> world := n \<rparr>) = fib_ok s"
  by (simp add: fib_ok_def)

lemma fib_ok_refresh: "fib_ok s \<Longrightarrow> fib_ok (s\<lparr> database := refresh_route_timeout e (database s) \<rparr>)"
  by (simp add: fib_ok_def rib_ok_refresh installed_refresh)

lemma fib_ok_replace:
  assumes s: "fib_ok s" and r: "get_route (database s) e = Some r" "\<not> is_local r"
    and same: "rip_entry old = rip_entry r" "if_index old = if_index r"
    and e: "remote_entry_ok e"
    and ok: "snd (replace_route_from_response drv old e ifx ifn s) = Inr ()"
  shows "fib_ok (fst (replace_route_from_response drv old e ifx ifn s))"
proof -
  note rib = fib_okD(1) [OF s]
  have key: "build_route_key (rip_entry old) = build_route_key e"
    using rib_ok_route [OF rib r(1)] same(1) by simp
  have old: "get_route (database s) (rip_entry old) = Some r"
    using r(1) key by (simp add: get_route_def)
  let ?new = "new_db_entry e ifx ifn False"
  from ok obtain rt rt' where del: "RoutingTable_delete_route drv old (routing_table s) = (rt, Inr ())"
      and add: "RoutingTable_add_route drv ?new rt = (rt', Inr ())"
      and res: "fst (replace_route_from_response drv old e ifx ifn s) =
        s\<lparr> routing_table := rt', database := db_replace e ifx ifn (database s) \<rparr>"
    by (cases "RoutingTable_delete_route drv old (routing_table s)";
        cases "snd (RoutingTable_delete_route drv old (routing_table s))";
        cases "RoutingTable_add_route drv ?new (fst (RoutingTable_delete_route drv old (routing_table s)))")
       (auto simp: replace_effect [OF old key] delete_result_def)
  let ?dropped = "db_drop_ok (build_route_key e) (database s)"
  have msg: "build_route_message old = build_route_message r"
    using same by (rule message_of_fields)
  have fib1: "fib (driver rt) = installed ?dropped"
    using table_delete_ok [OF del] fib_okD(2) [OF s] installed_drop [OF rib r] msg by simp
  have dropped: "rib_ok ?dropped" "get_route ?dropped e = None" "\<not> has_garbage_route ?dropped e"
    using rib rib_ok_no_garbage [OF rib r] by (simp_all add: rib_ok_drop_ok)
  have "fib (driver rt') = insert (build_route_message ?new) (installed ?dropped)"
    using table_add_ok [OF add] free_slot [OF dropped(1) e dropped(2)] fib1 by simp
  then show ?thesis
    using rib_ok_replace [OF rib r e] installed_store [OF dropped(1) e dropped(2,3)]
    unfolding res fib_ok_def by (simp add: db_replace_def)
qed

lemma fib_ok_learn:
  assumes s: "fib_ok s" and e: "remote_entry_ok e" and fresh: "get_route (database s) e = None"
    and ok: "snd (update_route_from_response os drv e info s) = Inr ()"
  shows "fib_ok (fst (update_route_from_response os drv e info s))"
proof -
  note rib = fib_okD(1) [OF s]
  let ?new = "new_db_entry e (info_if_index info) (info_if_name info) False"
  have fin: "\<not> metric e \<ge> RIP_INFINITY_METRIC"
    using e by (auto simp: remote_entry_ok_def not_le)
  from ok obtain rt where add: "RoutingTable_add_route drv ?new (routing_table s) = (rt, Inr ())"
      and res: "fst (update_route_from_response os drv e info s) =
        s\<lparr> routing_table := rt,
            database := db_learn e (info_if_index info) (info_if_name info) (database s) \<rparr>"
    by (cases "RoutingTable_add_route drv ?new (routing_table s)") (auto simp: learn_effect [OF fresh fin])
  let ?dropped = "db_drop_garbage (build_route_key e) (database s)"
  have dropped: "rib_ok ?dropped" "get_route ?dropped e = None" "\<not> has_garbage_route ?dropped e"
    using rib fresh by (simp_all add: rib_ok_drop_garbage)
  have "fib (driver rt) = insert (build_route_message ?new) (installed ?dropped)"
    using table_add_ok [OF add] free_slot [OF dropped(1) e dropped(2)] fib_okD(2) [OF s] by simp
  then show ?thesis
    using rib_ok_learn [OF rib e] installed_store [OF dropped(1) e dropped(2,3)]
    unfolding res fib_ok_def by (simp add: db_learn_def)
qed

lemma fib_ok_poison:
  assumes s: "fib_ok s" and nh: "next_hop e \<noteq> 0"
    and ok: "snd (handle_poisoned_route_from_response os drv e ifx s) = Inr ()"
  shows "fib_ok (fst (handle_poisoned_route_from_response os drv e ifx s))"
proof -
  note rib = fib_okD(1) [OF s]
  have "fib (driver rt) = installed (db_drop_ok (build_route_key e) (database s))"
    if "get_route (database s) e = Some old" "route_is_from_current_next_hop old e"
      "delete_result drv old s = (rt, Inr ())" for old rt
  proof -
    have "\<not> is_local old"
      using rib_ok_route [OF rib that(1)] that(2) nh local_not_from_neighbour by blast
    then show ?thesis
      using table_delete_ok [of old "routing_table s" rt] that fib_okD(2) [OF s]
        installed_drop [OF rib that(1)]
      by (simp add: delete_result_def)
  qed
  then show ?thesis
    using s ok rib_ok_poison [OF rib nh, of os drv ifx]
    by (auto simp: fib_ok_def poison_effect [OF rib nh] split: option.splits prod.splits sum.splits)
qed

lemma fib_ok_update:
  assumes s: "fib_ok s" and nh: "next_hop e \<noteq> 0"
    and e: "\<not> metric e \<ge> RIP_INFINITY_METRIC \<Longrightarrow> remote_entry_ok e"
    and ok: "snd (update_route_from_response os drv e info s) = Inr ()"
  shows "fib_ok (fst (update_route_from_response os drv e info s))"
proof (cases "metric e \<ge> RIP_INFINITY_METRIC")
  case True
  then show ?thesis
    using s nh ok by (simp add: update_route_from_response_def Let_def fib_ok_poison)
next
  case reachable: False
  then have e: "remote_entry_ok e" by (rule e)
  show ?thesis
  proof (cases "get_route (database s) e")
    case None
    then show ?thesis using s e ok by (simp add: fib_ok_learn)
  next
    case (Some old)
    have old: "route_ok old" using rib_ok_route [OF fib_okD(1) [OF s] Some] by simp
    let ?s = "s\<lparr> database := refresh_route_timeout e (database s) \<rparr>"
    have same: "fib_ok (fst (replace_route_from_response drv old e ifx ifn ?s))"
      if "\<not> is_local old" "snd (replace_route_from_response drv old e ifx ifn ?s) = Inr ()" for ifx ifn
      using fib_ok_refresh [OF s] that e Some
      by (intro fib_ok_replace [where r = "old\<lparr> timeout_cnt := 0 \<rparr>"]) (simp_all add: refresh_get_route)
    have better: "fib_ok (fst (replace_route_from_response drv old e ifx ifn s))"
      if "\<not> is_local old" "snd (replace_route_from_response drv old e ifx ifn s) = Inr ()" for ifx ifn
      using s that e Some by (intro fib_ok_replace [where r = old]) simp_all
    show ?thesis
      using reachable Some same better ok s fib_ok_refresh [OF s]
        local_not_from_neighbour [OF old nh] local_not_worse [OF old e]
      by (auto simp: update_route_from_response_def Let_def split: if_splits)
  qed
qed

lemma fib_ok_for_each:
  assumes "\<And>x s. x \<in> set xs \<Longrightarrow> fib_ok s \<Longrightarrow> snd (f x s) = Inr () \<Longrightarrow> fib_ok (fst (f x s))"
    and "fib_ok s" and "snd (for_each f xs s) = Inr ()"
  shows "fib_ok (fst (for_each f xs s))"
  using assms
proof (induction xs arbitrary: s)
  case (Cons x xs)
  then show ?case
    by (cases "f x s"; cases "snd (f x s)") (auto, metis fst_conv snd_conv)
qed simp

lemma fib_ok_handle_packet:
  assumes "fib_ok s" and "sa_ip (source packet) \<noteq> 0"
    and "snd (handle_packet os drv packet s) = Inr ()"
  shows "fib_ok (fst (handle_packet os drv packet s))"
proof -
  let ?step = "\<lambda>e s. case response_entry_to_route e packet of
      None \<Rightarrow> (s, Inr ())
    | Some route_entry \<Rightarrow> update_route_from_response os drv route_entry (if_info packet) s"
  have "fib_ok (fst (for_each ?step (entries (packet_data packet)) s))"
    if "snd (for_each ?step (entries (packet_data packet)) s) = Inr ()"
  proof (rule fib_ok_for_each [OF _ assms(1) that])
    fix e s assume "fib_ok s" "snd (?step e s) = Inr ()"
    then show "fib_ok (fst (?step e s))"
      using assms(2) response_route_ok [of e packet] response_route_fields(1) [of e packet]
      by (auto split: option.splits intro: fib_ok_update)
  qed
  then show ?thesis
    using assms by (auto simp: handle_packet_def handle_response_packet_def split: if_splits)
qed

end

end
