(* ===== verification/Rip_Deamon_Timers.thy ===== *)
theory Rip_Deamon_Timers
  imports Rip_Deamon_Fib
begin

text \<open>
  The timer handlers: route timeouts, garbage collection and shutdown. The timeout tick works off
  a list collected before any route is withdrawn; \<open>pending\<close> is the loop invariant that the rest
  of that list is still in the database, each destination once.
\<close>

section \<open>Work lists\<close>

definition route_key :: "RipDbEntry \<Rightarrow> RipRouteKey" where
  "route_key r = build_route_key (rip_entry r)"

lemma route_key_age [simp]: "route_key (age inc r) = route_key r"
  by (simp add: route_key_def)

definition pending :: "RipDatabase \<Rightarrow> RipDbEntry list \<Rightarrow> bool" where
  "pending db rs \<longleftrightarrow>
     distinct (map route_key rs)
     \<and> (\<forall>r \<in> set rs. hm_get (ok_routes db) (route_key r) = Some r \<and> \<not> is_local r)"

lemma hm_values_keys:
  assumes "db_wf db"
  shows "map route_key (hm_values (ok_routes db)) = map fst (ok_routes db)"
proof -
  have "route_key v = k" if "(k, v) \<in> set (ok_routes db)" for k v
    using that db_wf_maps [OF assms] db_wf_ok [OF assms]
    by (auto simp: hm_get_in_set ok_entry_def route_key_def)
  then show ?thesis by (auto simp: hm_values_def)
qed

lemma set_map_filter_iff: "y \<in> set (List.map_filter g xs) \<longleftrightarrow> (\<exists>x \<in> set xs. g x = Some y)"
  by (force simp: List.map_filter_def)

lemma distinct_keys_map_filter:
  assumes "distinct (map f xs)" and "\<And>x y. g x = Some y \<Longrightarrow> f y = f x"
  shows "distinct (map f (List.map_filter g xs))"
  using assms
proof (induction xs)
  case (Cons x xs)
  then have IH: "distinct (map f (List.map_filter g xs))" by simp
  show ?case
  proof (cases "g x")
    case (Some y)
    have "f y \<notin> f ` set (List.map_filter g xs)"
      using Cons.prems Some by (force simp: set_map_filter_iff)
    then show ?thesis using IH Some by (simp add: List.map_filter_simps)
  qed (use IH in \<open>simp add: List.map_filter_simps\<close>)
qed (simp add: List.map_filter_simps)

lemma pending_collect:
  assumes "db_wf db"
  shows "pending (fst (collect_timed_out_routes inc limit db)) (snd (collect_timed_out_routes inc limit db))"
  unfolding pending_def
proof
  have "route_key y = route_key x" if "snd (timeout_closure inc limit x) = Some y" for x y
    using that by (auto simp: timeout_closure_snd split: if_splits)
  then show "distinct (map route_key (snd (collect_timed_out_routes inc limit db)))"
    using db_wf_maps [OF assms] hm_values_keys [OF assms]
    by (auto simp: collect_timed_out_routes_def hm_wf_def intro!: distinct_keys_map_filter)
  show "\<forall>r \<in> set (snd (collect_timed_out_routes inc limit db)).
      hm_get (ok_routes (fst (collect_timed_out_routes inc limit db))) (route_key r) = Some r \<and> \<not> is_local r"
    using db_wf_maps [OF assms] db_wf_ok [OF assms]
    by (auto simp: collect_result collect_state ok_entry_def route_key_def)
qed

lemma pending_withdraw:
  "pending db (r # rs) \<Longrightarrow> pending (db_withdraw (route_key r) g db) rs"
  by (auto simp: pending_def db_withdraw_def image_iff)

section \<open>Expiring one route\<close>

lemma expire_effect:
  assumes "rib_ok (database s)" and "pending (database s) (r # rs)"
  shows "expire_route os drv r s =
    (case delete_result drv r s of
       (rt, Inl err) \<Rightarrow> (s\<lparr> routing_table := rt \<rparr>, Inl err)
     | (rt, Inr _) \<Rightarrow>
         (case instant_now os (world s) of (n, now) \<Rightarrow>
            (s\<lparr> routing_table := rt, world := n,
                database := db_withdraw (route_key r) (to_garbage now r) (database s) \<rparr>, Inr ())))"
proof -
  have r: "get_route (database s) (rip_entry r) = Some r" "\<not> is_local r"
    using assms(2) by (simp_all add: pending_def get_route_def route_key_def)
  then have "\<not> has_garbage_route (database s) (rip_entry r)"
    by (rule rib_ok_no_garbage [OF assms(1)])
  with r show ?thesis
    by (cases "delete_result drv r s"; cases "snd (delete_result drv r s)")
       (auto simp: expire_route_def delete_result_def on_field_eqs move_to_garbage_ok db_withdraw_def
          route_key_def split: prod.splits)
qed

lemma rib_ok_withdraw_pending:
  assumes "rib_ok db" and "pending db (r # rs)"
  shows "rib_ok (db_withdraw (route_key r) (to_garbage t r) db)"
  using assms by (intro rib_ok_withdraw garbage_entry_to_garbage)
    (simp_all add: pending_def route_key_def to_garbage_def)

text \<open>
  The loop over the collected list: it keeps the invariant, and when it ends without an error
  every listed destination has moved to the garbage and nothing else has changed.
\<close>

definition withdrawn :: "RipDbEntry list \<Rightarrow> RipDatabase \<Rightarrow> RipDatabase \<Rightarrow> bool" where
  "withdrawn rs db db' \<longleftrightarrow>
     (\<forall>k. if k \<in> route_key ` set rs
          then hm_get (ok_routes db') k = None
            \<and> (\<exists>t. \<exists>r \<in> set rs. route_key r = k \<and> hm_get (garbage_routes db') k = Some (to_garbage t r))
          else hm_get (ok_routes db') k = hm_get (ok_routes db) k
            \<and> hm_get (garbage_routes db') k = hm_get (garbage_routes db) k)
     \<and> any_changed db' = (rs \<noteq> [] \<or> any_changed db)"

lemma withdrawn_Nil [simp]: "withdrawn [] db db"
  by (simp add: withdrawn_def)

lemma withdrawn_Cons:
  assumes "withdrawn rs (db_withdraw (route_key r) (to_garbage t r) db) db'"
  shows "withdrawn (r # rs) db db'"
proof -
  have "if k \<in> route_key ` set (r # rs)
        then hm_get (ok_routes db') k = None
          \<and> (\<exists>t. \<exists>r' \<in> set (r # rs). route_key r' = k \<and> hm_get (garbage_routes db') k = Some (to_garbage t r'))
        else hm_get (ok_routes db') k = hm_get (ok_routes db) k
          \<and> hm_get (garbage_routes db') k = hm_get (garbage_routes db) k" for k
    using assms unfolding withdrawn_def
    by (elim conjE allE [of _ k]) (auto simp: db_withdraw_def split: if_splits, blast)
  moreover have "any_changed db' = (r # rs \<noteq> [] \<or> any_changed db)"
    using assms by (simp add: withdrawn_def db_withdraw_def)
  ultimately show ?thesis unfolding withdrawn_def by blast
qed

lemma expire_all:
  assumes "rib_ok (database s)" and "pending (database s) rs"
  shows "rib_ok (database (fst (for_each (expire_route os drv) rs s)))"
    and "snd (for_each (expire_route os drv) rs s) = Inr () \<Longrightarrow>
      withdrawn rs (database s) (database (fst (for_each (expire_route os drv) rs s)))"
    and "snd (for_each (expire_route os drv) rs s) = Inl err \<Longrightarrow>
      \<exists>d r. snd (drv_delete_route drv d r) = Inl err"
proof -
  have "rib_ok (database (fst (for_each (expire_route os drv) rs s)))
    \<and> (snd (for_each (expire_route os drv) rs s) = Inr () \<longrightarrow>
        withdrawn rs (database s) (database (fst (for_each (expire_route os drv) rs s))))
    \<and> (snd (for_each (expire_route os drv) rs s) = Inl err \<longrightarrow>
        (\<exists>d r. snd (drv_delete_route drv d r) = Inl err))"
    using assms
  proof (induction rs arbitrary: s)
    case (Cons r rs)
    obtain rt res where del: "delete_result drv r s = (rt, res)" by fastforce
    obtain n now where now: "instant_now os (world s) = (n, now)" by fastforce
    show ?case
    proof (cases res)
      case (Inl e)
      moreover have "snd (drv_delete_route drv (driver (routing_table s)) r) = Inl e"
        using del Inl by (auto simp: delete_result_def RoutingTable_delete_route_def split: prod.splits)
      ultimately show ?thesis
        using Cons.prems del by (auto simp: expire_effect [OF Cons.prems])
    next
      case (Inr u)
      let ?s = "s\<lparr> routing_table := rt, world := n,
          database := db_withdraw (route_key r) (to_garbage now r) (database s) \<rparr>"
      have step: "for_each (expire_route os drv) (r # rs) s = for_each (expire_route os drv) rs ?s"
        using del now Inr by (simp add: expire_effect [OF Cons.prems])
      have "rib_ok (database ?s)" "pending (database ?s) rs"
        using rib_ok_withdraw_pending [OF Cons.prems] pending_withdraw [OF Cons.prems(2)] by simp_all
      from Cons.IH [OF this] show ?thesis
        unfolding step
        using withdrawn_Cons [where t = now and db = "database s" and db' = "database (fst (for_each (expire_route os drv) rs ?s))"]
        by auto
    qed
  qed simp
  then show "rib_ok (database (fst (for_each (expire_route os drv) rs s)))"
    and "snd (for_each (expire_route os drv) rs s) = Inr () \<Longrightarrow>
      withdrawn rs (database s) (database (fst (for_each (expire_route os drv) rs s)))"
    and "snd (for_each (expire_route os drv) rs s) = Inl err \<Longrightarrow>
      \<exists>d r. snd (drv_delete_route drv d r) = Inl err"
    by blast+
qed

section \<open>The timeout tick\<close>

definition timed_out :: "'n os \<Rightarrow> RipDatabase \<Rightarrow> RipDbEntry list" where
  "timed_out os db = snd (collect_timed_out_routes (timeout_check_interval_secs os) (route_timeout_secs os) db)"

definition aged :: "'n os \<Rightarrow> RipDatabase \<Rightarrow> RipDatabase" where
  "aged os db = fst (collect_timed_out_routes (timeout_check_interval_secs os) (route_timeout_secs os) db)"

lemma aged_ok: "rib_ok db \<Longrightarrow> rib_ok (aged os db) \<and> pending (aged os db) (timed_out os db)"
  by (simp add: aged_def timed_out_def rib_ok_collect pending_collect rib_ok_wf)

definition after_expiry ::
  "'n os \<Rightarrow> 'd RoutingTableDriver \<Rightarrow> ('d, 'n) RipDeamon \<Rightarrow> ('d, 'n) RipDeamon \<times> unit RipResult" where
  "after_expiry os drv s =
     for_each (expire_route os drv) (timed_out os (database s)) (s\<lparr> database := aged os (database s) \<rparr>)"

lemma timeout_tick_frame:
  "database (fst (fst (handle_route_timeout_tick os drv (s, gc)))) = database (fst (after_expiry os drv s))"
  "routing_table (fst (fst (handle_route_timeout_tick os drv (s, gc)))) =
     routing_table (fst (after_expiry os drv s))"
  "snd (handle_route_timeout_tick os drv (s, gc)) = snd (after_expiry os drv s)"
  by (auto simp: handle_route_timeout_tick_def after_expiry_def aged_def timed_out_def Let_def
      on_database_eq sleep_timer_def on_world_eq split: prod.splits sum.splits)

lemma timeout_tick_timer:
  assumes "handle_route_timeout_tick os drv (s, gc) = ((s', gc'), Inr ())"
  shows "(gc' = None) = (gc = None \<and> timed_out os (database s) = [])"
    and "gc \<noteq> None \<Longrightarrow> gc' = gc"
  using assms
  by (auto simp: handle_route_timeout_tick_def timed_out_def Let_def on_database_eq sleep_timer_def
      on_world_eq split: prod.splits sum.splits if_splits)

lemma rib_ok_after_expiry:
  assumes "rib_ok (database s)"
  shows "rib_ok (database (fst (after_expiry os drv s)))"
  using aged_ok [OF assms, of os] unfolding after_expiry_def by (intro expire_all(1)) simp_all

lemma after_expiry_withdrawn:
  assumes "rib_ok (database s)" and "snd (after_expiry os drv s) = Inr ()"
  shows "withdrawn (timed_out os (database s)) (aged os (database s)) (database (fst (after_expiry os drv s)))"
proof -
  let ?s = "s\<lparr> database := aged os (database s) \<rparr>"
  have "rib_ok (database ?s)" "pending (database ?s) (timed_out os (database s))"
    using aged_ok [OF assms(1), of os] by simp_all
  from expire_all(2) [OF this] show ?thesis
    using assms(2) by (simp add: after_expiry_def)
qed

lemma after_expiry_error:
  assumes "rib_ok (database s)" and "snd (after_expiry os drv s) = Inl err"
  shows "\<exists>d r. snd (drv_delete_route drv d r) = Inl err"
proof -
  let ?s = "s\<lparr> database := aged os (database s) \<rparr>"
  have "rib_ok (database ?s)" "pending (database ?s) (timed_out os (database s))"
    using aged_ok [OF assms(1), of os] by simp_all
  from expire_all(3) [OF this] show ?thesis
    using assms(2) by (simp add: after_expiry_def)
qed

text \<open>What one check does to a destination.\<close>

definition timed_out_route :: "'n os \<Rightarrow> RipDbEntry \<Rightarrow> bool" where
  "timed_out_route os r \<longleftrightarrow>
     \<not> is_local r \<and> route_timeout_secs os \<le> timeout_cnt (age (timeout_check_interval_secs os) r)"

lemma timed_out_keys:
  assumes "db_wf db"
  shows "k \<in> route_key ` set (timed_out os db) \<longleftrightarrow>
    (\<exists>r. hm_get (ok_routes db) k = Some r \<and> timed_out_route os r)"
proof -
  have "route_key r = k" if "hm_get (ok_routes db) k = Some r" for k r
    using db_wf_ok [OF assms that] by (simp add: ok_entry_def route_key_def)
  then show ?thesis
    using db_wf_maps [OF assms]
    by (force simp: timed_out_def collect_result timed_out_route_def image_iff)
qed

lemma timed_out_member:
  assumes "db_wf db" and "r' \<in> set (timed_out os db)" and "hm_get (ok_routes db) (route_key r') = Some r"
  shows "r' = age (timeout_check_interval_secs os) r"
proof -
  obtain k r0 where r0: "hm_get (ok_routes db) k = Some r0" "r' = age (timeout_check_interval_secs os) r0"
    using assms(2) db_wf_maps [OF assms(1)] by (auto simp: timed_out_def collect_result)
  have "route_key r' = k"
    using db_wf_ok [OF assms(1) r0(1)] r0(2) by (simp add: ok_entry_def route_key_def)
  with assms(3) r0 show ?thesis by simp
qed

lemma after_expiry_route:
  assumes "rib_ok (database s)" and "snd (after_expiry os drv s) = Inr ()"
    and "hm_get (ok_routes (database s)) k = Some r"
  defines "s' \<equiv> fst (after_expiry os drv s)" and "r' \<equiv> age (timeout_check_interval_secs os) r"
  shows "if timed_out_route os r
    then hm_get (ok_routes (database s')) k = None
      \<and> (\<exists>t. hm_get (garbage_routes (database s')) k = Some (to_garbage t r'))
    else hm_get (ok_routes (database s')) k = Some r'
      \<and> hm_get (garbage_routes (database s')) k = hm_get (garbage_routes (database s)) k"
proof -
  note wf = rib_ok_wf [OF assms(1)]
  have w: "if k \<in> route_key ` set (timed_out os (database s))
      then hm_get (ok_routes (database s')) k = None
        \<and> (\<exists>t. \<exists>r \<in> set (timed_out os (database s)). route_key r = k
              \<and> hm_get (garbage_routes (database s')) k = Some (to_garbage t r))
      else hm_get (ok_routes (database s')) k = hm_get (ok_routes (aged os (database s))) k
        \<and> hm_get (garbage_routes (database s')) k = hm_get (garbage_routes (aged os (database s))) k"
    using after_expiry_withdrawn [OF assms(1,2)] unfolding withdrawn_def s'_def by blast
  then show ?thesis
    using timed_out_keys [OF wf, of k os] timed_out_member [OF wf, of _ os r] assms(3)
    by (cases "timed_out_route os r") (auto simp: aged_def collect_state r'_def, metis)
qed

lemma after_expiry_no_route:
  assumes "rib_ok (database s)" and "snd (after_expiry os drv s) = Inr ()"
    and "hm_get (ok_routes (database s)) k = None"
  shows "hm_get (ok_routes (database (fst (after_expiry os drv s)))) k = None
    \<and> hm_get (garbage_routes (database (fst (after_expiry os drv s)))) k =
      hm_get (garbage_routes (database s)) k"
proof -
  have "k \<notin> route_key ` set (timed_out os (database s))"
    using timed_out_keys [OF rib_ok_wf [OF assms(1)], of k os] assms(3) by simp
  then show ?thesis
    using after_expiry_withdrawn [OF assms(1,2)] assms(3)
    by (auto simp: withdrawn_def aged_def collect_state)
qed

section \<open>Garbage collection\<close>

lemma gc_tick_database:
  "database (fst (handle_garbage_collection_tick os (s, gc))) =
     fst (remove_expired_garbage_routes (snd (instant_now os (world s)))
       (duration_from_secs (garbage_collection_lifetime_secs os)) (database s))"
  by (simp add: handle_garbage_collection_tick_def Let_def on_world_eq on_database_eq sleep_timer_def
      split: prod.splits)

lemma gc_tick_table:
  "routing_table (fst (handle_garbage_collection_tick os (s, gc))) = routing_table s"
  by (simp add: handle_garbage_collection_tick_def Let_def on_world_eq on_database_eq sleep_timer_def
      split: prod.splits)

lemma gc_tick_timer:
  "snd (handle_garbage_collection_tick os (s, gc)) = gc
     \<or> has_garbage_routes (database (fst (handle_garbage_collection_tick os (s, gc))))
       \<and> snd (handle_garbage_collection_tick os (s, gc)) \<noteq> None"
  "has_garbage_routes (database (fst (handle_garbage_collection_tick os (s, gc)))) \<Longrightarrow>
     snd (handle_garbage_collection_tick os (s, gc)) \<noteq> None"
  by (auto simp: handle_garbage_collection_tick_def Let_def on_world_eq on_database_eq sleep_timer_def
      split: prod.splits if_splits)

section \<open>Shutdown\<close>

lemma routes_in_table:
  assumes "rib_ok db"
  shows "set (get_routes_in_routing_table db) = {r. \<exists>k. hm_get (ok_routes db) k = Some r \<and> \<not> is_local r}"
proof -
  have "in_routing_table r = (\<not> is_local r)" if "hm_get (ok_routes db) k = Some r" for k r
    using db_wf_ok [OF rib_ok_wf [OF assms] that] by (simp add: ok_entry_def)
  moreover have "\<not> in_routing_table r" if "hm_get (garbage_routes db) k = Some r" for k r
    using db_wf_garbage [OF rib_ok_wf [OF assms] that] by (simp add: garbage_entry_def)
  ultimately show ?thesis
    using db_wf_maps [OF rib_ok_wf [OF assms]]
    by (auto simp: get_routes_in_routing_table_def hm_values_iff)
qed

lemma installed_routes_in_table:
  "rib_ok db \<Longrightarrow> installed db = build_route_message ` set (get_routes_in_routing_table db)"
  by (auto simp: installed_iff routes_in_table image_iff) blast+

lemma delete_ignoring_errors_frame [simp]:
  "database (delete_ignoring_errors drv rs s) = database s"
  "interfaces (delete_ignoring_errors drv rs s) = interfaces s"
  "world (delete_ignoring_errors drv rs s) = world s"
  by (induction rs arbitrary: s) simp_all

lemma send_advertisement_table [simp]:
  "routing_table (fst (send_multicast_advertisement os chg s)) = routing_table s"
  "interfaces (fst (send_multicast_advertisement os chg s)) = interfaces s"
  by (auto simp: send_multicast_advertisement_def map_err_def on_world_eq and_then_def
      split: prod.splits sum.splits)

lemma rib_ok_send_advertisement:
  "rib_ok (database s) \<Longrightarrow> rib_ok (database (fst (send_multicast_advertisement os chg s)))"
  by (auto simp: send_multicast_advertisement_def map_err_def on_world_eq and_then_def rib_ok_mark_all
      split: prod.splits sum.splits)

section \<open>Agreement with the kernel\<close>

context fib_driver
begin

lemma fib_ok_expire_all:
  assumes "fib_ok s" and "pending (database s) rs" and "snd (for_each (expire_route os drv) rs s) = Inr ()"
  shows "fib_ok (fst (for_each (expire_route os drv) rs s))"
  using assms
proof (induction rs arbitrary: s)
  case (Cons r rs)
  note rib = fib_okD(1) [OF Cons.prems(1)]
  note effect = expire_effect [OF rib Cons.prems(2)]
  obtain n now where now: "instant_now os (world s) = (n, now)" by fastforce
  obtain rt where del: "delete_result drv r s = (rt, Inr ())"
    using Cons.prems(3) by (cases "delete_result drv r s"; cases "snd (delete_result drv r s)") (auto simp: effect)
  let ?s = "s\<lparr> routing_table := rt, world := n,
      database := db_withdraw (route_key r) (to_garbage now r) (database s) \<rparr>"
  have r: "get_route (database s) (rip_entry r) = Some r" "\<not> is_local r"
    using Cons.prems(2) by (simp_all add: pending_def get_route_def route_key_def)
  have "fib (driver rt) = installed (database s) - {build_route_message r}"
    using table_delete_ok [of r "routing_table s" rt] del fib_okD(2) [OF Cons.prems(1)]
    by (simp add: delete_result_def)
  then have "fib_ok ?s"
    using installed_drop [OF rib r] rib_ok_withdraw_pending [OF rib Cons.prems(2)]
    by (simp add: fib_ok_def route_key_def)
  moreover have "pending (database ?s) rs"
    using pending_withdraw [OF Cons.prems(2)] by simp
  ultimately show ?case
    using Cons.IH [of ?s] Cons.prems(3) del now by (simp add: effect)
qed simp

lemma fib_ok_after_expiry:
  assumes "fib_ok s" and "snd (after_expiry os drv s) = Inr ()"
  shows "fib_ok (fst (after_expiry os drv s))"
proof -
  have "fib_ok (s\<lparr> database := aged os (database s) \<rparr>)"
    using assms(1) by (simp add: fib_ok_def aged_def rib_ok_collect)
  then show ?thesis
    using aged_ok [OF fib_okD(1) [OF assms(1)], of os] assms(2)
    unfolding after_expiry_def by (intro fib_ok_expire_all) simp_all
qed

lemma fib_ok_timeout_tick:
  assumes "fib_ok s" and "snd (handle_route_timeout_tick os drv (s, gc)) = Inr ()"
  shows "fib_ok (fst (fst (handle_route_timeout_tick os drv (s, gc))))"
  using fib_ok_after_expiry [OF assms(1), of os] assms(2)
  by (simp add: timeout_tick_frame fib_ok_def)

lemma fib_ok_gc_tick: "fib_ok s \<Longrightarrow> fib_ok (fst (handle_garbage_collection_tick os (s, gc)))"
  by (simp add: fib_ok_def gc_tick_database gc_tick_table rib_ok_remove_expired)

lemma fib_ok_send_advertisement:
  "fib_ok s \<Longrightarrow> fib_ok (fst (send_multicast_advertisement os chg s))"
  by (auto simp: send_multicast_advertisement_def map_err_def on_world_eq and_then_def fib_ok_def
      rib_ok_mark_all split: prod.splits sum.splits)

lemma delete_ignoring_errors_fib:
  assumes "\<And>d r. snd (drv_delete_route drv d r) = Inr ()"
  shows "fib (driver (routing_table (delete_ignoring_errors drv rs s))) =
    fib (driver (routing_table s)) - build_route_message ` set rs"
proof (induction rs arbitrary: s)
  case (Cons r rs)
  have "RoutingTable_delete_route drv r (routing_table s) =
      (fst (RoutingTable_delete_route drv r (routing_table s)), Inr ())"
    using assms by (auto simp: RoutingTable_delete_route_def prod_eq_iff split: prod.splits)
  from table_delete_ok [OF this] show ?case
    by (auto simp: Cons.IH)
qed simp

lemma shutdown_empties_fib:
  assumes "fib_ok s" and "\<And>d r. snd (drv_delete_route drv d r) = Inr ()"
  shows "fib (driver (routing_table (handle_shutdown os drv s))) = {}"
  using fib_okD [OF assms(1)]
  by (simp add: handle_shutdown_def Let_def delete_ignoring_errors_fib [OF assms(2)] installed_routes_in_table)

end

end
