(* ===== verification/Rip_Rib.thy ===== *)
theory Rip_Rib
  imports Rip_Deamon_Timers
begin

text \<open>
  What a response is supposed to do to the routes in use, said without hash maps, garbage, change
  flags or a kernel: the distance-vector rule on a map from destinations to routes. \<open>rib_of\<close>
  reads such a map off a database, and the handlers refine the rule. A local route stays as it is
  through any packet, and an error a handler reports is one the driver reported.
\<close>

section \<open>The distance-vector rule\<close>

record rib_route =
  rr_entry :: RipEntry
  rr_if_index :: u32
  rr_if_name :: string

type_synonym rib = "RipRouteKey \<Rightarrow> rib_route option"

definition rib_offer :: "RipEntry \<Rightarrow> RipIfInfo \<Rightarrow> rib_route" where
  "rib_offer e info = \<lparr> rr_entry = e, rr_if_index = info_if_index info, rr_if_name = info_if_name info \<rparr>"

text \<open>
  An unreachable offer takes away the route it was made by; a reachable one is taken when there is
  no route, when it comes from the router of the current route, or when it is strictly shorter.
\<close>

definition rib_update :: "RipEntry \<Rightarrow> RipIfInfo \<Rightarrow> rib \<Rightarrow> rib" where
  "rib_update e info rib =
     (let k = build_route_key e
      in case rib k of
           None \<Rightarrow> if metric e \<ge> RIP_INFINITY_METRIC then rib else rib(k \<mapsto> rib_offer e info)
         | Some r \<Rightarrow>
             if next_hop (rr_entry r) = next_hop e
             then if metric e \<ge> RIP_INFINITY_METRIC then rib(k := None) else rib(k \<mapsto> rib_offer e info)
             else if metric e < RIP_INFINITY_METRIC \<and> metric e < metric (rr_entry r)
                  then rib(k \<mapsto> rib_offer e info) else rib)"

definition rib_response :: "RipPacket \<Rightarrow> rib \<Rightarrow> rib" where
  "rib_response packet rib =
     fold (\<lambda>e rib. case response_entry_to_route e packet of
                     None \<Rightarrow> rib
                   | Some re \<Rightarrow> rib_update re (if_info packet) rib)
       (entries (packet_data packet)) rib"

definition rib_of :: "RipDatabase \<Rightarrow> rib" where
  "rib_of db k =
     map_option (\<lambda>r. \<lparr> rr_entry = rip_entry r, rr_if_index = if_index r, rr_if_name = if_name r \<rparr>)
       (hm_get (ok_routes db) k)"

section \<open>The database operations on routes\<close>

lemma rib_of_drop_ok [simp]: "rib_of (db_drop_ok k db) = (rib_of db)(k := None)"
  by (auto simp: rib_of_def db_drop_ok_def fun_eq_iff)

lemma rib_of_drop_garbage [simp]: "rib_of (db_drop_garbage k db) = rib_of db"
  by (auto simp: rib_of_def db_drop_garbage_def fun_eq_iff)

lemma rib_of_withdraw [simp]: "rib_of (db_withdraw k g db) = (rib_of db)(k := None)"
  by (auto simp: rib_of_def db_withdraw_def fun_eq_iff)

lemma rib_of_store [simp]:
  "rib_of (db_store (new_db_entry e ifx ifn loc) db) =
     (rib_of db)(build_route_key e \<mapsto> \<lparr> rr_entry = e, rr_if_index = ifx, rr_if_name = ifn \<rparr>)"
  by (auto simp: rib_of_def db_store_def fun_eq_iff)

lemma rib_of_refresh [simp]: "rib_of (refresh_route_timeout e db) = rib_of db"
  by (auto simp: rib_of_def refresh_route_timeout_def fun_eq_iff option.map_comp comp_def)

lemma rib_of_replace [simp]:
  "rib_of (db_replace e ifx ifn db) =
     (rib_of db)(build_route_key e \<mapsto> \<lparr> rr_entry = e, rr_if_index = ifx, rr_if_name = ifn \<rparr>)"
  by (simp add: db_replace_def)

lemma rib_of_learn [simp]:
  "rib_of (db_learn e ifx ifn db) =
     (rib_of db)(build_route_key e \<mapsto> \<lparr> rr_entry = e, rr_if_index = ifx, rr_if_name = ifn \<rparr>)"
  by (simp add: db_learn_def)

lemma rib_of_mark_all [simp]: "rib_of (mark_all_routes_as_unchanged db) = rib_of db"
  by (auto simp: rib_of_def mark_all_routes_as_unchanged_def mark_unchanged_def fun_eq_iff
      option.map_comp comp_def)

lemma rib_of_get_route:
  "rib_of db (build_route_key e) =
     map_option (\<lambda>r. \<lparr> rr_entry = rip_entry r, rr_if_index = if_index r, rr_if_name = if_name r \<rparr>)
       (get_route db e)"
  by (simp add: rib_of_def get_route_def)

section \<open>The handlers refine the rule\<close>

lemma rib_poison:
  assumes "rib_ok (database s)" and "next_hop e \<noteq> 0" and "metric e \<ge> RIP_INFINITY_METRIC"
    and "snd (handle_poisoned_route_from_response os drv e ifx s) = Inr ()"
  shows "rib_of (database (fst (handle_poisoned_route_from_response os drv e ifx s))) =
    rib_update e info (rib_of (database s))"
  using assms
  by (auto simp: poison_effect rib_update_def rib_of_get_route Let_def
      route_is_from_current_next_hop_def split: option.splits prod.splits sum.splits)

lemma rib_replace:
  assumes "get_route (database s) (rip_entry old) = Some r"
    and "build_route_key (rip_entry old) = build_route_key e"
    and "snd (replace_route_from_response drv old e ifx ifn s) = Inr ()"
  shows "rib_of (database (fst (replace_route_from_response drv old e ifx ifn s))) =
    (rib_of (database s))(build_route_key e \<mapsto> \<lparr> rr_entry = e, rr_if_index = ifx, rr_if_name = ifn \<rparr>)"
  using assms(3) by (auto simp: replace_effect [OF assms(1,2)] split: prod.splits sum.splits)

lemma rib_update_step:
  assumes s: "rib_ok (database s)" and nh: "next_hop e \<noteq> 0"
    and ok: "snd (update_route_from_response os drv e info s) = Inr ()"
  shows "rib_of (database (fst (update_route_from_response os drv e info s))) =
    rib_update e info (rib_of (database s))"
proof (cases "metric e \<ge> RIP_INFINITY_METRIC")
  case True
  then show ?thesis
    using rib_poison [OF s nh True] ok by (simp add: update_route_from_response_def Let_def)
next
  case reachable: False
  show ?thesis
  proof (cases "get_route (database s) e")
    case None
    then show ?thesis
      using reachable by (simp add: learn_effect rib_update_def rib_of_get_route Let_def rib_offer_def
          split: prod.splits)
  next
    case (Some old)
    have key: "build_route_key (rip_entry old) = build_route_key e"
      using rib_ok_route [OF s Some] by simp
    have old: "get_route (database s) (rip_entry old) = Some old"
      using Some key by (simp add: get_route_def)
    let ?s = "s\<lparr> database := refresh_route_timeout e (database s) \<rparr>"
    have "get_route (database ?s) (rip_entry old) = Some (old\<lparr> timeout_cnt := 0 \<rparr>)"
      using Some key by (simp add: refresh_get_route)
    note same = rib_replace [OF this key, of drv "info_if_index info" "info_if_name info"]
    note better = rib_replace [OF old key, of drv "info_if_index info" "info_if_name info"]
    let ?k = "build_route_key e"
    have current: "rib_of (database s) ?k =
        Some \<lparr> rr_entry = rip_entry old, rr_if_index = if_index old, rr_if_name = if_name old \<rparr>"
      using Some by (simp add: rib_of_get_route)
    have spec: "rib_update e info (rib_of (database s)) =
        (if route_is_from_current_next_hop old e \<or> metric e < metric (rip_entry old)
         then (rib_of (database s))(?k \<mapsto> rib_offer e info) else rib_of (database s))"
      using reachable reachable [unfolded not_le] unfolding rib_update_def Let_def current
      by (simp add: route_is_from_current_next_hop_def)
    have unchanged: "(rib_of (database s))(?k \<mapsto> rib_offer e info) = rib_of (database s)"
      if "rip_entry old = e" "if_index old = info_if_index info" "if_name old = info_if_name info"
      using current that by (simp add: rib_offer_def fun_upd_idem)
    show ?thesis
      unfolding spec using reachable Some ok same better unchanged
      by (auto simp: update_route_from_response_def Let_def rib_offer_def [symmetric] split: if_splits)
  qed
qed

lemma rib_of_packet:
  assumes "rib_ok (database s)" and "sa_ip (source packet) \<noteq> 0"
    and "snd (handle_response_packet os drv packet s) = Inr ()"
    and "sa_port (source packet) = RIP_UDP_PORT"
  shows "rib_of (database (fst (handle_response_packet os drv packet s))) =
    rib_response packet (rib_of (database s))"
proof -
  let ?step = "\<lambda>e s. case response_entry_to_route e packet of
      None \<Rightarrow> (s, Inr ())
    | Some route_entry \<Rightarrow> update_route_from_response os drv route_entry (if_info packet) s"
  let ?spec = "\<lambda>e rib. case response_entry_to_route e packet of
      None \<Rightarrow> rib | Some re \<Rightarrow> rib_update re (if_info packet) rib"
  have "rib_of (database (fst (for_each ?step es s))) = fold ?spec es (rib_of (database s))"
    if "rib_ok (database s)" "snd (for_each ?step es s) = Inr ()" for es s
    using that
  proof (induction es arbitrary: s)
    case (Cons e es)
    have rib: "rib_ok (database (fst (?step e s)))"
      using Cons.prems(1) rib_ok_response_step [OF Cons.prems(1) assms(2)] by (auto split: option.splits)
    have step: "snd (?step e s) = Inr ()" and rest: "snd (for_each ?step es (fst (?step e s))) = Inr ()"
      using Cons.prems(2) by (simp_all only: for_each.simps and_then_Inr) auto
    have "rib_of (database (fst (?step e s))) = ?spec e (rib_of (database s))"
      using step Cons.prems(1) assms(2) response_route_fields(1) [of e packet]
      by (auto split: option.splits intro: rib_update_step)
    moreover have "for_each ?step (e # es) s = for_each ?step es (fst (?step e s))"
      using step by (cases "?step e s") simp
    ultimately show ?case
      using Cons.IH [OF rib rest] by simp
  qed simp
  with assms show ?thesis
    by (simp add: handle_response_packet_def rib_response_def split: if_splits)
qed

section \<open>Errors are the driver's\<close>

definition driver_error :: "'d RoutingTableDriver \<Rightarrow> RipError \<Rightarrow> bool" where
  "driver_error drv err \<longleftrightarrow>
     (\<exists>d r. snd (drv_add_route drv d r) = Inl err \<or> snd (drv_delete_route drv d r) = Inl err)"

lemma table_errors:
  "snd (RoutingTable_add_route drv r rt) = Inl err \<Longrightarrow> driver_error drv err"
  "snd (RoutingTable_delete_route drv r rt) = Inl err \<Longrightarrow> driver_error drv err"
  by (auto simp: driver_error_def RoutingTable_add_route_def RoutingTable_delete_route_def split_def)

lemma replace_error:
  assumes "get_route (database s) (rip_entry old) = Some r"
    and "build_route_key (rip_entry old) = build_route_key e"
    and "snd (replace_route_from_response drv old e ifx ifn s) = Inl err"
  shows "driver_error drv err"
  using assms(3) unfolding replace_effect [OF assms(1,2)] delete_result_def
  by (auto split: prod.splits sum.splits dest!: arg_cong [where f = snd] intro: table_errors)

lemma poison_error:
  assumes "rib_ok (database s)" and "next_hop e \<noteq> 0"
    and "snd (handle_poisoned_route_from_response os drv e ifx s) = Inl err"
  shows "driver_error drv err"
  using assms(3) unfolding poison_effect [OF assms(1,2)] delete_result_def
  by (auto split: option.splits if_splits prod.splits sum.splits dest!: arg_cong [where f = snd] intro: table_errors)

lemma update_error:
  assumes s: "rib_ok (database s)" and nh: "next_hop e \<noteq> 0"
    and err: "snd (update_route_from_response os drv e info s) = Inl err"
  shows "driver_error drv err"
proof (cases "metric e \<ge> RIP_INFINITY_METRIC")
  case True
  then show ?thesis
    using err poison_error [OF s nh] by (simp add: update_route_from_response_def Let_def)
next
  case reachable: False
  show ?thesis
  proof (cases "get_route (database s) e")
    case None
    then show ?thesis
      using reachable err
      by (auto simp: learn_effect split: prod.splits dest!: arg_cong [where f = snd] intro: table_errors)
  next
    case (Some old)
    have key: "build_route_key (rip_entry old) = build_route_key e"
      using rib_ok_route [OF s Some] by simp
    have old: "get_route (database s) (rip_entry old) = Some old"
      using Some key by (simp add: get_route_def)
    let ?s = "s\<lparr> database := refresh_route_timeout e (database s) \<rparr>"
    have "get_route (database ?s) (rip_entry old) = Some (old\<lparr> timeout_cnt := 0 \<rparr>)"
      using Some key by (simp add: refresh_get_route)
    from replace_error [OF this key, of drv] replace_error [OF old key, of drv]
    show ?thesis
      using reachable Some err
      by (auto simp: update_route_from_response_def Let_def split: if_splits)
  qed
qed

lemma response_error:
  assumes "rib_ok (database s)" and "sa_ip (source packet) \<noteq> 0"
    and "version (header (packet_data packet)) = RIP_2_VERSION"
    and "snd (handle_response_packet os drv packet s) = Inl err"
  shows "driver_error drv err"
proof -
  let ?step = "\<lambda>e s. case response_entry_to_route e packet of
      None \<Rightarrow> (s, Inr ())
    | Some route_entry \<Rightarrow> update_route_from_response os drv route_entry (if_info packet) s"
  have "driver_error drv err"
    if "rib_ok (database s)" "snd (for_each ?step es s) = Inl err" for es s
    using that
  proof (induction es arbitrary: s)
    case (Cons e es)
    have rib: "rib_ok (database (fst (?step e s)))"
      using Cons.prems(1) rib_ok_response_step [OF Cons.prems(1) assms(2)] by (auto split: option.splits)
    from Cons.prems(2) consider "snd (?step e s) = Inl err"
      | "snd (for_each ?step es (fst (?step e s))) = Inl err"
      by (auto simp only: for_each.simps and_then_Inl)
    then show ?case
    proof cases
      case 1
      then obtain re where re: "response_entry_to_route e packet = Some re"
        and err: "snd (update_route_from_response os drv re (if_info packet) s) = Inl err"
        by (auto split: option.splits)
      show ?thesis
        using update_error [OF Cons.prems(1) _ err] response_route_fields(1) [OF re] assms(2) by simp
    qed (use Cons.IH [OF rib] in simp)
  qed simp
  with assms show ?thesis
    by (auto simp: handle_response_packet_def split: if_splits)
qed

section \<open>Local routes\<close>

lemma update_other_key:
  assumes s: "rib_ok (database s)" and nh: "next_hop e \<noteq> 0" and k: "build_route_key e \<noteq> k"
  shows "hm_get (ok_routes (database (fst (update_route_from_response os drv e info s)))) k =
    hm_get (ok_routes (database s)) k" (is "_ = ?r")
proof -
  have key: "build_route_key (rip_entry old) = build_route_key e"
    if "get_route (database s) e = Some old" for old
    using rib_ok_route [OF s that] by simp
  have poison: "hm_get (ok_routes (database (fst (handle_poisoned_route_from_response os drv e ifx s)))) k = ?r" for ifx
    using k by (auto simp: poison_effect [OF s nh] db_withdraw_def split: option.splits prod.splits sum.splits)
  have replace: "hm_get (ok_routes (database (fst (replace_route_from_response drv old e ifx ifn s')))) k =
      hm_get (ok_routes (database s')) k"
    if "get_route (database s') (rip_entry old) = Some old'" "build_route_key (rip_entry old) = build_route_key e"
    for old old' s' ifx ifn
    using k that
    by (auto simp: replace_effect [OF that] db_replace_def db_store_def db_drop_ok_def split: prod.splits sum.splits)
  show ?thesis
  proof (cases "get_route (database s) e")
    case None
    show ?thesis
    proof (cases "metric e \<ge> RIP_INFINITY_METRIC")
      case True
      then show ?thesis using poison by (simp add: update_route_from_response_def Let_def)
    next
      case False
      with None k show ?thesis
        by (auto simp: learn_effect db_learn_def db_store_def db_drop_garbage_def split: prod.splits)
    qed
  next
    case (Some old)
    let ?s = "s\<lparr> database := refresh_route_timeout e (database s) \<rparr>"
    have "get_route (database ?s) (rip_entry old) = Some (old\<lparr> timeout_cnt := 0 \<rparr>)"
      "get_route (database s) (rip_entry old) = Some old"
      using Some key [OF Some] by (simp_all add: refresh_get_route) (simp add: get_route_def)
    moreover have "hm_get (ok_routes (database ?s)) k = ?r" using k by (simp add: refresh_route_timeout_def)
    ultimately show ?thesis
      using Some poison replace [OF _ key [OF Some], of ?s] replace [OF _ key [OF Some], of s]
      by (auto simp: update_route_from_response_def Let_def)
  qed
qed

lemma local_route_stays:
  assumes s: "rib_ok (database s)" and nh: "next_hop e \<noteq> 0"
    and e: "\<not> metric e \<ge> RIP_INFINITY_METRIC \<Longrightarrow> remote_entry_ok e"
    and r: "hm_get (ok_routes (database s)) k = Some r" "is_local r"
  shows "hm_get (ok_routes (database (fst (update_route_from_response os drv e info s)))) k = Some r"
proof (cases "build_route_key e = k")
  case True
  then have get: "get_route (database s) e = Some r" using r by (simp add: get_route_def)
  have ok: "route_ok r" using rib_ok_route [OF s get] by simp
  have "\<not> route_is_from_current_next_hop r e"
    using local_not_from_neighbour [OF ok nh] r(2) by blast
  then show ?thesis
    using get r ok local_not_worse [OF ok e]
    by (auto simp: update_route_from_response_def handle_poisoned_route_from_response_def Let_def)
qed (simp add: update_other_key [OF s nh] r)

lemma local_route_stays_packet:
  fixes s :: "('d, 'n) RipDeamon"
  assumes "rib_ok (database s)" and "sa_ip (source packet) \<noteq> 0"
    and "hm_get (ok_routes (database s)) k = Some r" and "is_local r"
  shows "hm_get (ok_routes (database (fst (handle_packet os drv packet s)))) k = Some r"
proof -
  let ?step = "\<lambda>e s. case response_entry_to_route e packet of
      None \<Rightarrow> (s, Inr ())
    | Some route_entry \<Rightarrow> update_route_from_response os drv route_entry (if_info packet) s"
  let ?P = "\<lambda>s. rib_ok (database s) \<and> hm_get (ok_routes (database s)) k = Some r"
  have "keeps ?P (for_each ?step (entries (packet_data packet)))"
  proof (rule keeps_for_each, rule keepsI)
    fix e and s :: "('d, 'n) RipDeamon"
    assume s: "?P s"
    show "?P (fst (?step e s))"
    proof (cases "response_entry_to_route e packet")
      case (Some re)
      have "remote_entry_ok re" if "\<not> metric re \<ge> RIP_INFINITY_METRIC"
        using response_route_ok [OF Some assms(2)] that .
      moreover have "next_hop re \<noteq> 0" using response_route_fields(1) [OF Some] assms(2) by simp
      ultimately show ?thesis
        using Some s assms(4) by (simp add: local_route_stays rib_ok_update)
    qed (use s in simp)
  qed
  from keepsD [OF this, of s] show ?thesis
    using assms by (auto simp: handle_packet_def handle_response_packet_def)
qed

lemma handle_response:
  assumes "command (header (packet_data packet)) = RIP_CMD_RESPONSE"
  shows "handle_packet os drv packet s = handle_response_packet os drv packet s"
  using assms
  by (simp add: handle_packet_def RipPacket_is_request_def RipPacket_is_response_def
      RipPacketData_is_request_def RipPacketData_is_response_def rip_constants)

section \<open>What the rule guarantees\<close>

lemma rib_update_other: "build_route_key e \<noteq> k \<Longrightarrow> rib_update e info rib k = rib k"
  by (auto simp: rib_update_def Let_def split: option.splits)

lemma rib_update_bound:
  assumes "\<not> metric e \<ge> RIP_INFINITY_METRIC"
  shows "\<exists>r. rib_update e info rib (build_route_key e) = Some r \<and> metric (rr_entry r) \<le> metric e"
  using assms by (auto simp: rib_update_def Let_def rib_offer_def not_le not_less split: option.splits)

lemma rib_fold_other:
  assumes "k \<notin> build_route_key ` set es"
  shows "fold (\<lambda>e rib. case response_entry_to_route e packet of
                   None \<Rightarrow> rib | Some re \<Rightarrow> rib_update re (if_info packet) rib) es rib k = rib k"
  using assms
proof (induction es arbitrary: rib)
  case (Cons e es)
  have "(case response_entry_to_route e packet of
          None \<Rightarrow> rib | Some re \<Rightarrow> rib_update re (if_info packet) rib) k = rib k"
    using Cons.prems response_route_fields(2) [of e packet]
    by (auto split: option.splits simp: rib_update_other)
  then show ?case using Cons by simp
qed simp

lemma rib_response_bound:
  assumes "entries (packet_data packet) = before @ e # later"
    and "build_route_key e \<notin> build_route_key ` set later"
    and "is_entry_valid e" and "unat (metric e) \<le> 14"
  shows "\<exists>r. rib_response packet rib (build_route_key e) = Some r
    \<and> unat (metric (rr_entry r)) \<le> unat (metric e) + 1"
proof -
  let ?re = "e\<lparr> metric := update_metric (metric e), next_hop := sa_ip (source packet) \<rparr>"
  have re: "response_entry_to_route e packet = Some ?re"
    using assms(3) by (simp add: response_entry_to_route_def)
  have m: "unat (metric ?re) = unat (metric e) + 1"
    using assms(4) by (simp add: update_metric_unat)
  then have "\<not> metric ?re \<ge> RIP_INFINITY_METRIC"
    using assms(4) by (simp add: word_le_nat_alt RIP_INFINITY_METRIC_def)
  from rib_update_bound [OF this, of "if_info packet"] m show ?thesis
    by (fastforce simp: rib_response_def assms(1) rib_fold_other [OF assms(2)] re word_le_nat_alt)
qed

end
