(* ===== verification/Rip_Http.thy ===== *)
theory Rip_Http
  imports Rip_Rib "HOL-Library.Product_Lexorder" "HOL-Library.List_Lexorder" "HOL-Library.Char_ord"
begin

text \<open>
  \<^verbatim>\<open>src/src/http/mod.rs\<close> and the administration requests of the daemon: the route listing, adding
  a local route, the log file, the status code each outcome is answered with, and the start of the
  server. Of \<^verbatim>\<open>axum\<close> only the three paths are modelled and of the JSON encoding nothing: a response is
  a status and a body, without headers, and the body of a JSON answer is the value that is encoded.
\<close>

section \<open>Requests and the route listing\<close>

datatype HttpRequestKind = GetRoutes | AddLocalRoute AdvertisedNetwork

record HttpRequest =
  kind :: HttpRequestKind
  reply_to :: nat

record HttpRoute =
  hr_destination :: string
  hr_prefix :: u32
  hr_netmask :: string
  hr_next_hop :: string
  hr_metric :: u32
  hr_interface_name :: string
  hr_route_type :: string
  hr_state :: string
  hr_changed :: bool
  hr_in_kernel :: bool
  hr_timeout_seconds :: u64

datatype HttpResponse = Routes "HttpRoute list" | HttpOk | HttpError string

definition HttpRoute_from_db_entry :: "RipDbEntry \<Rightarrow> string \<Rightarrow> HttpRoute" where
  "HttpRoute_from_db_entry r st =
     (let e = rip_entry r
      in \<lparr> hr_destination = ipv4_to_string (ip_address e),
           hr_prefix = of_nat (count_ones (subnet_mask e)),
           hr_netmask = ipv4_to_string (subnet_mask e),
           hr_next_hop = ipv4_to_string (next_hop e), hr_metric = metric e,
           hr_interface_name = if_name r, hr_route_type = (if is_local r then ''local'' else ''remote''),
           hr_state = st, hr_changed = changed r, hr_in_kernel = in_routing_table r,
           hr_timeout_seconds = timeout_cnt r \<rparr>)"

definition http_sort_key :: "HttpRoute \<Rightarrow> string \<times> u32 \<times> string \<times> string" where
  "http_sort_key h = (hr_destination h, hr_prefix h, hr_next_hop h, hr_interface_name h)"

text \<open>\<^verbatim>\<open>sort_by_key\<close> is stable, as \<^const>\<open>sort_key\<close> is.\<close>

definition HttpRoute_from_database :: "RipDatabase \<Rightarrow> HttpRoute list" where
  "HttpRoute_from_database db =
     sort_key http_sort_key
       (map (\<lambda>r. HttpRoute_from_db_entry r ''active'') (hm_values (ok_routes db))
        @ map (\<lambda>r. HttpRoute_from_db_entry r ''garbage'') (hm_values (garbage_routes db)))"

section \<open>The daemon's side\<close>

text \<open>The answer goes to the request's own reply channel; a client that has gone is ignored.\<close>

definition handle_http_request ::
  "'n os \<Rightarrow> HttpRequest \<Rightarrow> ('d, 'n) RipDeamon \<Rightarrow> ('d, 'n) RipDeamon \<times> (nat \<times> HttpResponse)" where
  "handle_http_request os request s =
     (case kind request of
        GetRoutes \<Rightarrow> (s, (reply_to request, Routes (HttpRoute_from_database (database s))))
      | AddLocalRoute network \<Rightarrow>
          (case setup_advertised_network os network s of
             (s, Inr _) \<Rightarrow> (s, (reply_to request, HttpOk))
           | (s, Inl err) \<Rightarrow> (s, (reply_to request, HttpError (RipError_to_string err)))))"

section \<open>The server's side\<close>

record HttpStatusResponse =
  status :: string

datatype http_body = Text string | JsonRoutes "HttpRoute list" | JsonStatus HttpStatusResponse

record http_reply =
  status_code :: nat
  body :: http_body

text \<open>
  What became of a request put on the channel: the daemon no longer takes requests, it dropped the
  reply channel, or it answered.
\<close>

datatype channel_outcome = SendFailed | ReplyDropped | Answered HttpResponse

definition send_http_request :: "channel_outcome \<Rightarrow> http_reply + HttpResponse" where
  "send_http_request outcome =
     (case outcome of
        SendFailed \<Rightarrow> Inl \<lparr> status_code = 503, body = Text ''RIP daemon is not accepting admin requests'' \<rparr>
      | Answered response \<Rightarrow> Inr response
      | ReplyDropped \<Rightarrow> Inl \<lparr> status_code = 503, body = Text ''RIP daemon did not answer admin request'' \<rparr>)"

definition unexpected_response :: http_reply where
  "unexpected_response = \<lparr> status_code = 500, body = Text ''unexpected response from RIP daemon'' \<rparr>"

definition http_get_routes :: "(HttpRequestKind \<Rightarrow> channel_outcome) \<Rightarrow> http_reply" where
  "http_get_routes channel =
     (case send_http_request (channel GetRoutes) of
        Inr (Routes routes) \<Rightarrow> \<lparr> status_code = 200, body = JsonRoutes routes \<rparr>
      | Inr (HttpError message) \<Rightarrow> \<lparr> status_code = 400, body = Text message \<rparr>
      | Inr _ \<Rightarrow> unexpected_response
      | Inl response \<Rightarrow> response)"

record HttpAddLocalRouteRequest =
  alr_address :: string
  alr_prefix :: u32
  alr_dev :: string

definition http_add_local_route ::
  "(HttpRequestKind \<Rightarrow> channel_outcome) \<Rightarrow> HttpAddLocalRouteRequest \<Rightarrow> http_reply" where
  "http_add_local_route channel payload =
     (let network = \<lparr> net_address = alr_address payload, net_prefix = alr_prefix payload,
                      net_dev = alr_dev payload \<rparr>
      in case send_http_request (channel (AddLocalRoute network)) of
           Inr HttpOk \<Rightarrow> \<lparr> status_code = 200, body = JsonStatus \<lparr> status = ''ok'' \<rparr> \<rparr>
         | Inr (HttpError message) \<Rightarrow> \<lparr> status_code = 400, body = Text message \<rparr>
         | Inr _ \<Rightarrow> unexpected_response
         | Inl response \<Rightarrow> response)"

definition http_get_logs :: "string option \<Rightarrow> (string \<Rightarrow> io_error + string) \<Rightarrow> http_reply" where
  "http_get_logs log_file_path read_to_string =
     (case log_file_path of
        None \<Rightarrow> \<lparr> status_code = 404, body = Text ''log file path was not configured for this daemon'' \<rparr>
      | Some path \<Rightarrow>
          (case read_to_string path of
             Inr content \<Rightarrow> \<lparr> status_code = 200, body = Text content \<rparr>
           | Inl err \<Rightarrow> \<lparr> status_code = 500,
               body = Text (''failed to read log file '' @ path @ '': '' @ io_error_text err) \<rparr>))"

section \<open>Starting the server\<close>

text \<open>
  The server listens on an address and hands the requests of its three paths to the handlers above.
  What \<^verbatim>\<open>axum\<close> makes of any other request (the static files, wrong methods, malformed bodies) is not
  modelled.
\<close>

definition DEFAULT_HTTP_LISTEN_ADDR :: string where "DEFAULT_HTTP_LISTEN_ADDR = ''127.0.0.1:8080''"

datatype http_method = GET | POST
datatype http_handler = Handler_get_routes | Handler_add_local_route | Handler_get_logs

record http_server =
  listen_addr :: string
  api_routes :: "(string \<times> http_method \<times> http_handler) list"
  state_log_file_path :: "string option"

definition spawn_http_server ::
  "'n os \<Rightarrow> (string \<Rightarrow> io_error + unit) \<Rightarrow> string option \<Rightarrow> http_server RipResult" where
  "spawn_http_server os tcp_bind logf =
     (let addr = (case env_var os ''RIP_HTTP_LISTEN_ADDR'' of None \<Rightarrow> DEFAULT_HTTP_LISTEN_ADDR | Some a \<Rightarrow> a)
      in case tcp_bind addr of
           Inl err \<Rightarrow> Inl (IoError (io_error_text err))
         | Inr _ \<Rightarrow>
             Inr \<lparr> listen_addr = addr,
                   api_routes = [(''/api/v1/routes'', GET, Handler_get_routes),
                             (''/api/v1/local-routes'', POST, Handler_add_local_route),
                             (''/api/v1/logs'', GET, Handler_get_logs)],
                   state_log_file_path = logf \<rparr>)"

definition http_serve ::
  "http_server \<Rightarrow> (HttpRequestKind \<Rightarrow> channel_outcome) \<Rightarrow> (string \<Rightarrow> io_error + string)
    \<Rightarrow> string \<Rightarrow> http_method \<Rightarrow> HttpAddLocalRouteRequest \<Rightarrow> http_reply option" where
  "http_serve server channel read_to_string path m payload =
     map_option (\<lambda>(_, _, h).
         case h of
           Handler_get_routes \<Rightarrow> http_get_routes channel
         | Handler_add_local_route \<Rightarrow> http_add_local_route channel payload
         | Handler_get_logs \<Rightarrow> http_get_logs (state_log_file_path server) read_to_string)
       (find (\<lambda>(p, m', _). p = path \<and> m' = m) (api_routes server))"

section \<open>The route listing\<close>

definition http_routes :: "RipDatabase \<Rightarrow> HttpRoute list" where
  "http_routes db =
     map (\<lambda>r. HttpRoute_from_db_entry r ''active'') (hm_values (ok_routes db))
     @ map (\<lambda>r. HttpRoute_from_db_entry r ''garbage'') (hm_values (garbage_routes db))"

lemma from_database_mset: "mset (HttpRoute_from_database db) = mset (http_routes db)"
  by (simp add: HttpRoute_from_database_def http_routes_def)

lemma from_database_sorted: "sorted (map http_sort_key (HttpRoute_from_database db))"
  by (simp add: HttpRoute_from_database_def)

lemma http_routes_same_db: "same_db db db' \<Longrightarrow> mset (http_routes db) = mset (http_routes db')"
  by (simp add: same_db_def http_routes_def hm_values_def)

text \<open>A list sorted by a key that is injective on it is determined by its elements.\<close>

lemma sorted_key_unique:
  assumes "mset xs = mset ys" and "sorted (map f xs)" and "sorted (map f ys)" and "inj_on f (set xs)"
  shows "xs = ys"
proof -
  have "mset (map f xs) = mset (map f ys)" using assms(1) by simp
  with assms(2,3) have "map f xs = map f ys"
    by (metis properties_for_sort)
  moreover have "set xs = set ys" using assms(1) by (metis set_mset_mset)
  ultimately show ?thesis
    using assms(4) by (simp add: inj_on_map_eq_map)
qed

lemma from_database_order:
  assumes "same_db db db'" and "inj_on http_sort_key (set (http_routes db))"
  shows "HttpRoute_from_database db = HttpRoute_from_database db'"
proof (rule sorted_key_unique [where f = http_sort_key])
  show "mset (HttpRoute_from_database db) = mset (HttpRoute_from_database db')"
    using http_routes_same_db [OF assms(1)] by (simp add: from_database_mset)
  have "set (HttpRoute_from_database db) = set (http_routes db)"
    using from_database_mset by (metis set_mset_mset)
  then show "inj_on http_sort_key (set (HttpRoute_from_database db))"
    using assms(2) by simp
qed (rule from_database_sorted)+

section \<open>Adding a local route\<close>

lemma setup_network_frame [simp]:
  "routing_table (fst (setup_advertised_network os network s)) = routing_table s"
  "interfaces (fst (setup_advertised_network os network s)) = interfaces s"
  by (auto simp: setup_advertised_network_def on_world_eq and_then_def split: prod.splits sum.splits)

lemma setup_network_cases:
  shows "(\<exists>err. snd (setup_advertised_network os network s) = Inl err)
      \<and> database (fst (setup_advertised_network os network s)) = database s
    \<or> (\<exists>lr. snd (advertised_network_to_local_route os network (world s)) = Inr lr
        \<and> get_route (database s) (lr_entry lr) = None
        \<and> snd (setup_advertised_network os network s) = Inr ()
        \<and> database (fst (setup_advertised_network os network s)) =
            db_store (new_db_entry (lr_entry lr) (lr_if_index lr) (lr_if_name lr) True) (database s))"
proof (cases "snd (advertised_network_to_local_route os network (world s))")
  case (Inl err)
  then show ?thesis
    by (auto simp: setup_advertised_network_def on_world_eq and_then_def)
next
  case (Inr lr)
  then show ?thesis
    by (auto simp: setup_advertised_network_def on_world_eq and_then_def on_database_eq add_local_route_eq)
qed

lemma local_route_entry_ok: "local_entry_ok (local_route_entry ip netmask)"
  by (simp add: local_entry_ok_def local_route_entry_def)

lemma local_route_ok:
  assumes "snd (advertised_network_to_local_route os network n) = Inr lr"
  shows "local_entry_ok (lr_entry lr)"
  using local_route_shape [OF assms] local_route_entry_ok by auto

lemma rib_ok_setup_network:
  assumes "rib_ok (database s)"
  shows "rib_ok (database (fst (setup_advertised_network os network s)))"
  using setup_network_cases [of os network s] assms local_route_ok [of os network "world s"]
  by (auto intro!: rib_ok_store simp: route_ok_def)

lemma http_request_database:
  "database (fst (handle_http_request os request s)) =
     (case kind request of GetRoutes \<Rightarrow> database s
      | AddLocalRoute network \<Rightarrow> database (fst (setup_advertised_network os network s)))"
  "routing_table (fst (handle_http_request os request s)) = routing_table s"
  by (auto simp: handle_http_request_def split: HttpRequestKind.splits prod.splits sum.splits
      dest: arg_cong [where f = fst])
     (metis fst_conv setup_network_frame(1))+

lemma rib_ok_http_request:
  "rib_ok (database s) \<Longrightarrow> rib_ok (database (fst (handle_http_request os request s)))"
  by (simp add: http_request_database rib_ok_setup_network split: HttpRequestKind.splits)

context fib_driver
begin

lemma fib_ok_setup_network:
  assumes "fib_ok s"
  shows "fib_ok (fst (setup_advertised_network os network s))"
proof -
  note rib = fib_okD(1) [OF assms]
  have "installed (database (fst (setup_advertised_network os network s))) = installed (database s)"
    using setup_network_cases [of os network s]
  proof (elim disjE exE conjE)
    fix lr
    assume lr: "snd (advertised_network_to_local_route os network (world s)) = Inr lr"
      and fresh: "get_route (database s) (lr_entry lr) = None"
      and db: "database (fst (setup_advertised_network os network s)) =
        db_store (new_db_entry (lr_entry lr) (lr_if_index lr) (lr_if_name lr) True) (database s)"
    show ?thesis
      using installed_add_local [OF rib local_route_ok [OF lr], of "lr_if_index lr" "lr_if_name lr"] fresh
      by (simp add: db add_local_route_eq)
  qed simp
  then show ?thesis
    using assms rib_ok_setup_network [OF rib] by (simp add: fib_ok_def)
qed

lemma fib_ok_http_request: "fib_ok s \<Longrightarrow> fib_ok (fst (handle_http_request os request s))"
  using fib_ok_setup_network [of s os]
  by (auto simp: fib_ok_def http_request_database split: HttpRequestKind.splits)

end

section \<open>Properties\<close>


definition sample_deamon :: "RipDatabase \<Rightarrow> (RouteMessage list, unit) RipDeamon" where
  "sample_deamon db =
     \<lparr> routing_table = RoutingTable_with_driver [], interfaces = [], database = db, world = () \<rparr>"


text \<open>
  Adding a local route over HTTP. The answer goes to the asking client; it is 200 exactly when the
  network is valid and its destination has no active route, which then has the new local route, out
  of the kernel and to be announced; otherwise it is 400 and the database is as it was. Either way
  the kernel's table is not touched.
\<close>

theorem http_add_local_route_outcome:
  "let network = \<lparr> net_address = alr_address payload, net_prefix = alr_prefix payload, net_dev = alr_dev payload \<rparr>;
       (s', c, response) = handle_http_request os \<lparr> kind = AddLocalRoute network, reply_to = c0 \<rparr> s;
       reply = http_add_local_route (\<lambda>_. Answered response) payload
   in c = c0 \<and> routing_table s' = routing_table s
      \<and> (if \<exists>lr. snd (advertised_network_to_local_route os network (world s)) = Inr lr
                 \<and> get_route (database s) (lr_entry lr) = None
         then status_code reply = 200
           \<and> (\<exists>lr r. snd (advertised_network_to_local_route os network (world s)) = Inr lr
                   \<and> get_route (database s') (lr_entry lr) = Some r \<and> rip_entry r = lr_entry lr
                   \<and> is_local r \<and> \<not> in_routing_table r \<and> changed r \<and> any_route_changed (database s'))
         else status_code reply = 400 \<and> database s' = database s)"
proof -
  let ?network = "\<lparr> net_address = alr_address payload, net_prefix = alr_prefix payload, net_dev = alr_dev payload \<rparr>"
  obtain s' res where added: "setup_advertised_network os ?network s = (s', res)" by fastforce
  have rt: "routing_table s' = routing_table s"
    using setup_network_frame(1) [of os ?network s] added by simp
  have "case res of
      Inl err \<Rightarrow> database s' = database s
        \<and> \<not> (\<exists>lr. snd (advertised_network_to_local_route os ?network (world s)) = Inr lr
                \<and> get_route (database s) (lr_entry lr) = None)
    | Inr _ \<Rightarrow> \<exists>lr. snd (advertised_network_to_local_route os ?network (world s)) = Inr lr
        \<and> get_route (database s) (lr_entry lr) = None
        \<and> database s' = db_store (new_db_entry (lr_entry lr) (lr_if_index lr) (lr_if_name lr) True) (database s)"
    using added
    by (cases "advertised_network_to_local_route os ?network (world s)";
        cases "snd (advertised_network_to_local_route os ?network (world s))")
       (auto simp: setup_advertised_network_def on_world_eq on_database_eq add_local_route_eq split: if_splits)
  then show ?thesis
    using added rt
    by (cases res)
       (auto simp: handle_http_request_def http_add_local_route_def send_http_request_def Let_def
          db_store_get_route any_route_changed_def)
qed

end
