(* ===== verification/Rip_Run.thy ===== *)
theory Rip_Run
  imports Rip_Http
begin

text \<open>
  The event loop of \<^verbatim>\<open>src/src/rip_deamon.rs\<close> (\<open>run\<close>, its timers and the receive tasks) and the
  program of \<^verbatim>\<open>src/src/main.rs\<close>. One turn of the loop is a function of the branch that
  \<^verbatim>\<open>tokio::select!\<close> takes; which branches are ready is a predicate on the state and the clock,
  and the choice among them is free. The receive tasks, the channel they share and the loop
  together are the step relation \<open>system_step\<close>.
\<close>

section \<open>Receiving\<close>

datatype SocketAddr = V4 SocketAddrV4 | V6 "u8 list" u16

definition parse_rx_data ::
  "bool \<Rightarrow> u8 list \<Rightarrow> SocketAddr \<Rightarrow> RipIfInfo \<Rightarrow> RipPacket RipResult option" where
  "parse_rx_data checks bytes source_addr info =
     (case source_addr of
        V6 _ _ \<Rightarrow> Some (Inl InvalidSourceAddress)
      | V4 src \<Rightarrow>
          (case RipPacketData_from_slice checks bytes of
             None \<Rightarrow> None
           | Some (Inl err) \<Rightarrow> Some (Inl err)
           | Some (Inr pd) \<Rightarrow> Some (Inr \<lparr> packet_data = pd, if_info = info, source = src \<rparr>)))"

definition RX_BUFFER_SIZE :: nat where "RX_BUFFER_SIZE = 2048"

text \<open>A receive task; it has ended when its loop has, by \<^verbatim>\<open>break\<close> or by a panic.\<close>

record rx_task =
  rx_socket :: RipSocket
  rx_running :: bool

definition rx_task_received ::
  "bool \<Rightarrow> u8 list \<Rightarrow> SocketAddr \<Rightarrow> rx_task \<Rightarrow> rx_task \<times> RipPacket option" where
  "rx_task_received checks datagram source_addr t =
     (let info = \<lparr> info_if_name = sock_if_name (rx_socket t), info_if_index = sock_if_index (rx_socket t) \<rparr>
      in case parse_rx_data checks (take RX_BUFFER_SIZE datagram) source_addr info of
           Some (Inr packet) \<Rightarrow> (t, Some packet)
         | Some (Inl err) \<Rightarrow> (t\<lparr> rx_running := False \<rparr>, None)
         | None \<Rightarrow> (t\<lparr> rx_running := False \<rparr>, None))"

definition rx_task_failed :: "rx_task \<Rightarrow> rx_task" where
  "rx_task_failed t = t\<lparr> rx_running := False \<rparr>"

section \<open>The loop\<close>

record ('d, 'n) RunState =
  deamon :: "('d, 'n) RipDeamon"
  request_warmup_timer :: timer
  update_timer :: Instant
  triggered_update_lock_timer :: timer
  timeout_timer :: Instant
  garbage_collection_timer :: timer
  http_open :: bool

definition on_deamon ::
  "(('d, 'n) RipDeamon \<Rightarrow> ('d, 'n) RipDeamon \<times> 'a) \<Rightarrow> ('d, 'n) RunState \<Rightarrow> ('d, 'n) RunState \<times> 'a" where
  "on_deamon f st = (case f (deamon st) of (s, x) \<Rightarrow> (st\<lparr> deamon := s \<rparr>, x))"

text \<open>The branches of the \<^verbatim>\<open>select!\<close>, with what the awaited future gave.\<close>

datatype event =
    CtrlC "io_error + unit"
  | SigTerm
  | WarmupFired
  | UpdateFired
  | LockFired
  | TimeoutFired
  | GarbageFired
  | Received "RipPacket option"
  | HttpReceived "HttpRequest option"

text \<open>How a turn ends: the loop goes on, with the answer of an administration request, or \<^verbatim>\<open>run\<close> returns.\<close>

datatype turn = Continue "(nat \<times> HttpResponse) option" | Returned "unit RipResult"

definition stop_on_error :: "('d, 'n) RunState \<times> unit RipResult \<Rightarrow> ('d, 'n) RunState \<times> turn" where
  "stop_on_error r =
     (case r of (st, Inl e) \<Rightarrow> (st, Returned (Inl e)) | (st, Inr _) \<Rightarrow> (st, Continue None))"

definition select_arm ::
  "'n os \<Rightarrow> 'd RoutingTableDriver \<Rightarrow> event \<Rightarrow> ('d, 'n) RunState \<Rightarrow> ('d, 'n) RunState \<times> turn" where
  "select_arm os drv ev st =
     (case ev of
        CtrlC (Inl err) \<Rightarrow> (st, Returned (Inl (IoError (io_error_text err))))
      | CtrlC (Inr _) \<Rightarrow> (st\<lparr> deamon := handle_shutdown os drv (deamon st) \<rparr>, Returned (Inr ()))
      | SigTerm \<Rightarrow> (st\<lparr> deamon := handle_shutdown os drv (deamon st) \<rparr>, Returned (Inr ()))
      | WarmupFired \<Rightarrow>
          stop_on_error (on_deamon (send_multicast_request os) (st\<lparr> request_warmup_timer := None \<rparr>))
      | UpdateFired \<Rightarrow>
          stop_on_error
            (and_then (on_deamon (send_multicast_advertisement os False) st) (\<lambda>_ st.
             (case on_deamon (on_world (instant_now os)) st of (st, now) \<Rightarrow>
              (case on_deamon (on_world (create_update_duration os)) st of (st, d) \<Rightarrow>
                (st\<lparr> update_timer := now + d \<rparr>, Inr ())))))
      | LockFired \<Rightarrow> (st\<lparr> triggered_update_lock_timer := None \<rparr>, Continue None)
      | TimeoutFired \<Rightarrow>
          stop_on_error
            (and_then
              (case handle_route_timeout_tick os drv (deamon st, garbage_collection_timer st) of
                 ((s, gc), res) \<Rightarrow> (st\<lparr> deamon := s, garbage_collection_timer := gc \<rparr>, res)) (\<lambda>_ st.
             (case on_deamon (on_world (instant_now os)) st of (st, now) \<Rightarrow>
                (st\<lparr> timeout_timer := now + duration_from_secs (timeout_check_interval_secs os) \<rparr>, Inr ()))))
      | GarbageFired \<Rightarrow>
          (case handle_garbage_collection_tick os (deamon st, None) of
             (s, gc) \<Rightarrow> (st\<lparr> deamon := s, garbage_collection_timer := gc \<rparr>, Continue None))
      | Received None \<Rightarrow> (st, Returned (Inl (IoError ''all RIP receive tasks stopped'')))
      | Received (Some packet) \<Rightarrow> stop_on_error (on_deamon (handle_packet os drv packet) st)
      | HttpReceived (Some request) \<Rightarrow>
          (case on_deamon (handle_http_request os request) st of (st, reply) \<Rightarrow> (st, Continue (Some reply)))
      | HttpReceived None \<Rightarrow> (st\<lparr> http_open := False \<rparr>, Continue None))"

definition triggered_update ::
  "'n os \<Rightarrow> ('d, 'n) RunState \<Rightarrow> ('d, 'n) RunState \<times> unit RipResult" where
  "triggered_update os st =
     (case maybe_send_triggered_update os (deamon st, triggered_update_lock_timer st) of
        ((s, lock), res) \<Rightarrow> (st\<lparr> deamon := s, triggered_update_lock_timer := lock \<rparr>, res))"

definition run_turn ::
  "'n os \<Rightarrow> 'd RoutingTableDriver \<Rightarrow> event \<Rightarrow> ('d, 'n) RunState \<Rightarrow> ('d, 'n) RunState \<times> turn" where
  "run_turn os drv ev st =
     (case select_arm os drv ev st of
        (st, Returned res) \<Rightarrow> (st, Returned res)
      | (st, Continue reply) \<Rightarrow>
          (case triggered_update os st of
             (st, Inl e) \<Rightarrow> (st, Returned (Inl e))
           | (st, Inr _) \<Rightarrow> (st, Continue reply)))"

text \<open>Which branches can be taken at time \<open>now\<close>, as far as the loop's own state decides it.\<close>

fun due :: "Instant \<Rightarrow> timer \<Rightarrow> bool" where
  "due now None = False"
| "due now (Some deadline) = (deadline \<le> now)"

definition ready :: "Instant \<Rightarrow> ('d, 'n) RunState \<Rightarrow> event \<Rightarrow> bool" where
  "ready now st ev =
     (case ev of
        WarmupFired \<Rightarrow> due now (request_warmup_timer st)
      | UpdateFired \<Rightarrow> update_timer st \<le> now
      | LockFired \<Rightarrow> due now (triggered_update_lock_timer st)
      | TimeoutFired \<Rightarrow> timeout_timer st \<le> now
      | GarbageFired \<Rightarrow> due now (garbage_collection_timer st)
      | HttpReceived _ \<Rightarrow> http_open st
      | _ \<Rightarrow> True)"

text \<open>
  The start of \<open>run\<close>, up to the loop: three timers are armed, the receive tasks start on the
  sockets taken out of the interfaces, and the handler for SIGTERM is registered.
\<close>

definition spawn_rx_tasks :: "('d, 'n) RipDeamon \<Rightarrow> ('d, 'n) RipDeamon \<times> rx_task list" where
  "spawn_rx_tasks s =
     (s\<lparr> interfaces := map (\<lambda>ifc. ifc\<lparr> ifc_rx := None \<rparr>) (interfaces s) \<rparr>,
      List.map_filter (\<lambda>ifc. map_option (\<lambda>sock. \<lparr> rx_socket = sock, rx_running = True \<rparr>) (ifc_rx ifc))
        (interfaces s))"

definition run_start ::
  "'n os \<Rightarrow> io_error + unit \<Rightarrow> ('d, 'n) RipDeamon \<Rightarrow> ('d, 'n) RipDeamon \<times> (('d, 'n) RunState \<times> rx_task list) RipResult" where
  "run_start os sigterm_handler s =
     (case on_world (create_request_warmup_duration os) s of (s, d1) \<Rightarrow>
      (case sleep_timer os d1 s of (s, warmup) \<Rightarrow>
      (case on_world (create_update_duration os) s of (s, d2) \<Rightarrow>
      (case sleep_timer os d2 s of (s, update) \<Rightarrow>
      (case sleep_timer os (duration_from_secs (timeout_check_interval_secs os)) s of (s, timeout) \<Rightarrow>
      (case spawn_rx_tasks s of (s, tasks) \<Rightarrow>
        (case sigterm_handler of
           Inl err \<Rightarrow> (s, Inl (IoError (io_error_text err)))
         | Inr _ \<Rightarrow>
             (s, Inr (\<lparr> deamon = s, request_warmup_timer = Some warmup, update_timer = update,
                        triggered_update_lock_timer = None, timeout_timer = timeout,
                        garbage_collection_timer = None, http_open = True \<rparr>, tasks)))))))))"

section \<open>The program\<close>

record ProgramArgs =
  cfg_path :: string
  log_file_path :: "string option"

text \<open>No program name at all is a panic, \<^const>\<open>None\<close>.\<close>

definition get_program_args :: "string list \<Rightarrow> ProgramArgs RipResult option" where
  "get_program_args args =
     (case args of
        [] \<Rightarrow> None
      | [_] \<Rightarrow> Some (Inl (InvalidArgument ''missing configuration path, usage: rip_v2 <config.yml> [log_file]''))
      | [_, cfg] \<Rightarrow> Some (Inr \<lparr> cfg_path = cfg, log_file_path = None \<rparr>)
      | [_, cfg, logf] \<Rightarrow> Some (Inr \<lparr> cfg_path = cfg, log_file_path = Some logf \<rparr>)
      | _ \<Rightarrow> Some (Inl (InvalidArgument ''too many arguments, usage: rip_v2 <config.yml> [log_file]'')))"

end
