(* ===== verification/Rip_System.thy ===== *)
theory Rip_System
  imports Rip_Run
begin

text \<open>
  The running program: the receive tasks, the channel they share and the event loop, as a step
  function on labels and the states it reaches. The invariants of the handlers are carried over
  to every state an execution can reach, with datagrams, timers, administration requests and
  signals in any order and the hash maps iterated in any order.
\<close>

section \<open>Steps\<close>

record ('d, 'n) system =
  loop :: "('d, 'n) RunState"
  tasks :: "rx_task list"
  queue :: "RipPacket list"
  outcome :: "unit RipResult option"

definition RX_CHANNEL_CAPACITY :: nat where "RX_CHANNEL_CAPACITY = 64"

text \<open>
  \<^item> \<open>Datagram i bs a\<close>: task \<open>i\<close> receives a datagram; a packet is put on the channel, which has a
    bounded capacity: a task with a packet in hand waits until there is room.
  \<^item> \<open>RxFailed i\<close>: the \<^verbatim>\<open>recv_from\<close> of task \<open>i\<close> fails.
  \<^item> \<open>Turn now ev\<close>: a turn of the loop, by a branch that is ready at \<open>now\<close>.
  \<^item> \<open>Reorder db\<close>: the hash maps are from now on iterated as in \<open>db\<close>, which has the same entries.
\<close>

datatype label =
    Datagram nat "u8 list" SocketAddr
  | RxFailed nat
  | Turn Instant event
  | Reorder RipDatabase

definition available :: "('d, 'n) system \<Rightarrow> event \<Rightarrow> bool" where
  "available s ev =
     (case ev of
        Received (Some packet) \<Rightarrow> queue s \<noteq> [] \<and> hd (queue s) = packet
      | Received None \<Rightarrow> queue s = [] \<and> list_all (\<lambda>t. \<not> rx_running t) (tasks s)
      | _ \<Rightarrow> True)"

definition set_database :: "RipDatabase \<Rightarrow> ('d, 'n) system \<Rightarrow> ('d, 'n) system" where
  "set_database db s = s\<lparr> loop := (loop s)\<lparr> deamon := (deamon (loop s))\<lparr> database := db \<rparr> \<rparr> \<rparr>"

definition system_step ::
  "'n os \<Rightarrow> 'd RoutingTableDriver \<Rightarrow> bool \<Rightarrow> label \<Rightarrow> ('d, 'n) system \<Rightarrow> ('d, 'n) system option" where
  "system_step os drv checks l s =
     (if outcome s \<noteq> None then None
      else case l of
        Datagram i bs a \<Rightarrow>
          if i < length (tasks s) \<and> rx_running (tasks s ! i) then
            (case rx_task_received checks bs a (tasks s ! i) of
               (t, None) \<Rightarrow> Some (s\<lparr> tasks := (tasks s)[i := t] \<rparr>)
             | (t, Some packet) \<Rightarrow>
                 if length (queue s) < RX_CHANNEL_CAPACITY
                 then Some (s\<lparr> tasks := (tasks s)[i := t], queue := queue s @ [packet] \<rparr>)
                 else None)
          else None
      | RxFailed i \<Rightarrow>
          if i < length (tasks s) \<and> rx_running (tasks s ! i)
          then Some (s\<lparr> tasks := (tasks s)[i := rx_task_failed (tasks s ! i)] \<rparr>)
          else None
      | Turn now ev \<Rightarrow>
          if ready now (loop s) ev \<and> available s ev then
            (case run_turn os drv ev (loop s) of
               (st, t) \<Rightarrow>
                 Some (s\<lparr> loop := st,
                          queue := (case ev of Received (Some _) \<Rightarrow> tl (queue s) | _ \<Rightarrow> queue s),
                          outcome := (case t of Returned res \<Rightarrow> Some res | Continue _ \<Rightarrow> None) \<rparr>))
          else None
      | Reorder db \<Rightarrow>
          if same_db (database (deamon (loop s))) db then Some (set_database db s) else None)"

text \<open>The states reached by executions whose labels all satisfy a predicate on the environment.\<close>

inductive reachable ::
  "(label \<Rightarrow> bool) \<Rightarrow> 'n os \<Rightarrow> 'd RoutingTableDriver \<Rightarrow> bool \<Rightarrow> ('d, 'n) system \<Rightarrow> ('d, 'n) system \<Rightarrow> bool"
  for env :: "label \<Rightarrow> bool" and os :: "'n os" and drv :: "'d RoutingTableDriver" and checks :: bool
    and s0 :: "('d, 'n) system" where
  reachable_start: "reachable env os drv checks s0 s0"
| reachable_step: "reachable env os drv checks s0 s \<Longrightarrow> env l \<Longrightarrow> system_step os drv checks l s = Some s'
    \<Longrightarrow> reachable env os drv checks s0 s'"

text \<open>
  The one assumption on the network: a datagram has a sender, its source address is not 0.0.0.0.
\<close>

fun has_sender :: "label \<Rightarrow> bool" where
  "has_sender (Datagram _ _ (V4 a)) = (sa_ip a \<noteq> 0)"
| "has_sender _ = True"

section \<open>Same entries, same verdict\<close>

lemma same_db_sym: "same_db db db' \<Longrightarrow> same_db db' db"
  by (simp add: same_db_def)

lemma mset_list_all: "mset xs = mset ys \<Longrightarrow> list_all P xs = list_all P ys"
  by (metis list_all_iff set_mset_mset)

lemma db_wf_same_db: "same_db db db' \<Longrightarrow> db_wf db = db_wf db'"
  using hm_wf_mset [of "ok_routes db" "ok_routes db'"] hm_wf_mset [of "garbage_routes db" "garbage_routes db'"]
    mset_list_all [of "ok_routes db" "ok_routes db'"] mset_list_all [of "garbage_routes db" "garbage_routes db'"]
  by (simp add: same_db_def db_wf_def hm_all_def)

lemma rib_ok_same_db:
  assumes "same_db db db'" and "rib_ok db"
  shows "rib_ok db'"
proof -
  have "hm_get (ok_routes db) = hm_get (ok_routes db')"
    using assms hm_get_mset db_wf_maps [OF rib_ok_wf [OF assms(2)]] by (auto simp: same_db_def)
  then show ?thesis
    using assms db_wf_same_db [OF assms(1)]
      mset_list_all [of "ok_routes db" "ok_routes db'"] mset_list_all [of "garbage_routes db" "garbage_routes db'"]
    by (simp add: rib_ok_def hm_all_def same_db_def)
qed

lemma installed_same_db:
  assumes "same_db db db'"
  shows "installed db = installed db'"
proof -
  have "set (ok_routes db) = set (ok_routes db')"
    using assms by (metis same_db_def set_mset_mset)
  then show ?thesis by (simp add: installed_def hm_values_def)
qed

section \<open>The invariant of a turn\<close>

text \<open>A predicate on the daemon that its clock readings do not affect.\<close>

definition world_free :: "(('d, 'n) RipDeamon \<Rightarrow> bool) \<Rightarrow> bool" where
  "world_free P \<longleftrightarrow> (\<forall>s n. P (s\<lparr> world := n \<rparr>) = P s)"

lemma on_deamon_fst [simp]: "fst (on_deamon f st) = st\<lparr> deamon := fst (f (deamon st)) \<rparr>"
  by (simp add: on_deamon_def split: prod.splits)

lemma on_deamon_snd [simp]: "snd (on_deamon f st) = snd (f (deamon st))"
  by (simp add: on_deamon_def split: prod.splits)

lemma stop_on_error_simps [simp]:
  "fst (stop_on_error r) = fst r"
  "(snd (stop_on_error r) = Continue reply) = (reply = None \<and> snd r = Inr ())"
  by (cases r; cases "snd r"; auto simp: stop_on_error_def)+

lemma stop_on_error_cases:
  "snd (stop_on_error r) = (case snd r of Inl e \<Rightarrow> Returned (Inl e) | Inr _ \<Rightarrow> Continue None)"
  by (cases r; cases "snd r") (auto simp: stop_on_error_def)

lemma rib_ok_maybe_triggered:
  "rib_ok (database s) \<Longrightarrow> rib_ok (database (fst (fst (maybe_send_triggered_update os (s, lock)))))"
  using rib_ok_send_advertisement [of s os True]
  by (auto simp: maybe_send_triggered_update_def on_world_eq sleep_timer_def
      split: prod.splits sum.splits)

lemma send_request_frame [simp]:
  "database (fst (send_multicast_request os s)) = database s"
  "routing_table (fst (send_multicast_request os s)) = routing_table s"
proof -
  have "keeps (\<lambda>s'. database s' = database s \<and> routing_table s' = routing_table s)
      (for_each (\<lambda>ifc s. map_err (\<lambda>err. IoError (io_error_text err))
         (on_world (rip_send_request_multicast os (ifc_tx ifc)) s)) (interfaces s))"
    by (rule keeps_for_each, rule keepsI) simp
  from keepsD [OF this, of s]
  show "database (fst (send_multicast_request os s)) = database s"
    and "routing_table (fst (send_multicast_request os s)) = routing_table s"
    by (simp_all add: send_multicast_request_def)
qed

text \<open>
  Every branch hands the daemon to one handler; the rest is timers. \<open>arm_deamon\<close> is the daemon it
  leaves, up to clock readings.
\<close>

definition same_rib_state :: "('d, 'n) RipDeamon \<Rightarrow> ('d, 'n) RipDeamon \<Rightarrow> bool" where
  "same_rib_state s s' \<longleftrightarrow> database s = database s' \<and> routing_table s = routing_table s'"

definition arm_deamon ::
  "'n os \<Rightarrow> 'd RoutingTableDriver \<Rightarrow> event \<Rightarrow> ('d, 'n) RunState \<Rightarrow> ('d, 'n) RipDeamon" where
  "arm_deamon os drv ev st =
     (case ev of
        CtrlC (Inr _) \<Rightarrow> handle_shutdown os drv (deamon st)
      | SigTerm \<Rightarrow> handle_shutdown os drv (deamon st)
      | UpdateFired \<Rightarrow> fst (send_multicast_advertisement os False (deamon st))
      | TimeoutFired \<Rightarrow> fst (fst (handle_route_timeout_tick os drv (deamon st, garbage_collection_timer st)))
      | GarbageFired \<Rightarrow> fst (handle_garbage_collection_tick os (deamon st, None))
      | Received (Some packet) \<Rightarrow> fst (handle_packet os drv packet (deamon st))
      | HttpReceived (Some request) \<Rightarrow> fst (handle_http_request os request (deamon st))
      | _ \<Rightarrow> deamon st)"

lemma select_arm_deamon:
  "same_rib_state (deamon (fst (select_arm os drv ev st))) (arm_deamon os drv ev st)"
proof (cases ev)
  case (CtrlC r)
  then show ?thesis by (cases r) (simp_all add: select_arm_def arm_deamon_def same_rib_state_def)
next
  case UpdateFired
  then show ?thesis
    by (cases "send_multicast_advertisement os False (deamon st)";
        cases "snd (send_multicast_advertisement os False (deamon st))")
       (auto simp: select_arm_def arm_deamon_def same_rib_state_def on_deamon_def on_world_eq and_then_def
          split: prod.splits)
next
  case TimeoutFired
  then show ?thesis
    by (auto simp: select_arm_def arm_deamon_def same_rib_state_def on_deamon_def on_world_eq and_then_def
        split: prod.splits sum.splits)
next
  case (Received p)
  then show ?thesis by (cases p) (simp_all add: select_arm_def arm_deamon_def same_rib_state_def)
next
  case (HttpReceived r)
  then show ?thesis
    by (cases r) (simp_all add: select_arm_def arm_deamon_def same_rib_state_def on_deamon_def split: prod.splits)
qed (auto simp: select_arm_def arm_deamon_def same_rib_state_def split: prod.splits)

lemma select_arm_db [simp]:
  "database (deamon (fst (select_arm os drv ev st))) = database (arm_deamon os drv ev st)"
  "routing_table (deamon (fst (select_arm os drv ev st))) = routing_table (arm_deamon os drv ev st)"
  using select_arm_deamon [of os drv ev st] by (simp_all add: same_rib_state_def)

text \<open>Only a signal stops the loop in good order, and it has shut the daemon down.\<close>

lemma select_arm_stops:
  "snd (select_arm os drv ev st) = Returned (Inr u) \<longleftrightarrow> ev = SigTerm \<or> (\<exists>v. ev = CtrlC (Inr v))"
proof (cases ev)
  case (CtrlC r)
  then show ?thesis by (cases r) (simp_all add: select_arm_def)
next
  case (Received p)
  then show ?thesis by (cases p) (simp_all add: select_arm_def stop_on_error_cases split: sum.splits)
next
  case (HttpReceived r)
  then show ?thesis by (cases r) (simp_all add: select_arm_def split: prod.splits)
qed (auto simp: select_arm_def stop_on_error_cases split: prod.splits sum.splits)

lemma rib_ok_arm:
  assumes "rib_ok (database (deamon st))" and "\<And>p. ev = Received (Some p) \<Longrightarrow> sa_ip (source p) \<noteq> 0"
    and "ev \<noteq> SigTerm" and "\<And>v. ev \<noteq> CtrlC (Inr v)"
  shows "rib_ok (database (arm_deamon os drv ev st))"
  using assms
  by (auto simp: arm_deamon_def rib_ok_send_advertisement timeout_tick_frame rib_ok_after_expiry
      gc_tick_database rib_ok_remove_expired rib_ok_handle_packet rib_ok_http_request
      split: event.splits option.splits sum.splits)

lemma rib_ok_turn:
  assumes "rib_ok (database (deamon st))" and "\<And>p. ev = Received (Some p) \<Longrightarrow> sa_ip (source p) \<noteq> 0"
    and "snd (run_turn os drv ev st) \<noteq> Returned (Inr ())"
  shows "rib_ok (database (deamon (fst (run_turn os drv ev st))))"
proof -
  obtain st' t where arm: "select_arm os drv ev st = (st', t)" by fastforce
  have "t \<noteq> Returned (Inr ())"
    using assms(3) arm by (auto simp: run_turn_def)
  then have "ev \<noteq> SigTerm" "ev \<noteq> CtrlC (Inr v)" for v
    using select_arm_stops [of os drv ev st "()"] arm by auto
  then have "rib_ok (database (deamon st'))"
    using rib_ok_arm [OF assms(1,2), where os = os and drv = drv] select_arm_db(1) [of os drv ev st] arm by simp
  then show ?thesis
    using arm rib_ok_maybe_triggered [of "deamon st'" os "triggered_update_lock_timer st'"]
    by (auto simp: run_turn_def triggered_update_def split: turn.splits prod.splits sum.splits)
qed

section \<open>Every reachable state\<close>

definition system_ok :: "('d, 'n) system \<Rightarrow> bool" where
  "system_ok s \<longleftrightarrow>
     (outcome s \<noteq> Some (Inr ()) \<longrightarrow> rib_ok (database (deamon (loop s))))
     \<and> list_all (\<lambda>p. sa_ip (source p) \<noteq> 0) (queue s)"

lemma received_source:
  assumes "rx_task_received checks bs a t = (t', Some packet)"
  shows "a = V4 (source packet)"
  using assms
  by (auto simp: rx_task_received_def parse_rx_data_def Let_def
      split: SocketAddr.splits option.splits sum.splits)

lemma system_ok_step:
  assumes "system_ok s" and "has_sender l" and "system_step os drv checks l s = Some s'"
  shows "system_ok s'"
proof (cases l)
  case (Datagram i bs a)
  have "sa_ip (source packet) \<noteq> 0" if "rx_task_received checks bs a (tasks s ! i) = (t, Some packet)" for t packet
    using received_source [OF that] assms(2) Datagram by simp
  then show ?thesis
    using assms Datagram by (auto simp: system_step_def system_ok_def split: if_splits prod.splits option.splits)
next
  case (RxFailed i)
  then show ?thesis using assms by (auto simp: system_step_def system_ok_def split: if_splits)
next
  case (Turn now ev)
  have avail: "available s ev" and rib: "rib_ok (database (deamon (loop s)))"
    and s': "s' = (case run_turn os drv ev (loop s) of
               (st, t) \<Rightarrow>
                 s\<lparr> loop := st,
                    queue := (case ev of Received (Some _) \<Rightarrow> tl (queue s) | _ \<Rightarrow> queue s),
                    outcome := (case t of Returned res \<Rightarrow> Some res | Continue _ \<Rightarrow> None) \<rparr>)"
    using assms(1,3) Turn by (auto simp: system_step_def system_ok_def split: if_splits prod.splits)
  have src: "sa_ip (source p) \<noteq> 0" if "ev = Received (Some p)" for p
    using avail assms(1) that by (cases "queue s") (auto simp: available_def system_ok_def)
  have "list_all (\<lambda>p. sa_ip (source p) \<noteq> 0) (queue s')"
    using assms(1) unfolding s'
    by (cases "queue s") (auto simp: system_ok_def split: prod.splits event.splits option.splits)
  then show ?thesis
    using rib_ok_turn [OF rib src, where ev = ev and os = os and drv = drv] unfolding s'
    by (auto simp: system_ok_def split: prod.splits turn.splits)
next
  case (Reorder db)
  then show ?thesis
    using assms rib_ok_same_db
    by (auto simp: system_step_def system_ok_def set_database_def split: if_splits)
qed

lemma system_ok_reachable:
  assumes "reachable has_sender os drv checks s0 s" and "system_ok s0"
  shows "system_ok s"
  using assms by (induction rule: reachable.induct) (auto intro: system_ok_step)

section \<open>Agreement with the kernel\<close>

lemma run_turn_continues:
  assumes "run_turn os drv ev st = (st', Continue reply)"
  shows "\<exists>st1. select_arm os drv ev st = (st1, Continue reply) \<and> triggered_update os st1 = (st', Inr ())"
  using assms by (auto simp: run_turn_def split: turn.splits prod.splits sum.splits)

lemma select_arm_ok:
  assumes "snd (select_arm os drv ev st) = Continue reply"
  shows "ev = TimeoutFired \<Longrightarrow>
      snd (handle_route_timeout_tick os drv (deamon st, garbage_collection_timer st)) = Inr ()"
    and "ev = Received (Some packet) \<Longrightarrow> snd (handle_packet os drv packet (deamon st)) = Inr ()"
    and "ev \<noteq> SigTerm \<and> ev \<noteq> CtrlC r \<and> ev \<noteq> Received None"
  using assms
  by (auto simp: select_arm_def stop_on_error_cases and_then_def split: prod.splits sum.splits)

lemma triggered_update_table:
  "routing_table (deamon (fst (triggered_update os st))) = routing_table (deamon st)"
  "installed (database (deamon (fst (triggered_update os st)))) = installed (database (deamon st))"
  by (auto simp: triggered_update_def maybe_send_triggered_update_def on_world_eq sleep_timer_def
      send_multicast_advertisement_def map_err_def and_then_def split: prod.splits sum.splits)

context fib_driver
begin

lemma fib_ok_arm:
  assumes "fib_ok (deamon st)" and "\<And>p. ev = Received (Some p) \<Longrightarrow> sa_ip (source p) \<noteq> 0"
    and "snd (select_arm os drv ev st) = Continue reply"
  shows "fib_ok (arm_deamon os drv ev st)"
proof (cases ev)
  case (CtrlC r)
  then show ?thesis using select_arm_ok(3) [OF assms(3)] by blast
next
  case SigTerm
  then show ?thesis using select_arm_ok(3) [OF assms(3)] by blast
next
  case TimeoutFired
  then show ?thesis
    using fib_ok_timeout_tick [OF assms(1)] select_arm_ok(1) [OF assms(3)] by (simp add: arm_deamon_def)
next
  case (Received p)
  then obtain packet where p: "p = Some packet"
    using select_arm_ok(3) [OF assms(3)] by (cases p) auto
  then show ?thesis
    using Received fib_ok_handle_packet [OF assms(1)] assms(2) select_arm_ok(2) [OF assms(3)]
    by (simp add: arm_deamon_def)
next
  case (HttpReceived r)
  then show ?thesis using assms(1) by (cases r) (simp_all add: arm_deamon_def fib_ok_http_request)
qed (use assms(1) in \<open>simp_all add: arm_deamon_def fib_ok_send_advertisement fib_ok_gc_tick\<close>)

lemma fib_ok_turn:
  assumes "fib_ok (deamon st)" and "\<And>p. ev = Received (Some p) \<Longrightarrow> sa_ip (source p) \<noteq> 0"
    and "run_turn os drv ev st = (st', Continue reply)"
  shows "fib_ok (deamon st')"
proof -
  obtain st1 where arm: "select_arm os drv ev st = (st1, Continue reply)"
    and trig: "triggered_update os st1 = (st', Inr ())"
    using run_turn_continues [OF assms(3)] by blast
  have "rib_ok (database (deamon st'))"
    using rib_ok_turn [OF fib_okD(1) [OF assms(1)] assms(2), where ev = ev and os = os and drv = drv] assms(3)
    by simp
  moreover have "fib_ok (arm_deamon os drv ev st)"
    using fib_ok_arm [OF assms(1,2)] arm by simp
  ultimately show ?thesis
    using triggered_update_table [of os st1] select_arm_db [of os drv ev st] arm trig
    by (simp add: fib_ok_def)
qed

definition system_fib_ok :: "('d, 'n) system \<Rightarrow> bool" where
  "system_fib_ok s \<longleftrightarrow>
     (outcome s = None \<longrightarrow> fib_ok (deamon (loop s))) \<and> list_all (\<lambda>p. sa_ip (source p) \<noteq> 0) (queue s)"

lemma system_fib_ok_step:
  assumes "system_fib_ok s" and "has_sender l" and "system_step os drv checks l s = Some s'"
  shows "system_fib_ok s'"
proof (cases l)
  case (Turn now ev)
  have avail: "available s ev" and fib: "fib_ok (deamon (loop s))"
    and s': "s' = (case run_turn os drv ev (loop s) of
               (st, t) \<Rightarrow>
                 s\<lparr> loop := st,
                    queue := (case ev of Received (Some _) \<Rightarrow> tl (queue s) | _ \<Rightarrow> queue s),
                    outcome := (case t of Returned res \<Rightarrow> Some res | Continue _ \<Rightarrow> None) \<rparr>)"
    using assms(1,3) Turn by (auto simp: system_step_def system_fib_ok_def split: if_splits prod.splits)
  have src: "sa_ip (source p) \<noteq> 0" if "ev = Received (Some p)" for p
    using avail assms(1) that by (cases "queue s") (auto simp: available_def system_fib_ok_def)
  have "list_all (\<lambda>p. sa_ip (source p) \<noteq> 0) (queue s')"
    using assms(1) unfolding s'
    by (cases "queue s") (auto simp: system_fib_ok_def split: prod.splits event.splits option.splits)
  moreover have "fib_ok (deamon st')" if "run_turn os drv ev (loop s) = (st', Continue reply)" for st' reply
    using fib_ok_turn [OF fib src that] by blast
  ultimately show ?thesis
    unfolding s' by (auto simp: system_fib_ok_def split: prod.splits turn.splits)
next
  case (Datagram i bs a)
  have "sa_ip (source packet) \<noteq> 0" if "rx_task_received checks bs a (tasks s ! i) = (t, Some packet)" for t packet
    using received_source [OF that] assms(2) Datagram by simp
  then show ?thesis
    using assms Datagram by (auto simp: system_step_def system_fib_ok_def split: if_splits prod.splits option.splits)
next
  case (RxFailed i)
  then show ?thesis using assms by (auto simp: system_step_def system_fib_ok_def split: if_splits)
next
  case (Reorder db)
  then show ?thesis
    using assms rib_ok_same_db installed_same_db [of "database (deamon (loop s))" db]
    by (auto simp: system_step_def system_fib_ok_def set_database_def fib_ok_def split: if_splits)
qed

lemma system_fib_ok_reachable:
  assumes "reachable has_sender os drv checks s0 s" and "system_fib_ok s0"
  shows "system_fib_ok s"
  using assms by (induction rule: reachable.induct) (auto intro: system_fib_ok_step)

end

section \<open>From the start\<close>

text \<open>
  \<^verbatim>\<open>run\<close> up to its loop gives the system to step, with an empty channel. \<open>run_rip_deamon\<close> is the
  function of \<^verbatim>\<open>main.rs\<close>: what opening the netlink connection gave is an argument, binding the HTTP
  server's address another, and every \<^verbatim>\<open>?\<close> before the loop is an error.
\<close>

definition system_start ::
  "'n os \<Rightarrow> io_error + unit \<Rightarrow> ('d, 'n) RipDeamon \<Rightarrow> ('d, 'n) system RipResult" where
  "system_start os sigterm_handler s =
     (case run_start os sigterm_handler s of
        (_, Inl err) \<Rightarrow> Inl err
      | (_, Inr (st, ts)) \<Rightarrow> Inr \<lparr> loop = st, tasks = ts, queue = [], outcome = None \<rparr>)"

definition run_rip_deamon ::
  "'n os \<Rightarrow> io_error + unit \<Rightarrow> (string \<Rightarrow> string + Cfg) \<Rightarrow> (string \<Rightarrow> io_error + string)
    \<Rightarrow> string + 'k \<Rightarrow> (string \<Rightarrow> io_error + unit) \<Rightarrow> ProgramArgs \<Rightarrow> 'n \<Rightarrow> (('k, 'n) system \<times> http_server) RipResult" where
  "run_rip_deamon os sigterm_handler yaml_from_str read_to_string new_connection tcp_bind args n =
     (case RtNetlinkRoutingTableDriver_new new_connection of
        Inl err \<Rightarrow> Inl err
      | Inr d \<Rightarrow>
          (case RipDeamon_setup os yaml_from_str read_to_string (cfg_path args)
                  (RipDeamon_new (RoutingTable_with_driver d) n) of
             (_, Inl err) \<Rightarrow> Inl err
           | (s, Inr _) \<Rightarrow>
               (case spawn_http_server os tcp_bind (log_file_path args) of
                  Inl err \<Rightarrow> Inl err
                | Inr server \<Rightarrow>
                    (case system_start os sigterm_handler s of
                       Inl err \<Rightarrow> Inl err
                     | Inr s0 \<Rightarrow> Inr (s0, server)))))"

lemma system_start_frame:
  assumes "system_start os h s = Inr s0"
  shows "database (deamon (loop s0)) = database s" "routing_table (deamon (loop s0)) = routing_table s"
    "queue s0 = []" "outcome s0 = None"
  using assms
  by (auto simp: system_start_def run_start_def on_world_eq sleep_timer_def spawn_rx_tasks_def
      split: prod.splits sum.splits)

lemma run_rip_deamon_starts:
  assumes "run_rip_deamon os h yaml read (Inr d) bind args n = Inr (s0, server)"
  shows "system_start os h (fst (RipDeamon_setup os yaml read (cfg_path args)
      (RipDeamon_new (RoutingTable_with_driver d) n))) = Inr s0"
    and "spawn_http_server os bind (log_file_path args) = Inr server"
  using assms by (auto simp: run_rip_deamon_def RtNetlinkRoutingTableDriver_new_def split: prod.splits sum.splits)

lemma setup_sockets_frame [simp]:
  "database (fst (setup_sockets os cfg s)) = database s"
  "routing_table (fst (setup_sockets os cfg s)) = routing_table s"
proof -
  have "keeps (\<lambda>s'. database s' = database s \<and> routing_table s' = routing_table s)
      (for_each (\<lambda>ifc_cfg s.
         and_then (on_world (RipIfc_create os (rif_dev ifc_cfg)) s) (\<lambda>ifc s.
         (s\<lparr> interfaces := interfaces s @ [ifc] \<rparr>, Inr ()))) (rip_interfaces cfg))"
    by (rule keeps_for_each, rule keepsI) (simp add: on_world_eq and_then_def split: sum.splits)
  from keepsD [OF this, of s]
  show "database (fst (setup_sockets os cfg s)) = database s"
    and "routing_table (fst (setup_sockets os cfg s)) = routing_table s"
    by (simp_all add: setup_sockets_def)
qed

lemma keeps_setup:
  assumes "\<And>network. keeps P (setup_advertised_network os network)" and "\<And>cfg. keeps P (setup_sockets os cfg)"
  shows "keeps P (RipDeamon_setup os yaml read path)"
  unfolding RipDeamon_setup_def
  by (intro keeps_and_then keeps_return keeps_for_each assms)

lemma rib_ok_setup: "rib_ok (database s) \<Longrightarrow> rib_ok (database (fst (RipDeamon_setup os yaml read path s)))"
  by (rule keepsD [OF keeps_setup, where P = "\<lambda>s. rib_ok (database s)"])
     (simp_all add: keeps_def rib_ok_setup_network)

context fib_driver
begin

lemma fib_ok_setup: "fib_ok s \<Longrightarrow> fib_ok (fst (RipDeamon_setup os yaml read path s))"
  by (rule keepsD [OF keeps_setup, where P = fib_ok])
     (simp_all add: keeps_def fib_ok_setup_network, simp add: fib_ok_def)

end

text \<open>The invariants of every state a started program can reach.\<close>

lemma started_rib_ok:
  assumes "run_rip_deamon os h yaml read (Inr d) bind args n = Inr (s0, server)"
    and "reachable has_sender os drv checks s0 s" and "outcome s \<noteq> Some (Inr ())"
  shows "rib_ok (database (deamon (loop s)))"
proof -
  have "rib_ok (database (RipDeamon_new (RoutingTable_with_driver d) n))"
    by (simp add: RipDeamon_new_def rib_ok_new)
  then have "system_ok s0"
    using system_start_frame [OF run_rip_deamon_starts(1) [OF assms(1)]] rib_ok_setup by (simp add: system_ok_def)
  then show ?thesis
    using system_ok_reachable [OF assms(2)] assms(3) by (auto simp: system_ok_def)
qed

lemma started_fib_ok:
  assumes "route_kernel exec_add exec_del fib" and "fib k = {}"
    and "run_rip_deamon os h yaml read (Inr k) bind args n = Inr (s0, server)"
    and "reachable has_sender os (rtnetlink_driver exec_add exec_del) checks s0 s" and "outcome s = None"
  shows "fib_driver.fib_ok fib (deamon (loop s))"
proof -
  note netlink = route_kernel.netlink_fib_driver [OF assms(1)]
  let ?new = "RipDeamon_new (RoutingTable_with_driver k) n"
  have "fib_driver.fib_ok fib ?new"
    using assms(2) rib_ok_new
    by (simp add: fib_driver.fib_ok_def [OF netlink] RipDeamon_new_def RoutingTable_with_driver_def)
  then have start: "fib_driver.fib_ok fib (fst (RipDeamon_setup os yaml read (cfg_path args) ?new))"
    by (rule fib_driver.fib_ok_setup [OF netlink])
  have "fib_driver.system_fib_ok fib s0"
    using start system_start_frame [OF run_rip_deamon_starts(1) [OF assms(3)]]
    by (simp add: fib_driver.system_fib_ok_def [OF netlink] fib_driver.fib_ok_def [OF netlink])
  from fib_driver.system_fib_ok_reachable [OF netlink assms(4) this] assms(5)
  show ?thesis by (simp add: fib_driver.system_fib_ok_def [OF netlink])
qed

lemma fib_okD_kernel:
  assumes "route_kernel exec_add exec_del fib" and "fib_driver.fib_ok fib s"
  shows "rib_ok (database s)" and "fib (driver (routing_table s)) = installed (database s)"
  using assms(2) fib_driver.fib_ok_def [OF route_kernel.netlink_fib_driver [OF assms(1)], of s] by simp_all

section \<open>Receive tasks\<close>

lemma stopped_task_step:
  assumes "system_step os drv checks l s = Some s'" and "i < length (tasks s)" and "\<not> rx_running (tasks s ! i)"
  shows "i < length (tasks s') \<and> \<not> rx_running (tasks s' ! i)"
  using assms
  by (auto simp: system_step_def set_database_def nth_list_update split: label.splits if_splits prod.splits
      option.splits)

lemma stopped_task_reachable:
  assumes "reachable env os drv checks s0 s" and "i < length (tasks s0)" and "\<not> rx_running (tasks s0 ! i)"
  shows "i < length (tasks s) \<and> \<not> rx_running (tasks s ! i)"
  using assms by (induction rule: reachable.induct) (auto dest: stopped_task_step)

lemma malformed_datagram:
  assumes "length bs \<le> RX_BUFFER_SIZE" and "length bs mod 20 \<noteq> 4"
  shows "rx_task_received checks bs a t = (t\<lparr> rx_running := False \<rparr>, None)"
proof -
  have "RipPacketData_from_slice checks bs = None \<or> RipPacketData_from_slice checks bs = Some (Inl MalformedPacket)"
  proof (cases "length bs < 4")
    case True
    then show ?thesis by (simp add: from_slice_short)
  next
    case False
    then have "length bs mod 20 = (length bs - 4 + 4) mod 20" by simp
    also have "\<dots> = ((length bs - 4) mod 20 + 4) mod 20" by (rule mod_add_left_eq [symmetric])
    finally have "(length bs - 4) mod 20 \<noteq> 0" using assms(2) by (cases "(length bs - 4) mod 20 = 0") auto
    then show ?thesis using False from_slice_ragged [of bs checks] by simp
  qed
  then show ?thesis
    using assms(1) by (auto simp: rx_task_received_def parse_rx_data_def Let_def split: SocketAddr.splits)
qed

section \<open>Timers\<close>

lemma triggered_update_lock:
  assumes "triggered_update os st = (st', Inr ())" and "triggered_update_lock_timer st' = None"
  shows "\<not> any_route_changed (database (deamon st'))"
  using assms
  by (auto simp: triggered_update_def maybe_send_triggered_update_def on_world_eq sleep_timer_def
      split: prod.splits sum.splits if_splits)

lemma triggered_update_frame:
  "garbage_collection_timer (fst (triggered_update os st)) = garbage_collection_timer st"
  "garbage_routes (database (deamon (fst (triggered_update os st)))) = [] \<longleftrightarrow>
     garbage_routes (database (deamon st)) = []"
  by (auto simp: triggered_update_def maybe_send_triggered_update_def on_world_eq sleep_timer_def
      send_multicast_advertisement_def map_err_def and_then_def mark_all_routes_as_unchanged_def
      hm_map_values_def split: prod.splits sum.splits)

lemma select_arm_collector:
  assumes "snd (select_arm os drv ev st) = Continue reply"
  shows "ev = GarbageFired \<and> garbage_collection_timer (fst (select_arm os drv ev st)) =
        snd (handle_garbage_collection_tick os (deamon st, None))
    \<or> ev = TimeoutFired \<and> garbage_collection_timer (fst (select_arm os drv ev st)) =
        snd (fst (handle_route_timeout_tick os drv (deamon st, garbage_collection_timer st)))
    \<or> ev \<noteq> GarbageFired \<and> ev \<noteq> TimeoutFired
      \<and> garbage_collection_timer (fst (select_arm os drv ev st)) = garbage_collection_timer st"
proof (cases ev)
  case (CtrlC r)
  then show ?thesis by (cases r) (simp_all add: select_arm_def)
next
  case UpdateFired
  then show ?thesis
    by (auto simp: select_arm_def and_then_def on_deamon_def split: prod.splits sum.splits)
next
  case (Received p)
  then show ?thesis by (cases p) (simp_all add: select_arm_def)
next
  case (HttpReceived r)
  then show ?thesis by (cases r) (simp_all add: select_arm_def on_deamon_def split: prod.splits)
next
  case TimeoutFired
  then show ?thesis
    by (auto simp: select_arm_def and_then_def on_deamon_def split: prod.splits sum.splits)
qed (auto simp: select_arm_def split: prod.splits)

lemma collector_stays_armed:
  assumes "run_turn os drv ev st = (st', Continue reply)" and "garbage_collection_timer st \<noteq> None"
    and "has_garbage_routes (database (deamon st'))"
  shows "garbage_collection_timer st' \<noteq> None"
proof -
  obtain st1 where arm: "select_arm os drv ev st = (st1, Continue reply)"
    and trig: "triggered_update os st1 = (st', Inr ())"
    using run_turn_continues [OF assms(1)] by blast
  have gc: "garbage_collection_timer st' = garbage_collection_timer st1"
    and garbage: "has_garbage_routes (database (deamon st1))"
    using triggered_update_frame [of os st1] trig assms(3)
    by (simp_all add: has_garbage_routes_def hm_is_empty_def)
  have tick: "snd (handle_route_timeout_tick os drv (deamon st, garbage_collection_timer st)) = Inr ()"
    if "ev = TimeoutFired" using select_arm_ok(1) [of os drv ev st reply] arm that by simp
  have "snd (fst (handle_route_timeout_tick os drv (deamon st, garbage_collection_timer st))) =
      garbage_collection_timer st" if "ev = TimeoutFired"
    using timeout_tick_timer(2) [of os drv "deamon st" "garbage_collection_timer st"] tick [OF that] assms(2)
    by (cases "handle_route_timeout_tick os drv (deamon st, garbage_collection_timer st)") auto
  moreover have "snd (handle_garbage_collection_tick os (deamon st, None)) \<noteq> None" if "ev = GarbageFired"
    using gc_tick_timer(2) [of os "deamon st" None] garbage arm that select_arm_db(1) [of os drv ev st]
    by (simp add: arm_deamon_def)
  ultimately show ?thesis
    using select_arm_collector [of os drv ev st reply] arm assms(2) gc by auto
qed

section \<open>Durations\<close>

lemma random_millis_bounds:
  assumes "lo \<le> hi" and "hi - lo + 1 \<noteq> 0"
  shows "lo \<le> snd (random_millis_in_range os lo hi n) \<and> snd (random_millis_in_range os lo hi n) \<le> hi"
proof -
  obtain x where x: "snd (random_millis_in_range os lo hi n) = lo + x mod (hi - lo + 1)"
    by (cases "unix_subsec_nanos os n") (simp add: random_millis_in_range_def Let_def)
  have "unat (hi - lo + 1) = unat hi - unat lo + 1"
    using assms unatSuc [of "hi - lo"] by (simp add: unat_sub word_le_nat_alt add.commute)
  moreover have "unat (x mod (hi - lo + 1)) < unat (hi - lo + 1)"
    using assms(2) by (simp add: unat_mod unat_gt_0)
  ultimately have r: "unat lo + unat (x mod (hi - lo + 1)) \<le> unat hi"
    using assms(1) by (simp add: word_le_nat_alt)
  also have "unat hi < 2 ^ LENGTH(64)" by (rule unsigned_less)
  finally have "unat (lo + x mod (hi - lo + 1)) = unat lo + unat (x mod (hi - lo + 1))"
    by (simp add: unat_word_ariths)
  with r x show ?thesis by (simp add: word_le_nat_alt)
qed

end
