(* ===== verification/Rip_Samples.thy ===== *)
theory Rip_Samples
  imports Rip_System
begin

text \<open>
  Concrete inputs for the witnesses, and the rules that evaluate the handlers on them: the
  definitions, and weak congruences that keep the simplifier out of the code still to be run.
\<close>

section \<open>Samples\<close>

text \<open>
  A response of the neighbour 192.168.0.1 on interface 7, with the entries 10.0.k.0/24 of metric m, for
  the daemon \<^const>\<open>sample_deamon\<close> over the reference kernel with nothing installed.
\<close>

definition sample_packet :: "(u32 \<times> u32) list \<Rightarrow> RipPacket" where
  "sample_packet kms =
     \<lparr> packet_data =
         \<lparr> header = \<lparr> command = 2, version = 2, padding = 0 \<rparr>,
           entries = map (\<lambda>(k, m). sample_entry k 0 m) kms \<rparr>,
       if_info = \<lparr> info_if_name = ''eth0'', info_if_index = 7 \<rparr>,
       source = \<lparr> sa_ip = 3232235521, sa_port = 520 \<rparr> \<rparr>"

text \<open>The configuration file of the samples: RIP on eth0, 172.16.0.0/16 of eth1 advertised.\<close>

definition sample_configuration :: RipConfiguration where
  "sample_configuration =
     \<lparr> cfg_version = 2, rip_interfaces = [\<lparr> rif_dev = ''eth0'' \<rparr>],
       advertised_networks = [\<lparr> net_address = ''172.16.0.1'', net_prefix = 16, net_dev = ''eth1'' \<rparr>] \<rparr>"

section \<open>Evaluation\<close>

lemma and_then_weak: "r = r' \<Longrightarrow> and_then r k = and_then r' k"
  by simp

lemma map_err_weak: "r = r' \<Longrightarrow> map_err f r = map_err f r'"
  by simp

lemma for_each_weak: "xs = ys \<Longrightarrow> s = t \<Longrightarrow> for_each f xs s = for_each f ys t"
  by simp

lemmas weak_congs = and_then_weak map_err_weak for_each_weak

lemma sample_mask: "is_net_mask_valid 4294967040" "leading_ones (4294967040 :: u32) = 24"
  by code_simp+

lemma sample_addresses:
  "is_unicast_address 167772416" "is_unicast_address 167772672" "is_unicast_address 167772928"
  by code_simp+

lemmas packet_evals = handle_packet_def handle_response_packet_def response_entry_to_route_def
  is_entry_valid_def is_metric_valid_def update_metric_def saturating_add_def RIP_INFINITY_METRIC_def
  RipPacket_is_request_def RipPacket_is_response_def RipPacketData_is_request_def
  RipPacketData_is_response_def rip_constants sample_mask sample_addresses

lemmas route_evals = update_route_from_response_def handle_poisoned_route_from_response_def
  replace_route_from_response_def route_is_from_current_next_hop_def Let_def on_field_eqs

lemmas database_evals = add_remote_route_def add_local_route_def add_route_def remove_route_def
  remove_garbage_route_def refresh_route_timeout_def move_route_to_garbage_def to_garbage_def
  get_route_def has_garbage_route_def build_route_key_def hm_defs

lemmas table_evals = RoutingTable_add_route_def RoutingTable_delete_route_def rtnetlink_driver_def
  rtnetlink_add_route_def rtnetlink_delete_route_def table_kernel_add_def table_kernel_del_def
  same_slot_def build_route_message_def RIP_ROUTE_PRIORITY_BASE_def i32_abs_def EEXIST_def ESRCH_def
  ENOENT_def

lemmas sample_evals = sample_packet_def sample_deamon_def sample_entry_def RipDatabase_new_def
  RoutingTable_with_driver_def quiet_os_def

lemmas handler_evals = packet_evals route_evals database_evals table_evals sample_evals

lemma sample_db_rib_ok: "rib_ok (sample_db [])" "rib_ok (sample_db [1])" "rib_ok (sample_db [2])"
  "rib_ok (sample_db [1, 2])"
  by code_simp+

section \<open>Timers\<close>

text \<open>
  A route one check away from its timeout, alone in a database; the same route as garbage since
  \<open>t\<close>; a clock that stands at 200 seconds; a driver that cannot delete.
\<close>

definition sample_old_route :: RipDbEntry where
  "sample_old_route =
     \<lparr> rip_entry = sample_entry 1 3232235521 2, if_index = 7, if_name = ''eth0'', changed = False,
       is_local = False, in_routing_table = True, timeout_cnt = 165, garbage_started_at = None \<rparr>"

definition sample_old_db :: RipDatabase where
  "sample_old_db =
     \<lparr> ok_routes = [(build_route_key (sample_entry 1 0 0), sample_old_route)], garbage_routes = [],
       any_changed = False \<rparr>"

definition sample_changed_db :: RipDatabase where
  "sample_changed_db =
     \<lparr> ok_routes = [(build_route_key (sample_entry 1 0 0), sample_old_route\<lparr> changed := True \<rparr>)],
       garbage_routes = [], any_changed = True \<rparr>"

definition sample_garbage_db :: "Instant \<Rightarrow> RipDatabase" where
  "sample_garbage_db t =
     \<lparr> ok_routes = [], garbage_routes = [(build_route_key (sample_entry 1 0 0), to_garbage t sample_old_route)],
       any_changed = True \<rparr>"

definition sample_late_os :: "unit os" where
  "sample_late_os = quiet_os\<lparr> instant_now := (\<lambda>n. (n, 200000000000)) \<rparr>"

definition stubborn_driver :: "unit RoutingTableDriver" where
  "stubborn_driver =
     \<lparr> drv_add_route = (\<lambda>d r. (d, Inr ())),
       drv_delete_route = (\<lambda>d r. (d, Inl (IoError ''failed to delete route: busy''))) \<rparr>"

lemma sample_old_db_ok:
  "rib_ok sample_old_db"
  "hm_get (ok_routes sample_old_db) (build_route_key (sample_entry 1 0 0)) = Some sample_old_route"
  by code_simp+

lemma sample_garbage_db_ok:
  "rib_ok (sample_garbage_db 0)"
  "hm_get (garbage_routes (sample_garbage_db 0)) (build_route_key (sample_entry 1 0 0)) =
     Some (to_garbage 0 sample_old_route)"
  by code_simp+

lemmas tick_evals = handle_route_timeout_tick_def handle_garbage_collection_tick_def
  collect_timed_out_routes_def timeout_closure_def expire_route_def sleep_timer_def
  timeout_check_interval_secs_def route_timeout_secs_def env_u64_or_default_def
  garbage_collection_lifetime_secs_def garbage_collection_interval_secs_def
  RIP_TIMEOUT_CHECK_INTERVAL_SECS_def RIP_ROUTE_TIMEOUT_SECS_def
  RIP_GARBAGE_COLLECTION_LIFETIME_SECS_def RIP_GARBAGE_COLLECTION_INTERVAL_SECS_def
  remove_expired_garbage_routes_def garbage_expired_def duration_since_def duration_from_secs_def
  nanos_per_sec_def has_garbage_routes_def List.map_filter_simps sample_old_db_def sample_old_route_def
  handler_evals

section \<open>The loop\<close>

definition sample_run :: "RipDatabase \<Rightarrow> timer \<Rightarrow> (RouteMessage list, unit) RunState" where
  "sample_run db gc =
     \<lparr> deamon = sample_deamon db, request_warmup_timer = None, update_timer = 30000000000,
       triggered_update_lock_timer = None, timeout_timer = 15000000000, garbage_collection_timer = gc,
       http_open = True \<rparr>"

lemmas advertisement_evals = send_multicast_advertisement_def rip_send_advertisement_multicast_def
  mark_all_routes_as_unchanged_def mark_unchanged_def any_route_changed_def

lemmas run_evals = run_turn_def select_arm_def triggered_update_def maybe_send_triggered_update_def
  on_deamon_def stop_on_error_def create_triggered_update_lock_duration_def random_millis_in_range_def
  RIP_TRIGGERED_UPDATE_LOCK_MIN_MILLIS_def RIP_TRIGGERED_UPDATE_LOCK_MAX_MILLIS_def
  duration_from_millis_def nanos_per_milli_def sample_run_def advertisement_evals tick_evals

section \<open>Sending\<close>

text \<open>A world that records the calls made, and a daemon with one interface, eth1 of index 8.\<close>

definition recording_os :: "syscall list os" where
  "recording_os =
     \<lparr> sys = recording_sys, if_nametoindex = (\<lambda>n name. (n, 7)),
       last_os_error = (\<lambda>_. OsError ''No such device (os error 19)''),
       instant_now = (\<lambda>n. (n, 0)), unix_subsec_nanos = (\<lambda>n. (n, None)), env_var = (\<lambda>_. None),
       endianness = Big \<rparr>"

definition sample_sender :: "RipDatabase \<Rightarrow> (unit, syscall list) RipDeamon" where
  "sample_sender db =
     \<lparr> routing_table = \<lparr> driver = () \<rparr>,
       interfaces = [\<lparr> ifc_if_name = ''eth1'', ifc_rx = None,
         ifc_tx = \<lparr> sock_fd = 4, sock_if_name = ''eth1'', sock_if_index = 8 \<rparr> \<rparr>],
       database = db, world = [] \<rparr>"

lemma sample_buffers:
  "length (build_response_buffers Big (sample_db [1]) 8 True) = 1"
  "build_response_buffers Big (sample_db [1]) 7 False \<noteq> []"
  by code_simp+

section \<open>A sample execution\<close>

text \<open>
  The sample configuration started over the reference kernel, and the labels of a short execution:
  a neighbour's response arrives on the first interface and the loop handles it.
\<close>

definition sample_bytes :: "u8 list" where
  "sample_bytes = packet_wire (packet_data (sample_packet [(1, 1)]))"

definition sample_start :: "(RouteMessage list, unit) RipDeamon" where
  "sample_start =
     fst (RipDeamon_setup quiet_os (\<lambda>_. Inr \<lparr> rip_configuration = sample_configuration \<rparr>) (\<lambda>_. Inr ''yaml'')
            ''cfg.yml'' (RipDeamon_new (RoutingTable_with_driver []) ()))"

definition sample_local :: RipDbEntry where
  "sample_local = new_db_entry (local_route_entry 2886729728 4294901760) 8 ''eth1'' True"

lemma sample_names:
  "ifc_nametoindex quiet_os ''eth0'' () = ((), Inr 7)" "ifc_nametoindex quiet_os ''eth1'' () = ((), Inr 8)"
  using ifc_buffer [of "''eth0''"] ifc_buffer [of "''eth1''"]
  by (simp_all add: ifc_nametoindex_def IFNAMSIZ_def Let_def quiet_os_def)

lemma sample_local_address:
  "ipv4_from_str ''172.16.0.1'' = Some 2886729729"
  "mask_of 16 = 4294901760"
  by (code_simp, simp add: mask_of_def mask_eq_exp_minus_1)

lemma sample_start_both:
  "sample_start =
     \<lparr> routing_table = \<lparr> driver = [] \<rparr>,
       interfaces = [\<lparr> ifc_if_name = ''eth0'',
         ifc_rx = Some \<lparr> sock_fd = 3, sock_if_name = ''eth0'', sock_if_index = 7 \<rparr>,
         ifc_tx = \<lparr> sock_fd = 3, sock_if_name = ''eth0'', sock_if_index = 7 \<rparr> \<rparr>],
       database = \<lparr> ok_routes = [(build_route_key (rip_entry sample_local), sample_local)],
                    garbage_routes = [], any_changed = True \<rparr>,
       world = () \<rparr>
   \<and> snd (RipDeamon_setup quiet_os (\<lambda>_. Inr \<lparr> rip_configuration = sample_configuration \<rparr>) (\<lambda>_. Inr ''yaml'')
       ''cfg.yml'' (RipDeamon_new (RoutingTable_with_driver []) ())) = Inr ()"
proof -
  have sockets: "setup_sockets quiet_os sample_configuration (RipDeamon_new (RoutingTable_with_driver []) ()) =
      (\<lparr> routing_table = \<lparr> driver = [] \<rparr>,
         interfaces = [\<lparr> ifc_if_name = ''eth0'',
           ifc_rx = Some \<lparr> sock_fd = 3, sock_if_name = ''eth0'', sock_if_index = 7 \<rparr>,
           ifc_tx = \<lparr> sock_fd = 3, sock_if_name = ''eth0'', sock_if_index = 7 \<rparr> \<rparr>],
         database = RipDatabase_new, world = () \<rparr>, Inr ())"
    by (simp add: setup_sockets_def sample_configuration_def RipDeamon_new_def RoutingTable_with_driver_def
        on_world_eq RipIfc_create_def RipIfc_create_ifc_def RipSocket_new_tx_socket_def RipSocket_new_rx_socket_def
        sample_names create_multicast_tx_socket_def create_multicast_rx_socket_def bind_port_and_device_def
        into_tokio_socket_def, simp add: quiet_os_def)
  have network: "advertised_network_to_local_route quiet_os
        \<lparr> net_address = ''172.16.0.1'', net_prefix = 16, net_dev = ''eth1'' \<rparr> () =
      ((), Inr \<lparr> lr_entry = local_route_entry 2886729728 4294901760, lr_if_index = 8, lr_if_name = ''eth1'' \<rparr>)"
    by (simp add: advertised_network_to_local_route_def sample_names sample_local_address prefix_to_mask_eq)
  show ?thesis
    unfolding sample_start_def RipDeamon_setup_def RipConfiguration_read_and_parse_def RipConfiguration_parse_def
    by (simp add: sockets, simp add: sample_configuration_def setup_advertised_network_def on_world_eq network
        on_database_eq add_local_route_eq db_store_def sample_local_def RipDatabase_new_def hm_defs get_route_def)
qed

lemmas sample_start_eq = conjunct1 [OF sample_start_both]
lemmas sample_setup_ok = conjunct2 [OF sample_start_both]

definition sample_system :: "(RouteMessage list, unit) system" where
  "sample_system = projr (system_start quiet_os (Inr ()) sample_start)"

lemma sample_system_start: "system_start quiet_os (Inr ()) sample_start = Inr sample_system"
  by (simp add: sample_system_def system_start_def run_start_def on_world_eq sleep_timer_def spawn_rx_tasks_def
      split: prod.splits)

definition sample_server :: "string option \<Rightarrow> http_server" where
  "sample_server logf = projr (spawn_http_server quiet_os (\<lambda>_. Inr ()) logf)"

lemma sample_run_rip_deamon:
  "run_rip_deamon quiet_os (Inr ()) (\<lambda>_. Inr \<lparr> rip_configuration = sample_configuration \<rparr>) (\<lambda>_. Inr ''yaml'')
     (Inr []) (\<lambda>_. Inr ()) \<lparr> cfg_path = ''cfg.yml'', log_file_path = logf \<rparr> () = Inr (sample_system, sample_server logf)"
proof -
  let ?ready = "RipDeamon_setup quiet_os (\<lambda>_. Inr \<lparr> rip_configuration = sample_configuration \<rparr>) (\<lambda>_. Inr ''yaml'')
      ''cfg.yml'' (RipDeamon_new (RoutingTable_with_driver []) ())"
  have "?ready = (sample_start, Inr ())"
    using sample_setup_ok unfolding sample_start_def by (simp add: prod_eq_iff)
  then show ?thesis
    using sample_system_start
    by (simp add: run_rip_deamon_def RtNetlinkRoutingTableDriver_new_def sample_server_def spawn_http_server_def)
qed

definition sample_heard :: "(RouteMessage list, unit) system" where
  "sample_heard = sample_system\<lparr> queue := [sample_packet [(1, 1)]] \<rparr>"

lemma sample_hears:
  "system_step quiet_os table_driver True (Datagram 0 sample_bytes (V4 \<lparr> sa_ip = 3232235521, sa_port = 520 \<rparr>)) sample_system =
     Some sample_heard"
proof -
  have "take RX_BUFFER_SIZE sample_bytes = sample_bytes"
    by (simp add: sample_bytes_def length_packet_wire sample_packet_def rip_sizes RX_BUFFER_SIZE_def)
  then have "rx_task_received True sample_bytes (V4 \<lparr> sa_ip = 3232235521, sa_port = 520 \<rparr>)
      \<lparr> rx_socket = \<lparr> sock_fd = 3, sock_if_name = ''eth0'', sock_if_index = 7 \<rparr>, rx_running = True \<rparr> =
      (\<lparr> rx_socket = \<lparr> sock_fd = 3, sock_if_name = ''eth0'', sock_if_index = 7 \<rparr>, rx_running = True \<rparr>,
       Some (sample_packet [(1, 1)]))"
    by (simp add: rx_task_received_def parse_rx_data_def sample_bytes_def from_slice_packet_wire)
       (simp add: sample_packet_def)
  then show ?thesis
    by (simp add: system_step_def sample_heard_def sample_system_def system_start_def run_start_def on_world_eq
        sleep_timer_def spawn_rx_tasks_def sample_start_eq RX_CHANNEL_CAPACITY_def List.map_filter_simps
        split: prod.splits)
qed

lemma table_kernel_deletes: "snd (rtnetlink_delete_route table_kernel_del k r) = Inr ()"
  by (simp add: rtnetlink_delete_route_def table_kernel_del_def ENOENT_def ESRCH_def i32_abs_def)

lemma quiet_clock: "instant_now quiet_os n = (n, 5000000000)"
  by (simp add: quiet_os_def)

lemma quiet_advertises: "rip_send_advertisement_multicast quiet_os db ifcs chg n = (n, Inr ())"
proof -
  have "sends_whole quiet_os" by (simp add: sends_whole_def quiet_os_def)
  from advertisement_whole [OF this] show ?thesis by simp
qed

definition sample_learned :: "(RouteMessage list, unit) system" where
  "sample_learned =
     the (system_step quiet_os table_driver True (Turn 5000000000 (Received (Some (sample_packet [(1, 1)])))) sample_heard)"

lemma sample_run_start:
  "loop sample_heard =
     \<lparr> deamon = sample_start\<lparr> interfaces := map (\<lambda>ifc. ifc\<lparr> ifc_rx := None \<rparr>) (interfaces sample_start) \<rparr>,
       request_warmup_timer = request_warmup_timer (loop sample_system), update_timer = update_timer (loop sample_system),
       triggered_update_lock_timer = None, timeout_timer = timeout_timer (loop sample_system),
       garbage_collection_timer = None, http_open = True \<rparr>"
  "outcome sample_heard = None" "queue sample_heard = [sample_packet [(1, 1)]]"
  by (simp_all add: sample_heard_def sample_system_def system_start_def run_start_def on_world_eq
      sleep_timer_def spawn_rx_tasks_def sample_start_eq split: prod.splits)

lemma sample_turn:
  "system_step quiet_os table_driver True (Turn 5000000000 (Received (Some (sample_packet [(1, 1)])))) sample_heard =
     Some sample_learned"
  "outcome sample_learned = None"
  "get_route (database (deamon (loop sample_learned))) (sample_entry 1 0 0) \<noteq> None"
  "length (driver (routing_table (deamon (loop sample_learned)))) = 1"
proof -
  let ?turn = "run_turn quiet_os table_driver (Received (Some (sample_packet [(1, 1)]))) (loop sample_heard)"
  have turn: "?turn = (fst ?turn, Continue None)"
      "get_route (database (deamon (fst ?turn))) (sample_entry 1 0 0) \<noteq> None"
      "length (driver (routing_table (deamon (fst ?turn)))) = 1"
    by (simp_all add: sample_run_start sample_start_eq sample_local_def local_route_entry_def new_db_entry_def
        run_turn_def select_arm_def triggered_update_def maybe_send_triggered_update_def on_deamon_def
        stop_on_error_def sleep_timer_def send_multicast_advertisement_def quiet_advertises
        mark_all_routes_as_unchanged_def any_route_changed_def handler_evals mark_unchanged_def on_world_eq
        quiet_clock del: quiet_os_def cong: weak_congs)
  have step: "system_step quiet_os table_driver True (Turn 5000000000 (Received (Some (sample_packet [(1, 1)])))) sample_heard =
      Some (sample_heard\<lparr> loop := fst ?turn, queue := [], outcome := None \<rparr>)"
    using arg_cong [OF turn(1), where f = snd]
    by (simp add: system_step_def sample_run_start(2,3) ready_def available_def split_def)
  then show "system_step quiet_os table_driver True (Turn 5000000000 (Received (Some (sample_packet [(1, 1)])))) sample_heard =
      Some sample_learned"
    by (simp add: sample_learned_def)
  show "outcome sample_learned = None" "get_route (database (deamon (loop sample_learned))) (sample_entry 1 0 0) \<noteq> None"
    "length (driver (routing_table (deamon (loop sample_learned)))) = 1"
    using step turn(2,3) by (simp_all add: sample_learned_def)
qed

lemma sample_reachable: "reachable has_sender quiet_os table_driver True sample_system sample_learned"
  by (rule reachable_step [OF reachable_step [OF reachable_start _ sample_hears] _ sample_turn(1)]) simp_all

end
