(* ===== verification/Rip_Distance.thy ===== *)
theory Rip_Distance
  imports Rip_Rib
begin

text \<open>
  Several routers running the distance-vector rule of \<open>Rip_Rib\<close>, seen at one destination. A router
  is a node, and each ordered pair of neighbours on a link an arc; \<open>hop\<close> is what an arc does to the
  receiver's route when the sender announces its own. The theory has no daemon in it:
  \<open>Rip_Network\<close> shows that daemons exchanging datagrams perform these hops.
\<close>

section \<open>Links\<close>

text \<open>
  The sender's interface index and address on the link, and the index and name of the interface
  the receiver hears it on.
\<close>

record 'v arc =
  arc_from :: 'v
  arc_to :: 'v
  arc_out :: u32
  arc_address :: u32
  arc_in :: RipIfInfo

text \<open>
  Nobody hears itself; addresses are not 0.0.0.0 and tell the neighbours of a node apart; and a
  link is a broadcast medium: whoever a node announces to on the interface it hears \<open>w\<close> on is
  \<open>w\<close>, or hears \<open>w\<close> as well.
\<close>

definition links_ok :: "'v arc list \<Rightarrow> bool" where
  "links_ok arcs \<longleftrightarrow>
     list_all (\<lambda>a. arc_from a \<noteq> arc_to a \<and> arc_address a \<noteq> 0) arcs
     \<and> list_all (\<lambda>a. list_all (\<lambda>b.
          (arc_to a = arc_to b \<and> arc_address a = arc_address b \<longrightarrow> arc_from a = arc_from b)
          \<and> (arc_to a = arc_from b \<and> info_if_index (arc_in a) = arc_out b \<longrightarrow>
               arc_to b = arc_from a \<or> list_ex (\<lambda>c. arc_from c = arc_from a \<and> arc_to c = arc_to b) arcs))
        arcs) arcs"

lemma links_okD:
  assumes "links_ok arcs" and "a \<in> set arcs"
  shows "arc_from a \<noteq> arc_to a" "arc_address a \<noteq> 0"
    and "b \<in> set arcs \<Longrightarrow> arc_to a = arc_to b \<Longrightarrow> arc_address a = arc_address b \<Longrightarrow> arc_from a = arc_from b"
    and "b \<in> set arcs \<Longrightarrow> arc_to a = arc_from b \<Longrightarrow> info_if_index (arc_in a) = arc_out b \<Longrightarrow>
      arc_to b = arc_from a \<or> (\<exists>c\<in>set arcs. arc_from c = arc_from a \<and> arc_to c = arc_to b)"
  using assms unfolding links_ok_def list_all_iff list_ex_iff by blast+

text \<open>The nodes that are at most \<open>n\<close> hops away from the nodes of \<open>S\<close>.\<close>

fun within :: "'v arc list \<Rightarrow> 'v set \<Rightarrow> nat \<Rightarrow> 'v set" where
  "within arcs S 0 = S"
| "within arcs S (Suc n) =
     within arcs S n \<union> set (map arc_to (filter (\<lambda>a. arc_from a \<in> within arcs S n) arcs))"

lemma within_arc: "a \<in> set arcs \<Longrightarrow> arc_from a \<in> within arcs S n \<Longrightarrow> arc_to a \<in> within arcs S (Suc n)"
  by simp

lemma within_mono: "m \<le> n \<Longrightarrow> within arcs S m \<subseteq> within arcs S n"
  by (induction n) (auto simp: le_Suc_eq)

section \<open>Hops\<close>

text \<open>
  What the receiver of an arc makes of the sender's route: nothing if split horizon holds it back
  or it is not valid, and else the distance-vector rule with the metric one higher and the
  sender's address as next hop.
\<close>

definition arc_packet :: "'v arc \<Rightarrow> RipEntry list \<Rightarrow> RipPacket" where
  "arc_packet a es =
     \<lparr> packet_data = \<lparr> header = \<lparr> command = RIP_CMD_RESPONSE, version = RIP_2_VERSION, padding = 0 \<rparr>, entries = es \<rparr>,
       if_info = arc_in a, source = \<lparr> sa_ip = arc_address a, sa_port = RIP_UDP_PORT \<rparr> \<rparr>"

definition announced :: "RipEntry \<Rightarrow> RipEntry" where
  "announced e = e\<lparr> next_hop := 0 \<rparr>"

definition hop :: "'v arc \<Rightarrow> rib_route option \<Rightarrow> rib \<Rightarrow> rib" where
  "hop a offered rib =
     (case offered of
        None \<Rightarrow> rib
      | Some r \<Rightarrow>
          if rr_if_index r = arc_out a then rib
          else rib_response (arc_packet a [announced (rr_entry r)]) rib)"

lemma rib_response_arc:
  "rib_response (arc_packet a es) rib =
     fold (\<lambda>e rib. if is_entry_valid e
         then rib_update (e\<lparr> metric := update_metric (metric e), next_hop := arc_address a \<rparr>) (arc_in a) rib
         else rib) es rib"
  unfolding rib_response_def
  by (rule fold_cong) (auto simp: arc_packet_def response_entry_to_route_def fun_eq_iff)

lemma rib_response_single:
  "rib_response (arc_packet a [e]) rib =
     (if is_entry_valid e
      then rib_update (e\<lparr> metric := update_metric (metric e), next_hop := arc_address a \<rparr>) (arc_in a) rib
      else rib)"
  by (simp add: rib_response_arc)

text \<open>The rule at the entry's own destination looks at that destination's route only.\<close>

lemma rib_update_same_key:
  "rib k = rib' k \<Longrightarrow> build_route_key e = k \<Longrightarrow> rib_update e info rib k = rib_update e info rib' k"
  by (auto simp: rib_update_def Let_def split: option.splits)

lemma rib_response_Cons:
  "rib_response (arc_packet a (e # es)) rib = rib_response (arc_packet a es) (rib_response (arc_packet a [e]) rib)"
  by (simp add: rib_response_arc)

lemma rib_response_other_key:
  "k \<notin> build_route_key ` set es \<Longrightarrow> rib_response (arc_packet a es) rib k = rib k"
proof (induction es arbitrary: rib)
  case (Cons e es)
  then have "build_route_key e \<noteq> k" by auto
  with Cons show ?case
    by (subst rib_response_Cons) (simp add: rib_response_single rib_update_other)
qed (simp add: rib_response_arc)

lemma rib_response_one_same_key:
  assumes "rib k = rib' k"
  shows "rib_response (arc_packet a [e]) rib k = rib_response (arc_packet a [e]) rib' k"
proof (cases "build_route_key e = k")
  case True
  then show ?thesis
    using assms by (auto simp: rib_response_single build_route_key_def intro!: rib_update_same_key)
next
  case False
  then show ?thesis using assms by (simp add: rib_response_other_key)
qed

text \<open>A packet with one entry for each destination acts on each by that entry alone.\<close>

lemma rib_response_distinct:
  assumes "distinct (map build_route_key es)" and "e \<in> set es"
  shows "rib_response (arc_packet a es) rib (build_route_key e) =
    rib_response (arc_packet a [e]) rib (build_route_key e)"
  using assms
proof (induction es arbitrary: rib)
  case (Cons x es)
  show ?case
  proof (cases "e = x")
    case True
    then have "build_route_key e \<notin> build_route_key ` set es" using Cons.prems(1) by auto
    then show ?thesis using True by (subst rib_response_Cons) (simp add: rib_response_other_key)
  next
    case False
    then have "e \<in> set es" "build_route_key e \<noteq> build_route_key x"
      using Cons.prems False by (auto, metis image_eqI)
    then have "rib_response (arc_packet a [x]) rib (build_route_key e) = rib (build_route_key e)"
      by (simp add: rib_response_other_key)
    note rib_response_one_same_key [of "rib_response (arc_packet a [x]) rib" _ rib a e, OF this]
    then show ?thesis
      using Cons.IH [of "rib_response (arc_packet a [x]) rib"] Cons.prems(1) \<open>e \<in> set es\<close>
      by (subst rib_response_Cons) simp
  qed
qed simp

section \<open>The invariant of a network\<close>

text \<open>
  At a destination \<open>k\<close> that the nodes of \<open>S\<close> have a local route to: those routes stay, and any
  other route has a metric below infinity and comes over an arc from a node whose own route is
  shorter by at least one.
\<close>

type_synonym 'v ribs = "'v \<Rightarrow> rib"

definition learned_over :: "'v arc list \<Rightarrow> RipRouteKey \<Rightarrow> 'v ribs \<Rightarrow> 'v \<Rightarrow> rib_route \<Rightarrow> bool" where
  "learned_over arcs k ribs v r \<longleftrightarrow>
     (\<exists>a\<in>set arcs. arc_to a = v \<and> next_hop (rr_entry r) = arc_address a
        \<and> rr_if_index r = info_if_index (arc_in a)
        \<and> (\<exists>ru. ribs (arc_from a) k = Some ru
              \<and> unat (metric (rr_entry ru)) + 1 \<le> unat (metric (rr_entry r))))"

definition ribs_ok :: "'v arc list \<Rightarrow> 'v set \<Rightarrow> RipRouteKey \<Rightarrow> 'v ribs \<Rightarrow> bool" where
  "ribs_ok arcs S k ribs \<longleftrightarrow>
     (\<forall>v\<in>S. ribs v k \<noteq> None)
     \<and> (\<forall>v r. ribs v k = Some r \<longrightarrow>
          build_route_key (rr_entry r) = k \<and> 1 \<le> unat (metric (rr_entry r)) \<and> unat (metric (rr_entry r)) \<le> 15
          \<and> (if v \<in> S then metric (rr_entry r) = 1 \<and> next_hop (rr_entry r) = 0
             else learned_over arcs k ribs v r))"

lemma ribs_okD:
  assumes "ribs_ok arcs S k ribs" and "ribs v k = Some r"
  shows "build_route_key (rr_entry r) = k" "1 \<le> unat (metric (rr_entry r))" "unat (metric (rr_entry r)) \<le> 15"
    and "v \<in> S \<Longrightarrow> metric (rr_entry r) = 1 \<and> next_hop (rr_entry r) = 0"
    and "v \<notin> S \<Longrightarrow> learned_over arcs k ribs v r"
  using assms by (auto simp: ribs_ok_def)

lemma ribs_ok_local: "ribs_ok arcs S k ribs \<Longrightarrow> v \<in> S \<Longrightarrow> \<exists>r. ribs v k = Some r"
  by (auto simp: ribs_ok_def)

text \<open>No route is shorter than the distance.\<close>

lemma metric_distance:
  assumes "ribs_ok arcs S k ribs" and "ribs v k = Some r"
  shows "v \<in> within arcs S (unat (metric (rr_entry r)) - 1)"
  using assms(2)
proof (induction "unat (metric (rr_entry r))" arbitrary: v r rule: less_induct)
  case less
  show ?case
  proof (cases "v \<in> S")
    case True
    then show ?thesis using within_mono [of 0 "unat (metric (rr_entry r)) - 1" arcs S] by auto
  next
    case False
    then obtain a ru where a: "a \<in> set arcs" "arc_to a = v" and ru: "ribs (arc_from a) k = Some ru"
      and m: "unat (metric (rr_entry ru)) + 1 \<le> unat (metric (rr_entry r))"
      using ribs_okD(5) [OF assms(1) less.prems] by (auto simp: learned_over_def)
    have "1 \<le> unat (metric (rr_entry ru))" by (rule ribs_okD(2) [OF assms(1) ru])
    moreover have "arc_from a \<in> within arcs S (unat (metric (rr_entry ru)) - 1)"
      using less.hyps [OF _ ru] m by simp
    ultimately have v: "v \<in> within arcs S (unat (metric (rr_entry ru)))"
      using within_arc [OF a(1), of S "unat (metric (rr_entry ru)) - 1"] a(2) by simp
    have "unat (metric (rr_entry ru)) \<le> unat (metric (rr_entry r)) - 1" using m by linarith
    then show ?thesis by (rule subsetD [OF within_mono v])
  qed
qed


section \<open>Hops keep the invariant and never make a route worse\<close>

definition offer_over :: "'v arc \<Rightarrow> rib_route \<Rightarrow> rib_route" where
  "offer_over a ru =
     rib_offer ((announced (rr_entry ru))\<lparr> metric := update_metric (metric (rr_entry ru)), next_hop := arc_address a \<rparr>)
       (arc_in a)"

lemma offer_over_fields [simp]:
  "build_route_key (rr_entry (offer_over a ru)) = build_route_key (rr_entry ru)"
  "next_hop (rr_entry (offer_over a ru)) = arc_address a"
  "rr_if_index (offer_over a ru) = info_if_index (arc_in a)"
  "unat (metric (rr_entry (offer_over a ru))) = min (unat (metric (rr_entry ru)) + 1) 16"
  unfolding offer_over_def rib_offer_def announced_def by (simp_all add: update_metric_unat)

lemma hop_offer:
  assumes "build_route_key (rr_entry ru) = k"
  shows "hop a (Some ru) rib k =
    (if rr_if_index ru = arc_out a \<or> \<not> is_entry_valid (announced (rr_entry ru)) then rib k
     else
       (case rib k of
          None \<Rightarrow> if unat (metric (rr_entry ru)) < 15 then Some (offer_over a ru) else None
        | Some r \<Rightarrow>
            if next_hop (rr_entry r) = arc_address a
            then if unat (metric (rr_entry ru)) < 15 then Some (offer_over a ru) else None
            else if unat (metric (rr_entry ru)) < 15 \<and> unat (metric (rr_entry ru)) + 1 < unat (metric (rr_entry r))
                 then Some (offer_over a ru) else Some r))"
proof -
  let ?e = "(announced (rr_entry ru))\<lparr> metric := update_metric (metric (rr_entry ru)), next_hop := arc_address a \<rparr>"
  have key: "build_route_key ?e = k" using assms by (simp add: announced_def)
  have inf: "RIP_INFINITY_METRIC \<le> metric ?e \<longleftrightarrow> \<not> unat (metric (rr_entry ru)) < 15"
    by (simp add: word_le_nat_alt update_metric_unat RIP_INFINITY_METRIC_def) linarith
  have less: "metric ?e < metric (rr_entry r) \<longleftrightarrow> unat (metric (rr_entry ru)) + 1 < unat (metric (rr_entry r))"
    if "unat (metric (rr_entry ru)) < 15" for r
    using that by (simp add: word_less_nat_alt update_metric_unat)
  have m: "metric (announced (rr_entry ru)) = metric (rr_entry ru)" by (simp add: announced_def)
  show ?thesis
    using inf less key
    by (auto simp: hop_def rib_response_single m rib_update_def Let_def offer_over_def simp flip: not_le
        split: option.splits)
qed

text \<open>A route over an arc is longer than the sender's own, whichever of its arcs it was learned on.\<close>

lemma same_neighbour:
  assumes links: "links_ok arcs" "a \<in> set arcs" and ok: "ribs_ok arcs S k ribs"
    and ru: "ribs (arc_from a) k = Some ru" and r: "ribs (arc_to a) k = Some r"
    and nh: "next_hop (rr_entry r) = arc_address a"
  shows "unat (metric (rr_entry ru)) + 1 \<le> unat (metric (rr_entry r))"
proof -
  have "arc_to a \<notin> S" using ribs_okD(4) [OF ok r] links_okD(2) [OF links] nh by auto
  then obtain b rw where b: "b \<in> set arcs" "arc_to b = arc_to a" "arc_address b = arc_address a"
    and rw: "ribs (arc_from b) k = Some rw" "unat (metric (rr_entry rw)) + 1 \<le> unat (metric (rr_entry r))"
    using ribs_okD(5) [OF ok r] nh by (auto simp: learned_over_def)
  have "arc_from b = arc_from a" using links_okD(3) [OF links(1) b(1) links(2) b(2,3)] .
  then show ?thesis using rw ru by simp
qed

lemma hop_cases:
  assumes links: "links_ok arcs" "a \<in> set arcs" and ok: "ribs_ok arcs S k ribs"
  obtains (unchanged) "hop a (ribs (arc_from a) k) (ribs (arc_to a)) k = ribs (arc_to a) k"
    | (offered) ru where "ribs (arc_from a) k = Some ru" "arc_to a \<notin> S" "unat (metric (rr_entry ru)) \<le> 14"
        "hop a (ribs (arc_from a) k) (ribs (arc_to a)) k = Some (offer_over a ru)"
        "\<And>r. ribs (arc_to a) k = Some r \<Longrightarrow> unat (metric (rr_entry ru)) + 1 \<le> unat (metric (rr_entry r))"
proof (cases "ribs (arc_from a) k")
  case None
  then show ?thesis using unchanged by (simp add: hop_def)
next
  case (Some ru)
  have ru: "build_route_key (rr_entry ru) = k" "unat (metric (rr_entry ru)) \<le> 15" "1 \<le> unat (metric (rr_entry ru))"
    using ribs_okD(1,2,3) [OF ok Some] by simp_all
  have own: "next_hop (rr_entry r) \<noteq> arc_address a \<and> \<not> unat (metric (rr_entry ru)) + 1 < unat (metric (rr_entry r))"
    if "arc_to a \<in> S" "ribs (arc_to a) k = Some r" for r
    using ribs_okD(4) [OF ok that(2,1)] links_okD(2) [OF links] ru(3) by auto
  have same: "unat (metric (rr_entry ru)) + 1 \<le> unat (metric (rr_entry r))"
    if r: "ribs (arc_to a) k = Some r" "next_hop (rr_entry r) = arc_address a" for r
    by (rule same_neighbour [OF links ok Some r])
  have below: "unat (metric (rr_entry r)) \<le> 15" if "ribs (arc_to a) k = Some r" for r
    using ribs_okD(3) [OF ok that] .
  show ?thesis
  proof (cases "hop a (ribs (arc_from a) k) (ribs (arc_to a)) k = ribs (arc_to a) k")
    case True
    then show ?thesis by (rule unchanged)
  next
    case False
    show ?thesis
    proof (rule offered [OF Some])
      show "arc_to a \<notin> S"
      proof
        assume S: "arc_to a \<in> S"
        then obtain r where r: "ribs (arc_to a) k = Some r" using ribs_ok_local [OF ok] by blast
        show False using False own [OF S r] r by (auto simp: Some hop_offer [OF ru(1)] split: if_splits)
      qed
      show "unat (metric (rr_entry ru)) \<le> 14"
        using False same below by (fastforce simp: Some hop_offer [OF ru(1)] split: if_splits option.splits)
      show "hop a (ribs (arc_from a) k) (ribs (arc_to a)) k = Some (offer_over a ru)"
        using False same below by (fastforce simp: Some hop_offer [OF ru(1)] split: if_splits option.splits)
      show "unat (metric (rr_entry ru)) + 1 \<le> unat (metric (rr_entry r))" if "ribs (arc_to a) k = Some r" for r
        using False same that by (auto simp: Some hop_offer [OF ru(1)] split: if_splits option.splits)
    qed
  qed
qed

definition no_worse :: "RipRouteKey \<Rightarrow> 'v ribs \<Rightarrow> 'v ribs \<Rightarrow> bool" where
  "no_worse k ribs ribs' \<longleftrightarrow>
     (\<forall>v r. ribs v k = Some r \<longrightarrow>
        (\<exists>r'. ribs' v k = Some r' \<and> unat (metric (rr_entry r')) \<le> unat (metric (rr_entry r))))"

lemma no_worse_refl: "no_worse k ribs ribs"
  by (auto simp: no_worse_def)

lemma no_worseD:
  assumes "no_worse k ribs ribs'" and "ribs v k = Some r"
  obtains r' where "ribs' v k = Some r'" "unat (metric (rr_entry r')) \<le> unat (metric (rr_entry r))"
  using assms by (auto simp: no_worse_def)

lemma no_worse_trans: "no_worse k ribs ribs' \<Longrightarrow> no_worse k ribs' ribs'' \<Longrightarrow> no_worse k ribs ribs''"
  unfolding no_worse_def by (meson le_trans)

text \<open>The state after an arc has carried the sender's announcement, and one with the same routes.\<close>

definition after_hop :: "RipRouteKey \<Rightarrow> 'v arc \<Rightarrow> 'v ribs \<Rightarrow> 'v ribs \<Rightarrow> bool" where
  "after_hop k a ribs ribs' \<longleftrightarrow>
     (\<forall>v. ribs' v k = (if v = arc_to a then hop a (ribs (arc_from a) k) (ribs (arc_to a)) k else ribs v k))"

definition same_routes :: "RipRouteKey \<Rightarrow> 'v ribs \<Rightarrow> 'v ribs \<Rightarrow> bool" where
  "same_routes k ribs ribs' \<longleftrightarrow> (\<forall>v. ribs' v k = ribs v k)"

lemma same_routes_ok: "same_routes k ribs ribs' \<Longrightarrow> ribs_ok arcs S k ribs' = ribs_ok arcs S k ribs"
  by (simp add: same_routes_def ribs_ok_def learned_over_def)

lemma hop_no_worse:
  assumes "links_ok arcs" "a \<in> set arcs" "ribs_ok arcs S k ribs" "after_hop k a ribs ribs'"
  shows "no_worse k ribs ribs'"
  unfolding no_worse_def
proof (intro allI impI)
  fix v r assume r: "ribs v k = Some r"
  from assms(1-3) show "\<exists>r'. ribs' v k = Some r' \<and> unat (metric (rr_entry r')) \<le> unat (metric (rr_entry r))"
  proof (cases rule: hop_cases)
    case unchanged
    then show ?thesis using assms(4) r by (cases "v = arc_to a") (auto simp: after_hop_def)
  next
    case (offered ru)
    then show ?thesis using assms(4) r by (cases "v = arc_to a") (auto simp: after_hop_def)
  qed
qed

lemma learned_over_no_worse:
  assumes "no_worse k ribs ribs'" and "learned_over arcs k ribs v r"
  shows "learned_over arcs k ribs' v r"
proof -
  obtain a ru where a: "a \<in> set arcs" "arc_to a = v" "next_hop (rr_entry r) = arc_address a"
    "rr_if_index r = info_if_index (arc_in a)"
    and ru: "ribs (arc_from a) k = Some ru" "unat (metric (rr_entry ru)) + 1 \<le> unat (metric (rr_entry r))"
    using assms(2) by (auto simp: learned_over_def)
  obtain ru' where "ribs' (arc_from a) k = Some ru'" "unat (metric (rr_entry ru')) \<le> unat (metric (rr_entry ru))"
    by (rule no_worseD [OF assms(1) ru(1)])
  then show ?thesis using a ru(2) unfolding learned_over_def by fastforce
qed

lemma hop_ribs_ok:
  assumes links: "links_ok arcs" "a \<in> set arcs" and ok: "ribs_ok arcs S k ribs" and hop: "after_hop k a ribs ribs'"
  shows "ribs_ok arcs S k ribs'"
proof -
  note nw = hop_no_worse [OF links ok hop]
  have "build_route_key (rr_entry r) = k \<and> 1 \<le> unat (metric (rr_entry r)) \<and> unat (metric (rr_entry r)) \<le> 15
      \<and> (if v \<in> S then metric (rr_entry r) = 1 \<and> next_hop (rr_entry r) = 0 else learned_over arcs k ribs' v r)"
    if r: "ribs' v k = Some r" for v r
  proof -
    have old: ?thesis if "ribs v k = Some r"
      using ribs_okD [OF ok that] learned_over_no_worse [OF nw] by auto
    from links ok show ?thesis
    proof (cases rule: hop_cases)
      case unchanged
      then have "ribs v k = Some r" using r hop by (auto simp: after_hop_def split: if_splits)
      then show ?thesis by (rule old)
    next
      case (offered ru)
      show ?thesis
      proof (cases "v = arc_to a")
        case True
        then have r': "r = offer_over a ru" using r hop offered(4) by (simp add: after_hop_def)
        have "ribs' (arc_from a) k = Some ru"
          using hop offered(1) links_okD(1) [OF links] by (simp add: after_hop_def)
        then have "learned_over arcs k ribs' v r"
          using links(2) offered(3) True unfolding learned_over_def r' by auto
        then show ?thesis
          using r' ribs_okD(1) [OF ok offered(1)] offered(2,3) True by simp
      next
        case False
        then have "ribs v k = Some r" using r hop by (simp add: after_hop_def)
        then show ?thesis by (rule old)
      qed
    qed
  qed
  moreover have "ribs' v k \<noteq> None" if "v \<in> S" for v
    using ribs_ok_local [OF ok that] nw by (auto simp: no_worse_def)
  ultimately show ?thesis unfolding ribs_ok_def by blast
qed

section \<open>Rounds\<close>

text \<open>
  Any interleaving of hops and of steps that leave the routes as they are; the set is that of the
  arcs that have carried an announcement on the way.
\<close>

inductive hops :: "'v arc list \<Rightarrow> RipRouteKey \<Rightarrow> 'v ribs \<Rightarrow> 'v arc set \<Rightarrow> 'v ribs \<Rightarrow> bool"
  for arcs :: "'v arc list" and k :: RipRouteKey and ribs :: "'v ribs" where
  hops_start: "hops arcs k ribs {} ribs"
| hops_hop: "hops arcs k ribs A ribs' \<Longrightarrow> a \<in> set arcs \<Longrightarrow> after_hop k a ribs' ribs''
    \<Longrightarrow> hops arcs k ribs (insert a A) ribs''"
| hops_same: "hops arcs k ribs A ribs' \<Longrightarrow> same_routes k ribs' ribs'' \<Longrightarrow> hops arcs k ribs A ribs''"

lemma hops_trans:
  assumes "hops arcs k ribs' B ribs''" and "hops arcs k ribs A ribs'"
  shows "hops arcs k ribs (A \<union> B) ribs''"
  using assms(1)
proof (induction rule: hops.induct)
  case hops_start
  then show ?case using assms(2) by simp
next
  case (hops_hop B r a r')
  then show ?case using hops.hops_hop [of arcs k ribs "A \<union> B" r a r'] by simp
next
  case (hops_same B r r')
  then show ?case using hops.hops_same by blast
qed

lemma hops_keep:
  assumes "hops arcs k ribs A ribs'" and "links_ok arcs" and "ribs_ok arcs S k ribs"
  shows "ribs_ok arcs S k ribs' \<and> no_worse k ribs ribs'"
  using assms(1)
proof (induction rule: hops.induct)
  case hops_start
  then show ?case using assms(3) by (simp add: no_worse_refl)
next
  case (hops_hop A ribs' a ribs'')
  then show ?case
    using hop_ribs_ok [OF assms(2) hops_hop.hyps(2)] hop_no_worse [OF assms(2) hops_hop.hyps(2)]
    by (blast intro: no_worse_trans)
next
  case (hops_same A ribs' ribs'')
  moreover have "no_worse k ribs' ribs''" using hops_same.hyps(2) by (auto simp: same_routes_def no_worse_def)
  ultimately show ?case by (blast intro: no_worse_trans dest: same_routes_ok)
qed

text \<open>Every node within \<open>n\<close> hops has a route of at most the metric that distance gives.\<close>

definition reached :: "'v arc list \<Rightarrow> 'v set \<Rightarrow> RipRouteKey \<Rightarrow> nat \<Rightarrow> 'v ribs \<Rightarrow> bool" where
  "reached arcs S k n ribs \<longleftrightarrow>
     (\<forall>v\<in>within arcs S n. \<exists>r. ribs v k = Some r \<and> unat (metric (rr_entry r)) \<le> n + 1)"

lemma reachedD:
  assumes "reached arcs S k n ribs" and "v \<in> within arcs S n"
  obtains r where "ribs v k = Some r" "unat (metric (rr_entry r)) \<le> n + 1"
  using assms by (auto simp: reached_def)

lemma reached_no_worse: "reached arcs S k n ribs \<Longrightarrow> no_worse k ribs ribs' \<Longrightarrow> reached arcs S k n ribs'"
  unfolding reached_def no_worse_def by (meson le_trans)

text \<open>
  The destination is one a router accepts, and split horizon holds a local route back only from
  nodes that have one themselves.
\<close>

definition valid_key :: "RipRouteKey \<Rightarrow> bool" where
  "valid_key k \<longleftrightarrow> is_unicast_address (key_ip_address k) \<and> is_net_mask_valid (key_subnet_mask k)"

definition attached :: "'v arc list \<Rightarrow> 'v set \<Rightarrow> RipRouteKey \<Rightarrow> 'v ribs \<Rightarrow> bool" where
  "attached arcs S k ribs \<longleftrightarrow>
     (\<forall>a\<in>set arcs. \<forall>r. arc_from a \<in> S \<longrightarrow> ribs (arc_from a) k = Some r \<longrightarrow> rr_if_index r = arc_out a
        \<longrightarrow> arc_to a \<in> S)"

lemma hop_progress:
  assumes links: "links_ok arcs" "a \<in> set arcs" and ok: "ribs_ok arcs S k ribs" and k: "valid_key k"
    and att: "attached arcs S k ribs" and n: "reached arcs S k n ribs" "n \<le> 13"
    and u: "arc_from a \<in> within arcs S n" and hop: "after_hop k a ribs ribs'"
  shows "\<exists>r. ribs' (arc_to a) k = Some r \<and> unat (metric (rr_entry r)) \<le> n + 2"
proof (cases "arc_to a \<in> within arcs S n")
  case True
  then obtain r where r: "ribs (arc_to a) k = Some r" "unat (metric (rr_entry r)) \<le> n + 1"
    by (rule reachedD [OF n(1)])
  obtain r' where "ribs' (arc_to a) k = Some r'" "unat (metric (rr_entry r')) \<le> unat (metric (rr_entry r))"
    by (rule no_worseD [OF hop_no_worse [OF links ok hop] r(1)])
  then show ?thesis using r(2) by force
next
  case far: False
  obtain ru where ru: "ribs (arc_from a) k = Some ru" "unat (metric (rr_entry ru)) \<le> n + 1"
    using u by (rule reachedD [OF n(1)])
  note key = ribs_okD(1) [OF ok ru(1)]
  have "rr_if_index ru \<noteq> arc_out a"
  proof
    assume held: "rr_if_index ru = arc_out a"
    have notS: "arc_to a \<notin> S" using far within_mono [of 0 n arcs S] by auto
    then have "arc_from a \<notin> S" using att links(2) ru(1) held unfolding attached_def by blast
    then obtain b rw where b: "b \<in> set arcs" "arc_to b = arc_from a" "info_if_index (arc_in b) = arc_out a"
      and rw: "ribs (arc_from b) k = Some rw" "unat (metric (rr_entry rw)) + 1 \<le> unat (metric (rr_entry ru))"
      using ribs_okD(5) [OF ok ru(1)] held by (auto simp: learned_over_def)
    have w: "arc_from b \<in> within arcs S (unat (metric (rr_entry rw)) - 1)" by (rule metric_distance [OF ok rw(1)])
    have m: "1 \<le> unat (metric (rr_entry rw))" "unat (metric (rr_entry rw)) \<le> n"
      using ribs_okD(2) [OF ok rw(1)] rw(2) ru(2) by simp_all
    have near: "x \<in> within arcs S n" if "x = arc_from b \<or> (\<exists>c\<in>set arcs. arc_from c = arc_from b \<and> arc_to c = x)" for x
    proof -
      have "x \<in> within arcs S (Suc (unat (metric (rr_entry rw)) - 1))"
        using that w by auto
      then show ?thesis using m within_mono [of "unat (metric (rr_entry rw))" n arcs S] by auto
    qed
    have "arc_to a = arc_from b \<or> (\<exists>c\<in>set arcs. arc_from c = arc_from b \<and> arc_to c = arc_to a)"
      using links_okD(4) [OF links(1) b(1) links(2) b(2,3)] .
    then show False using far near by blast
  qed
  moreover have "is_entry_valid (announced (rr_entry ru))"
    using k key ribs_okD(2,3) [OF ok ru(1)]
    by (auto simp: valid_key_def is_entry_valid_def announced_def is_metric_valid_def build_route_key_def
        RIP_INFINITY_METRIC_def word_le_nat_alt)
  ultimately have "\<exists>r. hop a (ribs (arc_from a) k) (ribs (arc_to a)) k = Some r \<and> unat (metric (rr_entry r)) \<le> n + 2"
    using ru n(2) by (auto simp: hop_offer [OF key] split: option.splits)
  then show ?thesis using hop by (simp add: after_hop_def)
qed

text \<open>A local route never changes, so neither does the condition on it.\<close>

definition local_fixed :: "'v set \<Rightarrow> RipRouteKey \<Rightarrow> 'v ribs \<Rightarrow> 'v ribs \<Rightarrow> bool" where
  "local_fixed S k ribs ribs' \<longleftrightarrow> (\<forall>v\<in>S. ribs' v k = ribs v k)"

lemma hops_local_fixed:
  assumes "hops arcs k ribs A ribs'" and "links_ok arcs" and "ribs_ok arcs S k ribs"
  shows "local_fixed S k ribs ribs'"
  using assms(1)
proof (induction rule: hops.induct)
  case hops_start
  then show ?case by (simp add: local_fixed_def)
next
  case (hops_hop A ribs' a ribs'')
  have ok: "ribs_ok arcs S k ribs'" using hops_keep [OF hops_hop.hyps(1) assms(2,3)] by simp
  have "ribs'' v k = ribs' v k" if "v \<in> S" for v
    using assms(2) hops_hop.hyps(2) ok
    by (cases rule: hop_cases) (use that hops_hop.hyps(3) in \<open>auto simp: after_hop_def\<close>)
  then show ?case using hops_hop.IH by (simp add: local_fixed_def)
next
  case (hops_same A ribs' ribs'')
  then show ?case by (simp add: local_fixed_def same_routes_def)
qed

lemma attached_fixed: "local_fixed S k ribs ribs' \<Longrightarrow> attached arcs S k ribs \<Longrightarrow> attached arcs S k ribs'"
  unfolding attached_def local_fixed_def by metis

text \<open>One round: when every arc has carried an announcement, the routes reach one hop further.\<close>

lemma round_progress:
  assumes hops: "hops arcs k ribs A ribs'" and links: "links_ok arcs" and ok: "ribs_ok arcs S k ribs"
    and k: "valid_key k" and att: "attached arcs S k ribs" and n: "reached arcs S k n ribs" "n \<le> 13"
    and all: "set arcs \<subseteq> A"
  shows "reached arcs S k (Suc n) ribs'"
proof -
  have carried: "\<exists>r. ribs' (arc_to a) k = Some r \<and> unat (metric (rr_entry r)) \<le> n + 2"
    if "a \<in> A" "arc_from a \<in> within arcs S n" for a
    using hops that
  proof (induction arbitrary: a rule: hops.induct)
    case (hops_hop A ribs' b ribs'')
    note ok' = conjunct1 [OF hops_keep [OF hops_hop.hyps(1) links ok]]
    show ?case
    proof (cases "a = b")
      case True
      have "reached arcs S k n ribs'"
        using reached_no_worse [OF n(1)] hops_keep [OF hops_hop.hyps(1) links ok] by simp
      with True show ?thesis
        using hop_progress [OF links hops_hop.hyps(2) ok' k _ _ n(2) _ hops_hop.hyps(3)] hops_hop.prems(2)
          attached_fixed [OF hops_local_fixed [OF hops_hop.hyps(1) links ok] att] by simp
    next
      case False
      then obtain r where r: "ribs' (arc_to a) k = Some r" "unat (metric (rr_entry r)) \<le> n + 2"
        using hops_hop.IH [of a] hops_hop.prems by auto
      obtain r' where "ribs'' (arc_to a) k = Some r'" "unat (metric (rr_entry r')) \<le> unat (metric (rr_entry r))"
        by (rule no_worseD [OF hop_no_worse [OF links hops_hop.hyps(2) ok' hops_hop.hyps(3)] r(1)])
      then show ?thesis using r(2) by force
    qed
  qed (simp_all add: same_routes_def)
  have "reached arcs S k n ribs'"
    using reached_no_worse [OF n(1)] hops_keep [OF hops links ok] by simp
  then have near: "\<exists>r. ribs' v k = Some r \<and> unat (metric (rr_entry r)) \<le> Suc n + 1" if "v \<in> within arcs S n" for v
    using that by (fastforce elim: reachedD)
  show ?thesis unfolding reached_def
  proof
    fix v assume "v \<in> within arcs S (Suc n)"
    then consider "v \<in> within arcs S n" | a where "a \<in> set arcs" "arc_to a = v" "arc_from a \<in> within arcs S n"
      by auto
    then show "\<exists>r. ribs' v k = Some r \<and> unat (metric (rr_entry r)) \<le> Suc n + 1"
      using near carried all by cases auto
  qed
qed

lemma reached_start: "ribs_ok arcs S k ribs \<Longrightarrow> reached arcs S k 0 ribs"
  unfolding reached_def
proof
  fix v assume ok: "ribs_ok arcs S k ribs" and v: "v \<in> within arcs S 0"
  then obtain r where "ribs v k = Some r" using ribs_ok_local [OF ok] by auto
  then show "\<exists>r. ribs v k = Some r \<and> unat (metric (rr_entry r)) \<le> 0 + 1"
    using ribs_okD(4) [OF ok] v by auto
qed

section \<open>Metrics are distances\<close>

definition at_distance :: "'v arc list \<Rightarrow> 'v set \<Rightarrow> nat \<Rightarrow> 'v \<Rightarrow> bool" where
  "at_distance arcs S d v \<longleftrightarrow> v \<in> within arcs S d \<and> (\<forall>m<d. v \<notin> within arcs S m)"

text \<open>
  What holds after \<open>n\<close> rounds: the invariant, and every distance up to \<open>n\<close> and 14 reached.
\<close>

definition settled :: "'v arc list \<Rightarrow> 'v set \<Rightarrow> RipRouteKey \<Rightarrow> nat \<Rightarrow> 'v ribs \<Rightarrow> bool" where
  "settled arcs S k n ribs \<longleftrightarrow>
     ribs_ok arcs S k ribs \<and> attached arcs S k ribs \<and> (\<forall>d\<le>min n 14. reached arcs S k d ribs)"

lemma settled_start: "ribs_ok arcs S k ribs \<Longrightarrow> attached arcs S k ribs \<Longrightarrow> settled arcs S k 0 ribs"
  by (simp add: settled_def reached_start)

lemma settled_round:
  assumes "settled arcs S k n ribs" and "hops arcs k ribs A ribs'" and "links_ok arcs" and "valid_key k"
    and "set arcs \<subseteq> A"
  shows "settled arcs S k (Suc n) ribs'"
proof -
  have ok: "ribs_ok arcs S k ribs" and att: "attached arcs S k ribs"
    and reach: "\<And>d. d \<le> min n 14 \<Longrightarrow> reached arcs S k d ribs"
    using assms(1) by (auto simp: settled_def)
  note keep = hops_keep [OF assms(2,3) ok]
  have "reached arcs S k d ribs'" if d: "d \<le> min (Suc n) 14" for d
  proof (cases d)
    case 0
    then show ?thesis using keep by (simp add: reached_start)
  next
    case (Suc m)
    then show ?thesis
      using round_progress [OF assms(2,3) ok assms(4) att reach [of m] _ assms(5)] d by simp
  qed
  then show ?thesis
    using keep attached_fixed [OF hops_local_fixed [OF assms(2,3) ok] att] by (simp add: settled_def)
qed

lemma settled_distance:
  assumes "settled arcs S k n ribs" and v: "at_distance arcs S d v" and d: "d \<le> n" "d \<le> 14"
  shows "\<exists>r. ribs v k = Some r \<and> unat (metric (rr_entry r)) = d + 1
    \<and> (d = 0 \<or> (\<exists>a\<in>set arcs. arc_to a = v \<and> next_hop (rr_entry r) = arc_address a
                   \<and> at_distance arcs S (d - 1) (arc_from a)))"
proof -
  have ok: "ribs_ok arcs S k ribs" and "reached arcs S k d ribs"
    using assms(1) d by (auto simp: settled_def)
  then obtain r where r: "ribs v k = Some r" "unat (metric (rr_entry r)) \<le> d + 1"
    using v by (auto simp: at_distance_def elim: reachedD)
  have "v \<in> within arcs S (unat (metric (rr_entry r)) - 1)" by (rule metric_distance [OF ok r(1)])
  then have "\<not> unat (metric (rr_entry r)) - 1 < d" using v by (auto simp: at_distance_def)
  then have m: "unat (metric (rr_entry r)) = d + 1" using r(2) ribs_okD(2) [OF ok r(1)] by linarith
  have "\<exists>a\<in>set arcs. arc_to a = v \<and> next_hop (rr_entry r) = arc_address a
      \<and> at_distance arcs S (d - 1) (arc_from a)" if "0 < d"
  proof -
    have "v \<notin> S" using v that by (auto simp: at_distance_def dest!: spec [of _ 0])
    then obtain a ru where a: "a \<in> set arcs" "arc_to a = v" "next_hop (rr_entry r) = arc_address a"
      and ru: "ribs (arc_from a) k = Some ru" "unat (metric (rr_entry ru)) + 1 \<le> d + 1"
      using ribs_okD(5) [OF ok r(1)] m by (auto simp: learned_over_def)
    have "arc_from a \<in> within arcs S (unat (metric (rr_entry ru)) - 1)" by (rule metric_distance [OF ok ru(1)])
    moreover have "unat (metric (rr_entry ru)) - 1 \<le> d - 1" using ru(2) by linarith
    ultimately have near: "arc_from a \<in> within arcs S (d - 1)" by (metis subsetD within_mono)
    have "arc_from a \<notin> within arcs S j" if "j < d - 1" for j
    proof
      assume "arc_from a \<in> within arcs S j"
      then have "v \<in> within arcs S (Suc j)" using within_arc [OF a(1)] a(2) by simp
      then show False using v that by (simp only: at_distance_def less_diff_conv)
    qed
    then show ?thesis using a near by (auto simp: at_distance_def)
  qed
  then show ?thesis using r(1) m by auto
qed

lemma settled_unreachable:
  assumes "settled arcs S k n ribs" and "v \<notin> within arcs S 14"
  shows "ribs v k = None"
proof (rule ccontr)
  have ok: "ribs_ok arcs S k ribs" using assms(1) by (simp add: settled_def)
  assume "ribs v k \<noteq> None"
  then obtain r where r: "ribs v k = Some r" by blast
  have "v \<in> within arcs S (unat (metric (rr_entry r)) - 1)" by (rule metric_distance [OF ok r])
  moreover have "unat (metric (rr_entry r)) - 1 \<le> 14" using ribs_okD(3) [OF ok r] by simp
  ultimately show False using assms(2) by (metis subsetD within_mono)
qed

end
