(* ===== verification/Rip_Network.thy ===== *)
theory Rip_Network
  imports Rip_Distance Rip_Samples
begin

text \<open>
  Several daemons on a network. An announcement of one is its \<^verbatim>\<open>send_multicast_advertisement\<close>; the
  datagrams built for an interface are received on each arc that leaves it by the receive task of
  the other end and handled by that daemon. \<open>Rip_Distance\<close> gives the topology; here the code of the
  daemons is shown to perform its hops.
\<close>

section \<open>An announcement and its reception\<close>

text \<open>The receive task at the end of an arc, and the packets it makes of datagrams from the other end.\<close>

definition arc_task :: "'v arc \<Rightarrow> rx_task" where
  "arc_task a =
     \<lparr> rx_socket = \<lparr> sock_fd = 0, sock_if_name = info_if_name (arc_in a), sock_if_index = info_if_index (arc_in a) \<rparr>,
       rx_running = True \<rparr>"

definition heard_packets :: "bool \<Rightarrow> 'v arc \<Rightarrow> u8 list list \<Rightarrow> RipPacket list" where
  "heard_packets checks a datagrams =
     List.map_filter
       (\<lambda>b. snd (rx_task_received checks b (V4 \<lparr> sa_ip = arc_address a, sa_port = RIP_UDP_PORT \<rparr>) (arc_task a)))
       datagrams"

definition deliver ::
  "'n os \<Rightarrow> 'd RoutingTableDriver \<Rightarrow> bool \<Rightarrow> 'v arc \<Rightarrow> u8 list list \<Rightarrow> ('d, 'n) RipDeamon
    \<Rightarrow> ('d, 'n) RipDeamon \<times> unit RipResult" where
  "deliver os drv checks a datagrams s = for_each (handle_packet os drv) (heard_packets checks a datagrams) s"

lemma for_each_append: "for_each f (xs @ ys) s = and_then (for_each f xs s) (\<lambda>_. for_each f ys)"
proof (induction xs arbitrary: s)
  case (Cons x xs)
  then show ?case
    by (cases "f x s"; cases "snd (f x s)") (auto simp: and_then_def)
qed simp

lemma for_each_concat: "for_each (\<lambda>xs. for_each f xs) xss s = for_each f (concat xss) s"
  by (induction xss arbitrary: s) (simp_all add: for_each_append and_then_def split: prod.splits sum.splits)

lemma for_each_map: "for_each f (map g xs) s = for_each (\<lambda>x. f (g x)) xs s"
  by (induction xs arbitrary: s) (simp_all add: and_then_def split: prod.splits sum.splits)

text \<open>The datagrams of an advertisement are received as the chunks of its entries.\<close>

lemma heard_advertisement:
  "heard_packets checks a (build_response_buffers en db out chg) =
     map (arc_packet a) (chunks RIP_RESPONSE_MAX_ENTRIES (get_routes_for_advertisement db out chg))"
proof -
  have "rx_task_received checks (build_response_buffer en es) (V4 \<lparr> sa_ip = arc_address a, sa_port = RIP_UDP_PORT \<rparr>) (arc_task a) =
      (arc_task a, Some (arc_packet a es))" if "length es \<le> 25" for es
  proof -
    have "length (build_response_buffer en es) \<le> 2048"
      using that by (simp add: build_response_buffer_eq length_packet_wire rip_sizes)
    then have "take RX_BUFFER_SIZE (build_response_buffer en es) = build_response_buffer en es"
      by (simp add: RX_BUFFER_SIZE_def)
    then show ?thesis
      by (simp add: rx_task_received_def parse_rx_data_def build_response_buffer_eq from_slice_packet_wire
          arc_task_def arc_packet_def response_header_def)
  qed
  moreover have "length es \<le> 25" if "es \<in> set (chunks RIP_RESPONSE_MAX_ENTRIES (get_routes_for_advertisement db out chg))" for es
    using chunks_size [OF that] by (simp add: RIP_RESPONSE_MAX_ENTRIES_def)
  ultimately show ?thesis
    unfolding heard_packets_def build_response_buffers_def List.map_filter_def
    by (simp add: filter_True o_def)
qed

text \<open>One entry of a packet, and the packet as the loop over its entries.\<close>

definition hear_entry ::
  "'n os \<Rightarrow> 'd RoutingTableDriver \<Rightarrow> 'v arc \<Rightarrow> RipEntry \<Rightarrow> ('d, 'n) RipDeamon \<Rightarrow> ('d, 'n) RipDeamon \<times> unit RipResult" where
  "hear_entry os drv a e s =
     (if \<not> is_entry_valid e then (s, Inr ())
      else update_route_from_response os drv
             (e\<lparr> metric := update_metric (metric e), next_hop := arc_address a \<rparr>) (arc_in a) s)"

lemma handle_arc_packet: "handle_packet os drv (arc_packet a es) s = for_each (hear_entry os drv a) es s"
proof -
  have "handle_packet os drv (arc_packet a es) s = handle_response_packet os drv (arc_packet a es) s"
    by (rule handle_response) (simp add: arc_packet_def)
  also have "\<dots> = for_each (hear_entry os drv a) es s"
    by (simp add: handle_response_packet_def arc_packet_def response_entry_to_route_def hear_entry_def [abs_def] if_distrib
        cong: if_cong)
  finally show ?thesis .
qed

lemma deliver_advertisement:
  "deliver os drv checks a (build_response_buffers en db out chg) s =
     for_each (hear_entry os drv a) (get_routes_for_advertisement db out chg) s"
proof -
  have "handle_packet os drv (arc_packet a es) = for_each (hear_entry os drv a) es" for es
    by (rule ext) (rule handle_arc_packet)
  then show ?thesis
    by (simp add: deliver_def heard_advertisement for_each_map for_each_concat [where f = "hear_entry os drv a"]
        concat_chunks RIP_RESPONSE_MAX_ENTRIES_def)
qed

corollary deliver_one_packet:
  "deliver os drv checks a (build_response_buffers en db out chg) s =
     handle_packet os drv (arc_packet a (get_routes_for_advertisement db out chg)) s"
  by (simp add: deliver_advertisement handle_arc_packet)

section \<open>Reception keeps a calm database\<close>

text \<open>No garbage: nothing has been withdrawn or timed out.\<close>

definition calm :: "RipDatabase \<Rightarrow> bool" where
  "calm db \<longleftrightarrow> rib_ok db \<and> garbage_routes db = []"

definition never_fails :: "'d RoutingTableDriver \<Rightarrow> bool" where
  "never_fails drv \<longleftrightarrow> (\<forall>d r. snd (drv_add_route drv d r) = Inr () \<and> snd (drv_delete_route drv d r) = Inr ())"

lemma never_fails_error: "never_fails drv \<Longrightarrow> \<not> driver_error drv err"
  by (simp add: never_fails_def driver_error_def)

text \<open>An entry that does not withdraw the receiver's route puts nothing into the garbage.\<close>

definition withdraws :: "'v arc \<Rightarrow> rib \<Rightarrow> RipEntry \<Rightarrow> bool" where
  "withdraws a rib e \<longleftrightarrow>
     15 \<le> unat (metric e)
     \<and> (case rib (build_route_key e) of None \<Rightarrow> False | Some r \<Rightarrow> next_hop (rr_entry r) = arc_address a)"

lemma replace_garbage:
  assumes "get_route (database s) (rip_entry old) = Some r"
    and "build_route_key (rip_entry old) = build_route_key e"
  shows "garbage_routes (database (fst (replace_route_from_response drv old e ifx ifn s))) = garbage_routes (database s)"
  by (auto simp: replace_effect [OF assms] db_replace_def db_store_def db_drop_ok_def split: prod.splits sum.splits)

lemma update_garbage:
  assumes s: "rib_ok (database s)" "garbage_routes (database s) = []" and nh: "next_hop e \<noteq> 0"
    and e: "\<And>r. metric e \<ge> RIP_INFINITY_METRIC \<Longrightarrow> get_route (database s) e = Some r \<Longrightarrow>
      next_hop (rip_entry r) \<noteq> next_hop e"
  shows "garbage_routes (database (fst (update_route_from_response os drv e info s))) = []"
proof (cases "metric e \<ge> RIP_INFINITY_METRIC")
  case True
  then show ?thesis
    using s(2) e [OF True]
    by (auto simp: update_route_from_response_def Let_def poison_effect [OF s(1) nh]
        route_is_from_current_next_hop_def split: option.splits)
next
  case False
  show ?thesis
  proof (cases "get_route (database s) e")
    case None
    then show ?thesis
      using s(2) False by (auto simp: learn_effect db_learn_def db_store_def db_drop_garbage_def hm_remove_def
          split: prod.splits)
  next
    case (Some old)
    have key: "build_route_key (rip_entry old) = build_route_key e" using rib_ok_route [OF s(1) Some] by simp
    have old: "get_route (database s) (rip_entry old) = Some old" using Some key by (simp add: get_route_def)
    let ?s = "s\<lparr> database := refresh_route_timeout e (database s) \<rparr>"
    have "get_route (database ?s) (rip_entry old) = Some (old\<lparr> timeout_cnt := 0 \<rparr>)"
      using Some key by (simp add: refresh_get_route)
    from replace_garbage [OF this key] replace_garbage [OF old key] show ?thesis
      using False Some s(2) by (auto simp: update_route_from_response_def Let_def refresh_route_timeout_def)
  qed
qed

lemma hear_entry_calm:
  assumes s: "calm (database s)" and a: "arc_address a \<noteq> 0" and drv: "never_fails drv"
    and e: "\<not> withdraws a (rib_of (database s)) e"
  shows "snd (hear_entry os drv a e s) = Inr () \<and> calm (database (fst (hear_entry os drv a e s)))
    \<and> rib_of (database (fst (hear_entry os drv a e s))) = rib_response (arc_packet a [e]) (rib_of (database s))"
proof (cases "is_entry_valid e")
  case False
  then show ?thesis using s by (simp add: hear_entry_def rib_response_single)
next
  case True
  let ?e = "e\<lparr> metric := update_metric (metric e), next_hop := arc_address a \<rparr>"
  have rib: "rib_ok (database s)" "garbage_routes (database s) = []" using s by (simp_all add: calm_def)
  have route: "response_entry_to_route e (arc_packet a [e]) = Some ?e"
    using True by (simp add: response_entry_to_route_def arc_packet_def)
  have ok: "rib_ok (database (fst (update_route_from_response os drv ?e (arc_in a) s)))"
    by (rule rib_ok_response_step [OF rib(1) _ route]) (use a in \<open>simp add: arc_packet_def\<close>)
  have inf: "RIP_INFINITY_METRIC \<le> metric ?e \<longleftrightarrow> 15 \<le> unat (metric e)"
    by (auto simp: word_le_nat_alt update_metric_unat RIP_INFINITY_METRIC_def)
  have empty: "garbage_routes (database (fst (update_route_from_response os drv ?e (arc_in a) s))) = []"
  proof (rule update_garbage [OF rib])
    fix r assume "RIP_INFINITY_METRIC \<le> metric ?e" and r: "get_route (database s) ?e = Some r"
    then have "15 \<le> unat (metric e)" using inf by simp
    moreover have "rib_of (database s) (build_route_key e) =
        Some \<lparr> rr_entry = rip_entry r, rr_if_index = if_index r, rr_if_name = if_name r \<rparr>"
      using r rib_of_get_route [of "database s" ?e] by simp
    ultimately show "next_hop (rip_entry r) \<noteq> next_hop ?e"
      using e by (simp add: withdraws_def)
  qed (use a in simp)
  have success: "snd (update_route_from_response os drv ?e (arc_in a) s) = Inr ()"
    using update_error [OF rib(1), of ?e os drv "arc_in a"] never_fails_error [OF drv] a
    by (cases "snd (update_route_from_response os drv ?e (arc_in a) s)") auto
  then show ?thesis
    using ok empty rib_update_step [OF rib(1) _ success] a True
    by (simp add: hear_entry_def rib_response_single calm_def)
qed

lemma hear_entries_calm:
  assumes "calm (database s)" and "arc_address a \<noteq> 0" and "never_fails drv"
    and "distinct (map build_route_key es)" and "\<And>e. e \<in> set es \<Longrightarrow> \<not> withdraws a (rib_of (database s)) e"
  shows "snd (for_each (hear_entry os drv a) es s) = Inr ()
    \<and> calm (database (fst (for_each (hear_entry os drv a) es s)))
    \<and> rib_of (database (fst (for_each (hear_entry os drv a) es s))) =
        rib_response (arc_packet a es) (rib_of (database s))"
  using assms(1,4,5)
proof (induction es arbitrary: s)
  case Nil
  then show ?case by (simp add: rib_response_arc)
next
  case (Cons e es)
  obtain s' res where step: "hear_entry os drv a e s = (s', res)" by fastforce
  then have s': "res = Inr ()" "calm (database s')"
    "rib_of (database s') = rib_response (arc_packet a [e]) (rib_of (database s))"
    using hear_entry_calm [OF Cons.prems(1) assms(2,3), of e os] Cons.prems(3) by auto
  have "\<not> withdraws a (rib_of (database s')) x" if "x \<in> set es" for x
  proof -
    have "build_route_key e \<noteq> build_route_key x"
      using Cons.prems(2) that by force
    then have "rib_of (database s') (build_route_key x) = rib_of (database s) (build_route_key x)"
      by (simp add: s'(3) rib_response_other_key)
    then show ?thesis using Cons.prems(3) [of x] that by (simp add: withdraws_def)
  qed
  from Cons.IH [OF s'(2) _ this] Cons.prems(2) show ?case
    by (simp add: step s'(1,3) rib_response_Cons [of a e es])
qed

section \<open>What is advertised\<close>

lemma advertised_entries:
  assumes "calm db"
  shows "e \<in> set (get_routes_for_advertisement db out chg) \<longleftrightarrow>
    (\<exists>k r. hm_get (ok_routes db) k = Some r \<and> (chg \<longrightarrow> changed r) \<and> if_index r \<noteq> out
       \<and> e = announced (rip_entry r))"
proof -
  have "hm_values (garbage_routes db) = []" using assms by (simp add: calm_def hm_values_def)
  moreover have "hm_wf (ok_routes db)" using assms by (simp add: calm_def rib_ok_wf db_wf_maps)
  ultimately show ?thesis
    by (auto simp: get_routes_for_advertisement_def hm_values_iff announced_def image_iff)
qed

lemma advertised_keys:
  assumes "calm db" and "hm_get (ok_routes db) k = Some r"
  shows "build_route_key (announced (rip_entry r)) = k"
  using assms db_wf_ok [OF rib_ok_wf] by (auto simp: calm_def announced_def ok_entry_def)

lemma announced_distinct:
  assumes "hm_wf m" and "\<And>k r. hm_get m k = Some r \<Longrightarrow> build_route_key (rip_entry r) = k"
  shows "distinct (map build_route_key (map (\<lambda>r. announced (rip_entry r)) (filter P (hm_values m))))"
proof -
  have "map build_route_key (map (\<lambda>r. announced (rip_entry r)) (filter P (hm_values m))) =
      map (\<lambda>(k, r). build_route_key (rip_entry r)) (filter (\<lambda>(k, r). P r) m)"
    by (simp add: hm_values_def filter_map o_def split_def announced_def)
  also have "\<dots> = map fst (filter (\<lambda>(k, r). P r) m)"
    using assms(2) by (intro map_cong) (auto simp: hm_get_in_set [OF assms(1)])
  finally show ?thesis using assms(1) by (simp add: hm_wf_def distinct_map_filter)
qed

text \<open>The active routes are advertised first, then the garbage.\<close>

definition sendable :: "u32 \<Rightarrow> bool \<Rightarrow> RipDbEntry \<Rightarrow> bool" where
  "sendable out chg r \<longleftrightarrow> (chg \<longrightarrow> changed r) \<and> if_index r \<noteq> out"

lemma advertisement_split:
  "get_routes_for_advertisement db out chg =
     map (\<lambda>r. announced (rip_entry r)) (filter (sendable out chg) (hm_values (ok_routes db)))
     @ map (\<lambda>r. announced (rip_entry r)) (filter (sendable out chg) (hm_values (garbage_routes db)))"
proof -
  have "(\<lambda>r. if chg \<and> \<not> changed r then False else if_index r \<noteq> out) = sendable out chg"
    by (auto simp: sendable_def fun_eq_iff)
  then show ?thesis by (simp add: get_routes_for_advertisement_def announced_def)
qed

lemma advertised_distinct:
  assumes "calm db"
  shows "distinct (map build_route_key (get_routes_for_advertisement db out chg))"
proof -
  have "hm_values (garbage_routes db) = []" using assms by (simp add: calm_def hm_values_def)
  moreover have "db_wf db" using assms by (simp add: calm_def rib_ok_wf)
  ultimately show ?thesis
    using announced_distinct [of "ok_routes db"] db_wf_ok [of db] db_wf_maps [of db]
    by (simp add: advertisement_split ok_entry_def)
qed

text \<open>At each destination an announcement of everything is a hop.\<close>

lemma advertisement_is_hop:
  assumes db: "calm db"
  shows "rib_response (arc_packet a (get_routes_for_advertisement db (arc_out a) chg)) rib k =
       hop a (rib_of db k) rib k
    \<or> chg \<and> rib_response (arc_packet a (get_routes_for_advertisement db (arc_out a) chg)) rib k = rib k"
proof (cases "\<exists>e. e \<in> set (get_routes_for_advertisement db (arc_out a) chg) \<and> build_route_key e = k")
  case True
  then obtain e where e: "e \<in> set (get_routes_for_advertisement db (arc_out a) chg)" "build_route_key e = k" by blast
  then obtain k' r where r: "hm_get (ok_routes db) k' = Some r" "if_index r \<noteq> arc_out a" "e = announced (rip_entry r)"
    by (auto simp: advertised_entries [OF db])
  then have "k' = k" using advertised_keys [OF db r(1)] e(2) by simp
  then have "rib_of db k = Some \<lparr> rr_entry = rip_entry r, rr_if_index = if_index r, rr_if_name = if_name r \<rparr>"
    using r(1) by (simp add: rib_of_def)
  then show ?thesis
    using rib_response_distinct [OF advertised_distinct [OF db] e(1), of a rib] e(2) r by (simp add: hop_def)
next
  case False
  then have "rib_response (arc_packet a (get_routes_for_advertisement db (arc_out a) chg)) rib k = rib k"
    by (intro rib_response_other_key) auto
  moreover have "hop a (rib_of db k) rib k = rib k" if "\<not> chg"
  proof (cases "hm_get (ok_routes db) k")
    case None
    then show ?thesis by (simp add: hop_def rib_of_def)
  next
    case (Some r)
    have "if_index r = arc_out a"
    proof (rule ccontr)
      assume "if_index r \<noteq> arc_out a"
      then have "announced (rip_entry r) \<in> set (get_routes_for_advertisement db (arc_out a) chg)"
        using Some that by (auto simp: advertised_entries [OF db])
      then show False using False advertised_keys [OF db Some] by blast
    qed
    then show ?thesis using Some by (simp add: hop_def rib_of_def)
  qed
  ultimately show ?thesis by auto
qed

section \<open>Networks\<close>

type_synonym ('v, 'd, 'n) network = "'v \<Rightarrow> ('d, 'n) RipDeamon"

text \<open>
  A daemon announces its routes, all or the changed ones, and is heard on the arcs given, in that
  order; the others lose the datagrams. Or a daemon checks its routes for timeouts, or collects its
  garbage.
\<close>

datatype 'v net_event = Announce 'v bool "'v arc list" | CheckTimeouts 'v | CollectGarbage 'v

definition hear ::
  "('v \<Rightarrow> 'n os) \<Rightarrow> 'd RoutingTableDriver \<Rightarrow> bool \<Rightarrow> RipDatabase \<Rightarrow> bool \<Rightarrow> 'v arc \<Rightarrow> ('v, 'd, 'n) network
    \<Rightarrow> ('v, 'd, 'n) network" where
  "hear os drv checks db chg a net =
     net(arc_to a := fst (deliver (os (arc_to a)) drv checks a
           (build_response_buffers (endianness (os (arc_from a))) db (arc_out a) chg) (net (arc_to a))))"

definition net_step ::
  "('v \<Rightarrow> 'n os) \<Rightarrow> 'd RoutingTableDriver \<Rightarrow> bool \<Rightarrow> 'v net_event \<Rightarrow> ('v, 'd, 'n) network
    \<Rightarrow> ('v, 'd, 'n) network" where
  "net_step os drv checks ev net =
     (case ev of
        Announce u chg heard \<Rightarrow>
          fold (hear os drv checks (database (net u)) chg) heard
            (net(u := fst (send_multicast_advertisement (os u) chg (net u))))
      | CheckTimeouts v \<Rightarrow> net(v := fst (fst (handle_route_timeout_tick (os v) drv (net v, None))))
      | CollectGarbage v \<Rightarrow> net(v := fst (handle_garbage_collection_tick (os v) (net v, None))))"

text \<open>
  Datagrams go along the arcs, and the executions considered are those in which no route times out:
  a check finds every learned route confirmed in time.
\<close>

definition possible :: "'v arc list \<Rightarrow> ('v \<Rightarrow> 'n os) \<Rightarrow> 'v net_event \<Rightarrow> ('v, 'd, 'n) network \<Rightarrow> bool" where
  "possible arcs os ev net =
     (case ev of
        Announce u chg heard \<Rightarrow> list_all (\<lambda>a. a \<in> set arcs \<and> arc_from a = u) heard
      | CheckTimeouts v \<Rightarrow> timed_out (os v) (database (net v)) = []
      | CollectGarbage v \<Rightarrow> True)"

fun net_run ::
  "'v arc list \<Rightarrow> ('v \<Rightarrow> 'n os) \<Rightarrow> 'd RoutingTableDriver \<Rightarrow> bool \<Rightarrow> 'v net_event list
    \<Rightarrow> ('v, 'd, 'n) network \<Rightarrow> ('v, 'd, 'n) network option" where
  "net_run arcs os drv checks [] net = Some net"
| "net_run arcs os drv checks (ev # evs) net =
     (if possible arcs os ev net then net_run arcs os drv checks evs (net_step os drv checks ev net) else None)"

definition net_ribs :: "('v, 'd, 'n) network \<Rightarrow> 'v ribs" where
  "net_ribs net v = rib_of (database (net v))"

definition net_ok :: "'v arc list \<Rightarrow> (RipRouteKey \<Rightarrow> 'v set) \<Rightarrow> ('v, 'd, 'n) network \<Rightarrow> bool" where
  "net_ok arcs S net \<longleftrightarrow> (\<forall>v. calm (database (net v))) \<and> (\<forall>k. ribs_ok arcs (S k) k (net_ribs net))"

lemma net_okD: "net_ok arcs S net \<Longrightarrow> calm (database (net v)) \<and> ribs_ok arcs (S k) k (net_ribs net)"
  by (simp add: net_ok_def)

lemma hear_step:
  assumes links: "links_ok arcs" "a \<in> set arcs" and drv: "never_fails drv" and net: "net_ok arcs S net"
    and db: "calm db" "rib_of db = rib_of (database (net (arc_from a)))"
    and net'_def: "net' = hear os drv checks db chg a net"
  shows "net_ok arcs S net'"
    and "after_hop k a (net_ribs net) (net_ribs net') \<or> chg \<and> same_routes k (net_ribs net) (net_ribs net')"
    and "rib_of (database (net' (arc_from a))) = rib_of db"
proof -
  let ?es = "get_routes_for_advertisement db (arc_out a) chg"
  have "\<not> withdraws a (rib_of (database (net (arc_to a)))) e" if e: "e \<in> set ?es" for e
  proof
    assume w: "withdraws a (rib_of (database (net (arc_to a)))) e"
    let ?k = "build_route_key e"
    obtain k' r where r: "hm_get (ok_routes db) k' = Some r" "e = announced (rip_entry r)"
      using e by (auto simp: advertised_entries [OF db(1)])
    then have "k' = ?k" using advertised_keys [OF db(1) r(1)] by simp
    then have "rib_of db ?k = Some \<lparr> rr_entry = rip_entry r, rr_if_index = if_index r, rr_if_name = if_name r \<rparr>"
      using r(1) by (simp add: rib_of_def)
    then obtain ru where ru: "net_ribs net (arc_from a) ?k = Some ru" "metric (rr_entry ru) = metric e"
      using r(2) by (simp add: net_ribs_def announced_def flip: db(2))
    obtain rv where rv: "net_ribs net (arc_to a) ?k = Some rv" "next_hop (rr_entry rv) = arc_address a"
      and far: "15 \<le> unat (metric e)"
      using w by (auto simp: withdraws_def net_ribs_def split: option.splits)
    have ok: "ribs_ok arcs (S ?k) ?k (net_ribs net)" using net by (simp add: net_ok_def)
    have "unat (metric (rr_entry ru)) + 1 \<le> unat (metric (rr_entry rv))"
      by (rule same_neighbour [OF links ok ru(1) rv])
    then show False using ribs_okD(3) [OF ok rv(1)] far ru(2) by simp
  qed
  then have heard: "calm (database (net' (arc_to a)))"
    "rib_of (database (net' (arc_to a))) = rib_response (arc_packet a ?es) (rib_of (database (net (arc_to a))))"
    using hear_entries_calm [of "net (arc_to a)" a drv ?es "os (arc_to a)"] net_okD [OF net] drv
      links_okD(2) [OF links] advertised_distinct [OF db(1)]
    by (simp_all add: net'_def hear_def deliver_advertisement)
  have other: "net' v = net v" if "v \<noteq> arc_to a" for v using that by (simp add: net'_def hear_def)
  show hops: "after_hop k a (net_ribs net) (net_ribs net') \<or> chg \<and> same_routes k (net_ribs net) (net_ribs net')" for k
    using advertisement_is_hop [OF db(1), of a chg "rib_of (database (net (arc_to a)))" k]
  proof (elim disjE conjE)
    assume "rib_response (arc_packet a ?es) (rib_of (database (net (arc_to a)))) k =
        hop a (rib_of db k) (rib_of (database (net (arc_to a)))) k"
    then have "after_hop k a (net_ribs net) (net_ribs net')"
      using heard(2) other db(2) by (simp add: after_hop_def net_ribs_def)
    then show ?thesis ..
  next
    assume "chg" and "rib_response (arc_packet a ?es) (rib_of (database (net (arc_to a)))) k =
        rib_of (database (net (arc_to a))) k"
    then have "rib_of (database (net' v)) k = rib_of (database (net v)) k" for v
      using heard(2) other [of v] by (cases "v = arc_to a") simp_all
    then show ?thesis using \<open>chg\<close> by (simp add: same_routes_def net_ribs_def)
  qed
  have "ribs_ok arcs (S k) k (net_ribs net')" for k
    using hops [of k] hop_ribs_ok [OF links, of "S k" k "net_ribs net" "net_ribs net'"] net
      same_routes_ok [of k "net_ribs net" "net_ribs net'" arcs "S k"]
    by (auto simp: net_ok_def)
  moreover have "calm (database (net' v))" for v
    using heard(1) other [of v] net_okD [OF net, of v] by (cases "v = arc_to a") auto
  ultimately show "net_ok arcs S net'" by (simp add: net_ok_def)
  show "rib_of (database (net' (arc_from a))) = rib_of db"
    using other [of "arc_from a"] links_okD(1) [OF links] db(2) by simp
qed

lemma hear_all:
  assumes links: "links_ok arcs" and drv: "never_fails drv" and db: "calm db"
    and heard: "list_all (\<lambda>a. a \<in> set arcs \<and> arc_from a = u) heard"
    and net: "net_ok arcs S net" "rib_of db = rib_of (database (net u))"
  shows "net_ok arcs S (fold (hear os drv checks db chg) heard net)
    \<and> (\<exists>A. hops arcs k (net_ribs net) A (net_ribs (fold (hear os drv checks db chg) heard net))
         \<and> (\<not> chg \<longrightarrow> set heard \<subseteq> A))"
  using heard net
proof (induction heard rule: rev_induct)
  case Nil
  then show ?case using hops_start [of arcs k "net_ribs net"] by (simp, blast)
next
  case (snoc a heard)
  let ?net = "fold (hear os drv checks db chg) heard net"
  have a: "a \<in> set arcs" "arc_from a = u" using snoc.prems(1) by simp_all
  obtain A where ok: "net_ok arcs S ?net" and hops: "hops arcs k (net_ribs net) A (net_ribs ?net)"
    and A: "\<not> chg \<longrightarrow> set heard \<subseteq> A"
    using snoc by auto
  have rib: "rib_of (database (?net u)) = rib_of db"
    using snoc.prems(1,2,3)
  proof (induction heard rule: rev_induct)
    case (snoc b heard)
    then have "arc_to b \<noteq> u" using links_okD(1) [OF links, of b] by auto
    then show ?case using snoc by (simp add: hear_def)
  qed simp
  have src: "rib_of db = rib_of (database (?net (arc_from a)))" using rib a(2) by simp
  note step = hear_step [OF links a(1) drv ok db src refl]
  from step(2) show ?case
  proof
    assume "after_hop k a (net_ribs ?net) (net_ribs (hear os drv checks db chg a ?net))"
    from hops_hop [OF hops a(1) this] show ?thesis using step(1) A by auto
  next
    assume same: "chg \<and> same_routes k (net_ribs ?net) (net_ribs (hear os drv checks db chg a ?net))"
    from hops_same [OF hops conjunct2 [OF same]] same step(1) show ?thesis by auto
  qed
qed

lemma announcement_database:
  "rib_of (database (fst (send_multicast_advertisement os chg s))) = rib_of (database s)"
  "calm (database s) \<Longrightarrow> calm (database (fst (send_multicast_advertisement os chg s)))"
proof -
  show "rib_of (database (fst (send_multicast_advertisement os chg s))) = rib_of (database s)"
    by (auto simp: send_multicast_advertisement_def map_err_def on_world_eq and_then_def split: sum.splits)
  show "calm (database s) \<Longrightarrow> calm (database (fst (send_multicast_advertisement os chg s)))"
    using rib_ok_send_advertisement [of s os chg]
    by (auto simp: calm_def send_multicast_advertisement_def map_err_def on_world_eq and_then_def
        mark_all_routes_as_unchanged_def hm_map_values_def split: sum.splits)
qed

lemma quiet_check_database:
  assumes "timed_out os (database s) = []"
  shows "rib_of (database (fst (fst (handle_route_timeout_tick os drv (s, gc))))) = rib_of (database s)"
    and "calm (database s) \<Longrightarrow> calm (database (fst (fst (handle_route_timeout_tick os drv (s, gc)))))"
proof -
  have db: "database (fst (fst (handle_route_timeout_tick os drv (s, gc)))) = aged os (database s)"
    using assms by (simp add: timeout_tick_frame after_expiry_def)
  show "rib_of (database (fst (fst (handle_route_timeout_tick os drv (s, gc))))) = rib_of (database s)"
    unfolding db
    by (rule ext) (auto simp: aged_def collect_state rib_of_def age_def option.map_comp comp_def intro!: option.map_cong)
  show "calm (database s) \<Longrightarrow> calm (database (fst (fst (handle_route_timeout_tick os drv (s, gc)))))"
    unfolding db by (simp add: calm_def aged_def collect_state rib_ok_collect [unfolded collect_state])
qed

lemma collection_database:
  "rib_of (database (fst (handle_garbage_collection_tick os (s, gc)))) = rib_of (database s)"
  "calm (database s) \<Longrightarrow> calm (database (fst (handle_garbage_collection_tick os (s, gc))))"
proof -
  show "rib_of (database (fst (handle_garbage_collection_tick os (s, gc)))) = rib_of (database s)"
    by (rule ext) (simp add: gc_tick_database rib_of_def remove_expired_garbage_routes_def Let_def split: prod.splits)
  show "calm (database s) \<Longrightarrow> calm (database (fst (handle_garbage_collection_tick os (s, gc))))"
    using rib_ok_remove_expired [of "database s"]
    by (simp add: calm_def gc_tick_database remove_expired_garbage_routes_def Let_def hm_values_def split: prod.splits)
qed

text \<open>One event performs hops at every destination, over the arcs on which everything was heard.\<close>

fun carried :: "'v net_event \<Rightarrow> 'v arc set" where
  "carried (Announce u chg heard) = (if chg then {} else set heard)"
| "carried (CheckTimeouts v) = {}"
| "carried (CollectGarbage v) = {}"

lemma net_ok_update:
  assumes "net_ok arcs S net" and "rib_of (database s) = rib_of (database (net v))" and "calm (database s)"
  shows "net_ok arcs S (net(v := s))" and "same_routes k (net_ribs net) (net_ribs (net(v := s)))"
proof -
  show same: "same_routes k (net_ribs net) (net_ribs (net(v := s)))" for k
    using assms(2) by (simp add: same_routes_def net_ribs_def)
  show "net_ok arcs S (net(v := s))"
    using assms same_routes_ok [OF same] by (auto simp: net_ok_def)
qed

lemma net_step_hops:
  assumes links: "links_ok arcs" and drv: "never_fails drv" and ev: "possible arcs os ev net"
    and net: "net_ok arcs S net"
  shows "net_ok arcs S (net_step os drv checks ev net)
    \<and> (\<exists>A. hops arcs k (net_ribs net) A (net_ribs (net_step os drv checks ev net)) \<and> carried ev \<subseteq> A)"
proof (cases ev)
  case (Announce u chg heard)
  let ?sent = "fst (send_multicast_advertisement (os u) chg (net u))"
  have db: "calm (database (net u))" using net_okD [OF net] by simp
  note sent = net_ok_update [OF net announcement_database(1) announcement_database(2) [OF db]]
  have heard: "list_all (\<lambda>a. a \<in> set arcs \<and> arc_from a = u) heard" using ev Announce by (simp add: possible_def)
  have rib: "rib_of (database (net u)) = rib_of (database ((net(u := ?sent)) u))"
    by (simp add: announcement_database)
  obtain A where A: "hops arcs k (net_ribs (net(u := ?sent))) A (net_ribs (net_step os drv checks ev net))"
      "\<not> chg \<longrightarrow> set heard \<subseteq> A" and ok: "net_ok arcs S (net_step os drv checks ev net)"
    using hear_all [OF links drv db heard sent(1) rib, of os checks chg k]
    unfolding net_step_def Announce net_event.case by blast
  from hops_trans [OF A(1) hops_same [OF hops_start sent(2)]] A(2) ok show ?thesis
    unfolding Announce by auto
next
  case (CheckTimeouts v)
  then have "timed_out (os v) (database (net v)) = []" using ev by (simp add: possible_def)
  note check = net_ok_update [OF net quiet_check_database(1) [OF this] quiet_check_database(2) [OF this]]
  have "calm (database (net v))" using net_okD [OF net] by simp
  note check = check [OF this]
  let ?net = "net(v := fst (fst (handle_route_timeout_tick (os v) drv (net v, None))))"
  have "hops arcs k (net_ribs net) {} (net_ribs ?net)" by (rule hops_same [OF hops_start check(2)])
  then show ?thesis
    using check(1) [of drv None] by (auto simp: CheckTimeouts net_step_def)
next
  case (CollectGarbage v)
  have "calm (database (net v))" using net_okD [OF net] by simp
  note collect = net_ok_update [OF net collection_database(1) collection_database(2) [OF this]]
  let ?net = "net(v := fst (handle_garbage_collection_tick (os v) (net v, None)))"
  have "hops arcs k (net_ribs net) {} (net_ribs ?net)" by (rule hops_same [OF hops_start collect(2)])
  then show ?thesis
    using collect(1) by (auto simp: CollectGarbage net_step_def)
qed

lemma net_run_hops:
  assumes "links_ok arcs" and "never_fails drv" and "net_run arcs os drv checks evs net = Some net'"
    and "net_ok arcs S net"
  shows "net_ok arcs S net'
    \<and> (\<exists>A. hops arcs k (net_ribs net) A (net_ribs net') \<and> \<Union> (carried ` set evs) \<subseteq> A)"
  using assms(3,4)
proof (induction evs arbitrary: net)
  case Nil
  then show ?case using hops_start by fastforce
next
  case (Cons ev evs)
  have poss: "possible arcs os ev net" and rest: "net_run arcs os drv checks evs (net_step os drv checks ev net) = Some net'"
    using Cons.prems(1) by (auto split: if_splits)
  obtain A where ok: "net_ok arcs S (net_step os drv checks ev net)"
    and A: "hops arcs k (net_ribs net) A (net_ribs (net_step os drv checks ev net))" "carried ev \<subseteq> A"
    using net_step_hops [OF assms(1,2) poss Cons.prems(2)] by blast
  obtain B where "net_ok arcs S net'" "hops arcs k (net_ribs (net_step os drv checks ev net)) B (net_ribs net')"
    "\<Union> (carried ` set evs) \<subseteq> B"
    using Cons.IH [OF rest ok] by blast
  then show ?case using hops_trans [OF _ A(1)] A(2) by fastforce
qed

lemma net_run_append:
  "net_run arcs os drv checks (evs @ evs') net =
     Option.bind (net_run arcs os drv checks evs net) (net_run arcs os drv checks evs')"
  by (induction evs arbitrary: net) auto

section \<open>From local routes only\<close>

text \<open>Daemons as \<^verbatim>\<open>setup\<close> leaves them: the configured local routes and nothing else.\<close>

definition starts_local :: "('v, 'd, 'n) network \<Rightarrow> bool" where
  "starts_local net \<longleftrightarrow>
     (\<forall>v. calm (database (net v)) \<and> (\<forall>k r. hm_get (ok_routes (database (net v))) k = Some r \<longrightarrow> is_local r))"

definition owners :: "RipRouteKey \<Rightarrow> ('v, 'd, 'n) network \<Rightarrow> 'v set" where
  "owners k net = {v. hm_get (ok_routes (database (net v))) k \<noteq> None}"

lemma setup_starts_local:
  assumes "\<And>v. net v = fst (RipDeamon_setup (os v) yaml (read v) (path v) (RipDeamon_new (RoutingTable_with_driver (d v)) (n v)))"
  shows "starts_local net"
proof -
  let ?P = "\<lambda>s. calm (database s) \<and> (\<forall>k r. hm_get (ok_routes (database s)) k = Some r \<longrightarrow> is_local r)"
  have "?P (RipDeamon_new rt n)" for rt :: "'d RoutingTable" and n :: 'n
    using rib_ok_new by (simp add: RipDeamon_new_def calm_def RipDatabase_new_def hm_new_def hm_get_def)
  moreover have "keeps ?P (RipDeamon_setup os yaml read path)" for os :: "'n os" and read and path
  proof (rule keeps_setup; rule keepsI)
    fix network and s :: "('d, 'n) RipDeamon" assume s: "?P s"
    then have rib: "rib_ok (database s)" by (simp add: calm_def)
    from setup_network_cases [of os network s]
    show "?P (fst (setup_advertised_network os network s))"
    proof (elim disjE exE conjE)
      fix lr
      assume "database (fst (setup_advertised_network os network s)) =
          db_store (new_db_entry (lr_entry lr) (lr_if_index lr) (lr_if_name lr) True) (database s)"
      then show ?thesis
        using rib_ok_setup_network [OF rib, of os network] s by (simp add: calm_def db_store_def)
    qed (use s in simp)
  qed simp
  ultimately have P: "?P (fst (RipDeamon_setup os yaml read path (RipDeamon_new rt n)))"
    for os :: "'n os" and read path and rt :: "'d RoutingTable" and n :: 'n
    by (intro keepsD [of ?P])
  show ?thesis
    unfolding starts_local_def
  proof
    show "?P (net v)" for v unfolding assms by (rule P)
  qed
qed

lemma start_ribs:
  assumes "starts_local net"
  shows "net_ok arcs (\<lambda>k. owners k net) net"
proof -
  have db: "calm (database (net v))" "hm_get (ok_routes (database (net v))) k = Some r \<Longrightarrow> is_local r" for v k r
    using assms by (auto simp: starts_local_def)
  have "build_route_key (rip_entry r) = k \<and> metric (rip_entry r) = 1 \<and> next_hop (rip_entry r) = 0"
    if r: "hm_get (ok_routes (database (net v))) k = Some r" for v k r
    using rib_ok_ok_route [of "database (net v)" k r] db_wf_ok [OF rib_ok_wf, of "database (net v)" k r] db [of v] r
    by (auto simp: calm_def route_ok_def local_entry_ok_def ok_entry_def)
  then have "ribs_ok arcs (owners k net) k (net_ribs net)" for k
    by (auto simp: ribs_ok_def owners_def net_ribs_def rib_of_def)
  then show ?thesis using db by (simp add: net_ok_def)
qed

text \<open>Every arc has carried a full announcement in the round.\<close>

definition covers :: "'v arc list \<Rightarrow> 'v net_event list \<Rightarrow> bool" where
  "covers arcs evs \<longleftrightarrow> set arcs \<subseteq> \<Union> (carried ` set evs)"

lemma rounds_settle:
  assumes links: "links_ok arcs" and drv: "never_fails drv" and k: "valid_key k"
    and run: "net_run arcs os drv checks (concat rounds) net = Some net'"
    and rounds: "\<And>evs. evs \<in> set rounds \<Longrightarrow> covers arcs evs"
    and net: "net_ok arcs S net" "attached arcs (S k) k (net_ribs net)"
  shows "settled arcs (S k) k (length rounds) (net_ribs net')"
  using run rounds
proof (induction rounds arbitrary: net' rule: rev_induct)
  case Nil
  then show ?case using settled_start [OF conjunct2 [OF net_okD [OF net(1)]] net(2)] by simp
next
  case (snoc evs rounds)
  obtain net1 where run: "net_run arcs os drv checks (concat rounds) net = Some net1"
    "net_run arcs os drv checks evs net1 = Some net'"
    using snoc.prems(1) by (auto simp: net_run_append bind_eq_Some_conv)
  have ok: "net_ok arcs S net1" using net_run_hops [OF links drv run(1) net(1)] by simp
  obtain A where "hops arcs k (net_ribs net1) A (net_ribs net')" "\<Union> (carried ` set evs) \<subseteq> A"
    using net_run_hops [OF links drv run(2) ok] by blast
  then show ?case
    using settled_round [OF snoc.IH [OF run(1)] _ links k] snoc.prems(2) by (force simp: covers_def)
qed

section \<open>Properties\<close>

text \<open>
  C14: the datagrams between two daemons are transparent. What the receiver's task and handler make of
  the datagrams built for the sender's interface, however many there are, in whatever byte order
  and with or without overflow checks, is what they make of the sender's table under split horizon
  handed over in one piece.
\<close>

theorem datagrams_transparent:
  "deliver os drv checks a (build_response_buffers en db (arc_out a) chg) s =
     handle_packet os drv
       \<lparr> packet_data =
           \<lparr> header = \<lparr> command = RIP_CMD_RESPONSE, version = RIP_2_VERSION, padding = 0 \<rparr>,
             entries = get_routes_for_advertisement db (arc_out a) chg \<rparr>,
         if_info = arc_in a, source = \<lparr> sa_ip = arc_address a, sa_port = RIP_UDP_PORT \<rparr> \<rparr> s"
  using deliver_one_packet by (simp only: arc_packet_def)


text \<open>Three daemons in a row; the first has the network 10.0.1.0/24 on an interface of its own.\<close>

definition row :: "nat arc list" where
  "row =
     [\<lparr> arc_from = 0, arc_to = 1, arc_out = 7, arc_address = 3232235521, arc_in = \<lparr> info_if_name = ''eth0'', info_if_index = 7 \<rparr> \<rparr>,
      \<lparr> arc_from = 1, arc_to = 0, arc_out = 7, arc_address = 3232235522, arc_in = \<lparr> info_if_name = ''eth0'', info_if_index = 7 \<rparr> \<rparr>,
      \<lparr> arc_from = 1, arc_to = 2, arc_out = 8, arc_address = 3232235777, arc_in = \<lparr> info_if_name = ''eth0'', info_if_index = 7 \<rparr> \<rparr>,
      \<lparr> arc_from = 2, arc_to = 1, arc_out = 7, arc_address = 3232235778, arc_in = \<lparr> info_if_name = ''eth1'', info_if_index = 8 \<rparr> \<rparr>]"

definition row_start :: "(nat, StubRoutingTableDriver, unit) network" where
  "row_start v =
     \<lparr> routing_table = RoutingTable_with_driver StubRoutingTableDriver_new, interfaces = [],
       database = (if v = 0 then fst (add_local_route (sample_entry 1 0 1) 9 ''eth2'' RipDatabase_new) else RipDatabase_new),
       world = () \<rparr>"

definition row_round :: "nat net_event list" where
  "row_round =
     [Announce 2 False (filter (\<lambda>a. arc_from a = 2) row), Announce 1 False (filter (\<lambda>a. arc_from a = 1) row),
      Announce 0 False (filter (\<lambda>a. arc_from a = 0) row)]"


section \<open>A local route in the shadow of garbage\<close>

lemma rib_response_append:
  "rib_response (arc_packet a (es @ es')) rib = rib_response (arc_packet a es') (rib_response (arc_packet a es) rib)"
  by (simp add: rib_response_arc)

text \<open>A destination that is both active and garbage is announced with both its entries, and the last one counts.\<close>

lemma shadowed_announcement:
  assumes db: "rib_ok db" and r: "hm_get (ok_routes db) k = Some r" "is_local r" "if_index r \<noteq> arc_out a"
    and g: "hm_get (garbage_routes db) k = Some g" "if_index g \<noteq> arc_out a"
    and k: "valid_key k" and a: "arc_address a \<noteq> 0"
    and rib: "\<And>rv. rib k = Some rv \<Longrightarrow> next_hop (rr_entry rv) = arc_address a \<or> 2 < metric (rr_entry rv)"
  shows "rib_response (arc_packet a (get_routes_for_advertisement db (arc_out a) False)) rib k = None"
proof -
  let ?es = "\<lambda>m. map (\<lambda>r. announced (rip_entry r)) (filter (sendable (arc_out a) False) (hm_values m))"
  have wf: "db_wf db" by (rule rib_ok_wf [OF db])
  have keys: "build_route_key (rip_entry r) = k" "build_route_key (rip_entry g) = k" "metric (rip_entry g) = 16"
    using db_wf_ok [OF wf r(1)] db_wf_garbage [OF wf g(1)] by (simp_all add: ok_entry_def garbage_entry_def)
  have local: "metric (rip_entry r) = 1"
    using rib_ok_ok_route [OF db r(1)] r(2) by (simp add: route_ok_def local_entry_ok_def)
  have distinct: "distinct (map build_route_key (?es (ok_routes db)))" "distinct (map build_route_key (?es (garbage_routes db)))"
    using db_wf_maps [OF wf] db_wf_ok [OF wf] db_wf_garbage [OF wf]
    by (intro announced_distinct; simp add: ok_entry_def garbage_entry_def)+
  have valid: "is_entry_valid (announced (rip_entry r))" "is_entry_valid (announced (rip_entry g))"
    using k keys local
    by (auto simp: valid_key_def is_entry_valid_def announced_def is_metric_valid_def build_route_key_def RIP_INFINITY_METRIC_def)
  have "announced (rip_entry r) \<in> set (?es (ok_routes db))"
    using r db_wf_maps [OF wf] by (force simp: sendable_def hm_values_iff)
  from rib_response_distinct [OF distinct(1) this]
  have first: "rib_response (arc_packet a (?es (ok_routes db))) rib k =
      rib_response (arc_packet a [announced (rip_entry r)]) rib k"
    using keys(1) by (simp add: announced_def)
  let ?e = "(announced (rip_entry r))\<lparr> metric := update_metric 1, next_hop := arc_address a \<rparr>"
  have m: "update_metric 1 = 2" "update_metric 16 = 16" by (simp_all add: update_metric_def saturating_add_def RIP_INFINITY_METRIC_def)
  have "rib_response (arc_packet a (?es (ok_routes db))) rib k = Some (rib_offer ?e (arc_in a))"
    unfolding first rib_response_single
    using valid(1) local keys(1) m rib
    by (auto simp: rib_update_def Let_def announced_def RIP_INFINITY_METRIC_def split: option.splits)
  moreover have "announced (rip_entry g) \<in> set (?es (garbage_routes db))"
    using g db_wf_maps [OF wf] by (force simp: sendable_def hm_values_iff)
  ultimately show ?thesis
    using rib_response_distinct [OF distinct(2), of "announced (rip_entry g)" a "rib_response (arc_packet a (?es (ok_routes db))) rib"]
      valid(2) keys m
    by (simp add: advertisement_split rib_response_append rib_response_single rib_update_def Let_def rib_offer_def announced_def
        RIP_INFINITY_METRIC_def)
qed

lemma deliver_rib:
  assumes "rib_ok (database s)" and "arc_address a \<noteq> 0" and "never_fails drv"
  shows "rib_of (database (fst (deliver os drv checks a (build_response_buffers en db out chg) s))) =
    rib_response (arc_packet a (get_routes_for_advertisement db out chg)) (rib_of (database s))"
proof -
  let ?packet = "arc_packet a (get_routes_for_advertisement db out chg)"
  have src: "sa_ip (source ?packet) \<noteq> 0" "version (header (packet_data ?packet)) = RIP_2_VERSION"
    "sa_port (source ?packet) = RIP_UDP_PORT" "command (header (packet_data ?packet)) = RIP_CMD_RESPONSE"
    using assms(2) by (simp_all add: arc_packet_def)
  have "snd (handle_response_packet os drv ?packet s) = Inr ()"
    using response_error [OF assms(1) src(1,2), of os drv] never_fails_error [OF assms(3)]
    by (cases "snd (handle_response_packet os drv ?packet s)") auto
  from rib_of_packet [OF assms(1) src(1) this src(3)] show ?thesis
    by (simp add: deliver_one_packet handle_response [OF src(4)])
qed

text \<open>
  C36: a local route can be added for a destination that is still in the garbage, and is then lost to
  the neighbours: the announcement has the route first and the withdrawn one after it, and a
  neighbour that has no other route as short ends every announcement without a route to the network,
  even if it had just learned it.
\<close>

theorem shadowed_local_route_lost:
  assumes "rib_ok db" and "hm_get (ok_routes db) k = Some r" and "is_local r" and "if_index r \<noteq> arc_out a"
    and "hm_get (garbage_routes db) k = Some g" and "if_index g \<noteq> arc_out a"
    and "valid_key k" and "arc_address a \<noteq> 0" and "never_fails drv" and "rib_ok (database s)"
    and "\<And>rv. hm_get (ok_routes (database s)) k = Some rv \<Longrightarrow>
      next_hop (rip_entry rv) = arc_address a \<or> 2 < metric (rip_entry rv)"
  shows "hm_get (ok_routes (database (fst (deliver os drv checks a
    (build_response_buffers en db (arc_out a) False) s)))) k = None"
proof -
  have "rib_of (database (fst (deliver os drv checks a (build_response_buffers en db (arc_out a) False) s))) k = None"
    unfolding deliver_rib [OF assms(10,8,9)]
    using assms(11) by (intro shadowed_announcement [OF assms(1-8)]) (auto simp: rib_of_def)
  then show ?thesis by (simp add: rib_of_def)
qed

text \<open>An administrator adds 10.0.1.0/24, withdrawn by a neighbour before; the request is accepted.\<close>

theorem shadowed_local_route_lost_witness:
  "let added = add_local_route (sample_entry 1 0 1) 9 ''eth2'' (sample_garbage_db 0);
       a = \<lparr> arc_from = 0, arc_to = 1 :: nat, arc_out = 8, arc_address = 3232235777,
             arc_in = \<lparr> info_if_name = ''eth0'', info_if_index = 7 \<rparr> \<rparr>
   in snd added = Inr ()
      \<and> get_routes_for_advertisement (fst added) 8 False \<noteq> []
      \<and> hm_get (ok_routes (database (fst (deliver quiet_os stub_driver True a
           (build_response_buffers Little (fst added) 8 False) (row_start 2))))) (build_route_key (sample_entry 1 0 0)) = None"
proof -
  let ?added = "add_local_route (sample_entry 1 0 1) 9 ''eth2'' (sample_garbage_db 0)"
  let ?a = "\<lparr> arc_from = 0, arc_to = 1 :: nat, arc_out = 8, arc_address = 3232235777,
      arc_in = \<lparr> info_if_name = ''eth0'', info_if_index = 7 \<rparr> \<rparr>"
  let ?k = "build_route_key (sample_entry 1 0 0)"
  have added: "snd ?added = Inr ()" "rib_ok (fst ?added)" "get_routes_for_advertisement (fst ?added) 8 False \<noteq> []"
    "hm_get (ok_routes (fst ?added)) ?k = Some (new_db_entry (sample_entry 1 0 1) 9 ''eth2'' True)"
    "hm_get (garbage_routes (fst ?added)) ?k = Some (to_garbage 0 sample_old_route)"
    by code_simp+
  have k: "valid_key ?k" by code_simp
  have drv: "never_fails stub_driver" by (simp add: never_fails_def stub_driver_def)
  have s: "rib_ok (database (row_start 2))" "hm_get (ok_routes (database (row_start 2))) ?k = None"
    using rib_ok_new by (simp_all add: row_start_def RipDatabase_new_def hm_new_def hm_get_def)
  show ?thesis
    using shadowed_local_route_lost [OF added(2,4) _ _ added(5) _ k _ drv s(1), of ?a quiet_os True Little] s(2) added(1,3)
    by (simp add: to_garbage_def sample_old_route_def)
qed

end
