(* ===== verification/Rip_Withdrawal.thy ===== *)
theory Rip_Withdrawal
  imports Rip_Network
begin

text \<open>
  What an orderly shutdown does to the neighbours: the poisoned announcement takes the daemon's routes
  away from those that use them, and nothing else.
\<close>

section \<open>A response of unreachable routes\<close>

definition without_neighbour :: "u32 \<Rightarrow> RipRouteKey set \<Rightarrow> rib \<Rightarrow> rib" where
  "without_neighbour addr K rib k =
     (case rib k of
        None \<Rightarrow> None
      | Some r \<Rightarrow> if k \<in> K \<and> next_hop (rr_entry r) = addr then None else Some r)"

lemma without_neighbour_none [simp]: "without_neighbour addr {} rib = rib"
  by (auto simp: without_neighbour_def split: option.splits)

lemma without_neighbour_again:
  "without_neighbour addr K (without_neighbour addr K' rib) = without_neighbour addr (K \<union> K') rib"
  by (auto simp: without_neighbour_def fun_eq_iff split: option.splits)

lemma rib_update_unreachable:
  assumes "RIP_INFINITY_METRIC \<le> metric e"
  shows "rib_update e info rib = without_neighbour (next_hop e) {build_route_key e} rib"
  using assms
  by (auto simp: rib_update_def without_neighbour_def Let_def fun_eq_iff not_less split: option.splits)

lemma is_entry_valid_16:
  "metric e = 16 \<Longrightarrow> is_entry_valid e = valid_key (build_route_key e)"
  by (simp add: is_entry_valid_def valid_key_def build_route_key_def is_metric_valid_def RIP_INFINITY_METRIC_def)

lemma rib_response_unreachable:
  assumes "list_all (\<lambda>e. metric e = 16) es"
  shows "rib_response (arc_packet a es) rib =
    without_neighbour (arc_address a) {k \<in> build_route_key ` set es. valid_key k} rib"
  using assms
proof (induction es arbitrary: rib)
  case Nil
  then show ?case by (simp add: rib_response_arc)
next
  case (Cons e es)
  have m: "update_metric 16 = 16"
    by (simp add: update_metric_def saturating_add_def RIP_INFINITY_METRIC_def)
  have e: "rib_response (arc_packet a [e]) rib =
      without_neighbour (arc_address a) {k. k = build_route_key e \<and> valid_key k} rib"
  proof (cases "valid_key (build_route_key e)")
    case True
    then have "{k. k = build_route_key e \<and> valid_key k} = {build_route_key e}" by auto
    then show ?thesis
      using Cons.prems True m
      by (simp add: rib_response_single is_entry_valid_16 rib_update_unreachable RIP_INFINITY_METRIC_def build_route_key_def)
  next
    case False
    then have none: "{k. k = build_route_key e \<and> valid_key k} = {}" by auto
    show ?thesis
      unfolding none using Cons.prems False by (simp add: rib_response_single is_entry_valid_16)
  qed
  have "{k \<in> build_route_key ` set (e # es). valid_key k} =
      {k \<in> build_route_key ` set es. valid_key k} \<union> {k. k = build_route_key e \<and> valid_key k}" by auto
  moreover have "rib_response (arc_packet a (e # es)) rib =
      rib_response (arc_packet a es) (rib_response (arc_packet a [e]) rib)"
    using rib_response_append [of a "[e]" es rib] by simp
  ultimately show ?case
    using Cons e by (simp add: without_neighbour_again)
qed

section \<open>Properties\<close>

text \<open>
  C16: an orderly shutdown reaches the neighbours. A neighbour that hears the announcement of the
  poisoned table loses exactly its routes through the daemon to the destinations the daemon has been
  announcing on the link; every other route, through another neighbour or of its own, is as it was.
\<close>

theorem shutdown_reaches_neighbours:
  assumes "rib_ok (database s)" and "arc_address a \<noteq> 0" and "never_fails drv"
  shows "rib_of (database (fst (deliver os drv checks a
      (build_response_buffers en (poison_all_routes db) (arc_out a) False) s))) k =
    (case rib_of (database s) k of
       None \<Rightarrow> None
     | Some r \<Rightarrow>
         if next_hop (rr_entry r) = arc_address a \<and> valid_key k
           \<and> k \<in> build_route_key ` set (get_routes_for_advertisement db (arc_out a) False)
         then None else Some r)"
proof -
  let ?es = "get_routes_for_advertisement (poison_all_routes db) (arc_out a) False"
  have "build_route_key ` set ?es = build_route_key ` set (get_routes_for_advertisement db (arc_out a) False)"
    using poisoned_advertisement [of db "arc_out a" False] by (metis list.set_map)
  then show ?thesis
    unfolding deliver_rib [OF assms]
      rib_response_unreachable [OF conjunct2 [OF poisoned_advertisement [of db "arc_out a" False]]]
    by (auto simp: without_neighbour_def split: option.splits)
qed

theorem shutdown_reaches_neighbours_witness:
  "let a = hd row; s = row_start 2\<lparr> database := sample_db [1, 2] \<rparr>;
       rib = rib_of (database (fst (deliver quiet_os stub_driver True a
         (build_response_buffers Little (poison_all_routes (database (row_start 0))) (arc_out a) False) s)))
   in rib (build_route_key (sample_entry 1 0 0)) = None
      \<and> rib (build_route_key (sample_entry 2 0 0)) = rib_of (sample_db [1, 2]) (build_route_key (sample_entry 2 0 0))
      \<and> rib (build_route_key (sample_entry 2 0 0)) \<noteq> None"
proof -
  let ?a = "hd row" and ?s = "row_start 2\<lparr> database := sample_db [1, 2] \<rparr>"
  let ?k = "\<lambda>n. build_route_key (sample_entry n 0 0)"
  have s: "rib_ok (database ?s)" using sample_db_rib_ok(4) by simp
  have a: "arc_address ?a \<noteq> 0" by (simp add: row_def)
  have drv: "never_fails stub_driver" by (simp add: never_fails_def stub_driver_def)
  let ?r = "\<lambda>n. \<lparr> rr_entry = sample_entry n 3232235521 2, rr_if_index = 3, rr_if_name = ''eth0'' \<rparr>"
  have "valid_key (?k 1)" by code_simp
  moreover have "rib_of (sample_db [1, 2]) (?k 1) = Some (?r 1)" "rib_of (sample_db [1, 2]) (?k 2) = Some (?r 2)"
    by code_simp+
  moreover have "next_hop (sample_entry n 3232235521 2) = 3232235521" for n by (simp add: sample_entry_def)
  moreover have "build_route_key ` set (get_routes_for_advertisement (database (row_start 0)) (arc_out ?a) False) = {?k 1}"
    by code_simp
  moreover have "?k 2 \<noteq> ?k 1" by code_simp
  moreover have "arc_address ?a = 3232235521" by (simp add: row_def)
  ultimately show ?thesis
    using shutdown_reaches_neighbours [OF s a drv, of quiet_os True Little "database (row_start 0)" "?k 1"]
      shutdown_reaches_neighbours [OF s a drv, of quiet_os True Little "database (row_start 0)" "?k 2"]
    by (simp add: Let_def del: sample_db.simps)
qed

end
