(* ===== verification/Rip_Administration.thy ===== *)
theory Rip_Administration
  imports Rip_Samples
begin

text \<open>
  From the administrator to the network: what one turn of the loop makes of a request to add a
  local route, through \<^verbatim>\<open>handle_http_request\<close>, the database, the triggered update and the datagrams.
\<close>

section \<open>What a datagram carries\<close>

lemma announced_in_datagram:
  assumes "e \<in> set (get_routes_for_advertisement db target chg)"
  shows "\<exists>b\<in>set (build_response_buffers en db target chg). \<exists>pd.
    RipPacketData_from_slice checks b = Some (Inr pd) \<and> e \<in> set (entries pd)"
proof -
  let ?ess = "chunks RIP_RESPONSE_MAX_ENTRIES (get_routes_for_advertisement db target chg)"
  have "e \<in> set (concat ?ess)" using assms by (simp add: concat_chunks RIP_RESPONSE_MAX_ENTRIES_def)
  then obtain es where es: "es \<in> set ?ess" "e \<in> set es" by auto
  then have "Some (Inr \<lparr> header = response_header, entries = es \<rparr>) \<in>
      set (map (RipPacketData_from_slice checks) (build_response_buffers en db target chg))"
    unfolding buffers_decode [unfolded decoded_responses_def] by simp
  then show ?thesis using es(2) unfolding set_map by (metis (no_types, lifting) RipPacketData.select_convs(2) imageE)
qed

lemma stored_is_announced:
  assumes "if_index r \<noteq> target" and "changed r" and "hm_get (ok_routes db) k = Some r"
  shows "(rip_entry r)\<lparr> next_hop := 0 \<rparr> \<in> set (get_routes_for_advertisement db target chg)"
proof -
  have "(k, r) \<in> set (ok_routes db)" using assms(3) by (auto simp: hm_get_def dest: map_of_SomeD)
  then have "r \<in> set (hm_values (ok_routes db))" by (force simp: hm_values_def)
  then show ?thesis using assms(1,2) by (auto simp: get_routes_for_advertisement_def)
qed

section \<open>A sample request\<close>

lemma recording_calls: "fold (after_call recording_os) calls n = n @ calls"
  by (induction calls arbitrary: n) (simp_all add: after_call_def recording_os_def recording_sys_def)

abbreviation sample_sender_run :: "(unit, syscall list) RunState" where
  "sample_sender_run \<equiv>
     \<lparr> deamon = sample_sender RipDatabase_new, request_warmup_timer = None, update_timer = 30000000000,
       triggered_update_lock_timer = None, timeout_timer = 15000000000, garbage_collection_timer = None,
       http_open = True \<rparr>"

definition sample_network :: AdvertisedNetwork where
  "sample_network = \<lparr> net_address = ''172.16.0.1'', net_prefix = 16, net_dev = ''eth0'' \<rparr>"

lemma sample_network_route:
  "advertised_network_to_local_route recording_os sample_network [] =
     ([], Inr \<lparr> lr_entry = local_route_entry 2886729728 4294901760, lr_if_index = 7, lr_if_name = ''eth0'' \<rparr>)"
proof -
  have "ifc_nametoindex recording_os ''eth0'' [] = ([], Inr 7)"
    using ifc_buffer [of "''eth0''"]
    by (simp add: ifc_nametoindex_def IFNAMSIZ_def Let_def recording_os_def)
  then show ?thesis
    by (simp add: advertised_network_to_local_route_def sample_network_def prefix_to_mask_eq sample_local_address)
qed

section \<open>Properties\<close>

text \<open>
  C17: a route added by the administrator is announced at once. If the network is valid, its destination
  free and the triggered update lock not armed, the turn of the loop that answers the request with
  success also sends, on every interface but the route's own, a datagram with the new route in it,
  and arms the lock.
\<close>

theorem administered_route_announced:
  assumes "sends_whole os" and "db_wf (database (deamon st))" and "triggered_update_lock_timer st = None"
    and "advertised_network_to_local_route os network (world (deamon st)) = (w, Inr lr)"
    and "get_route (database (deamon st)) (lr_entry lr) = None"
  shows "\<exists>st' calls. run_turn os drv (HttpReceived (Some \<lparr> kind = AddLocalRoute network, reply_to = c \<rparr>)) st =
        (st', Continue (Some (c, HttpOk)))
    \<and> get_route (database (deamon st')) (lr_entry lr) \<noteq> None
    \<and> triggered_update_lock_timer st' \<noteq> None
    \<and> world (deamon st') =
        fst (instant_now os (fst (create_triggered_update_lock_duration os (fold (after_call os) calls w))))
    \<and> (\<forall>ifc. ifc \<in> set (interfaces (deamon st)) \<and> sock_if_index (ifc_tx ifc) \<noteq> lr_if_index lr \<longrightarrow>
        (\<exists>b pd. SendTo (sock_fd (ifc_tx ifc)) b rip_multicast_target \<in> set calls
           \<and> RipPacketData_from_slice checks b = Some (Inr pd) \<and> lr_entry lr \<in> set (entries pd)))"
proof -
  let ?r = "new_db_entry (lr_entry lr) (lr_if_index lr) (lr_if_name lr) True"
  let ?db = "db_store ?r (database (deamon st))"
  let ?calls = "advertisement_calls (endianness os) ?db True (interfaces (deamon st))"
  have added: "handle_http_request os \<lparr> kind = AddLocalRoute network, reply_to = c \<rparr> (deamon st) =
      ((deamon st)\<lparr> world := w, database := ?db \<rparr>, (c, HttpOk))"
    using assms(4,5) by (simp add: handle_http_request_def setup_advertised_network_def on_world_eq on_database_eq add_local_route_eq)
  have wf: "db_wf ?db"
    using db_wf_add_local_route [OF assms(2), of "lr_entry lr" "lr_if_index lr" "lr_if_name lr"] assms(5)
    by (simp add: add_local_route_eq)
  let ?s = "(deamon st)\<lparr> world := w, database := ?db \<rparr>"
  have sent: "send_multicast_advertisement os True ?s =
      (?s\<lparr> world := fold (after_call os) ?calls w, database := mark_all_routes_as_unchanged ?db \<rparr>, Inr ())"
    using advertisement_whole [OF assms(1), of ?db "interfaces (deamon st)" True w]
    by (simp add: send_multicast_advertisement_def on_world_eq)
  have "any_route_changed ?db" by (simp add: any_route_changed_def)
  let ?lock = "create_triggered_update_lock_duration os (fold (after_call os) ?calls w)"
  let ?clock = "instant_now os (fst ?lock)"
  let ?st' = "st\<lparr> deamon := ?s\<lparr> world := fst ?clock, database := mark_all_routes_as_unchanged ?db \<rparr>,
      triggered_update_lock_timer := Some (snd ?clock + snd ?lock) \<rparr>"
  have turn: "run_turn os drv (HttpReceived (Some \<lparr> kind = AddLocalRoute network, reply_to = c \<rparr>)) st =
      (?st', Continue (Some (c, HttpOk)))"
    using assms(3) \<open>any_route_changed ?db\<close>
    by (simp add: run_turn_def select_arm_def on_deamon_def added triggered_update_def maybe_send_triggered_update_def
        sent on_world_eq sleep_timer_def)
  have stored: "hm_get (ok_routes ?db) (build_route_key (lr_entry lr)) = Some ?r"
    by (simp add: db_store_def new_db_entry_def)
  have kept: "get_route (database (deamon ?st')) (lr_entry lr) \<noteq> None"
    using stored by (simp add: get_route_def mark_all_eq [OF wf] mark_all_unconditionally_def)
  have "lr_entry lr \<lparr> next_hop := 0 \<rparr> = lr_entry lr"
    using local_route_shape [of os network "world (deamon st)" lr] assms(4) by (auto simp: local_route_entry_def)
  then have "lr_entry lr \<in> set (get_routes_for_advertisement ?db target True)" if "target \<noteq> lr_if_index lr" for target
    using stored_is_announced [OF _ _ stored, of target True] that by (simp add: new_db_entry_def)
  then have carried: "\<exists>b pd. SendTo (sock_fd (ifc_tx ifc)) b rip_multicast_target \<in> set ?calls
      \<and> RipPacketData_from_slice checks b = Some (Inr pd) \<and> lr_entry lr \<in> set (entries pd)"
    if "ifc \<in> set (interfaces (deamon st))" "sock_if_index (ifc_tx ifc) \<noteq> lr_if_index lr" for ifc
    using announced_in_datagram [of "lr_entry lr" ?db "sock_if_index (ifc_tx ifc)" True "endianness os" checks] that
    by (fastforce simp: advertisement_calls_def)
  show ?thesis
    by (rule exI [of _ ?st'], rule exI [of _ ?calls]) (use turn kept carried in simp)
qed

theorem administered_route_announced_witness:
  "\<exists>st' b pd.
     run_turn recording_os stubborn_driver (HttpReceived (Some \<lparr> kind = AddLocalRoute sample_network, reply_to = 5 \<rparr>))
       sample_sender_run = (st', Continue (Some (5, HttpOk)))
     \<and> triggered_update_lock_timer st' \<noteq> None
     \<and> SendTo 4 b rip_multicast_target \<in> set (world (deamon st'))
     \<and> RipPacketData_from_slice True b = Some (Inr pd) \<and> local_route_entry 2886729728 4294901760 \<in> set (entries pd)"
proof -
  let ?lr = "\<lparr> lr_entry = local_route_entry 2886729728 4294901760, lr_if_index = 7, lr_if_name = ''eth0'' \<rparr>"
  have whole: "sends_whole recording_os" by (simp add: sends_whole_def recording_os_def recording_sys_def)
  have db: "db_wf (database (deamon sample_sender_run))" "get_route (database (deamon sample_sender_run)) (lr_entry ?lr) = None"
    by (simp_all add: sample_sender_def db_wf_new) (simp add: get_route_def RipDatabase_new_def hm_defs)
  have route: "advertised_network_to_local_route recording_os sample_network (world (deamon sample_sender_run)) = ([], Inr ?lr)"
    using sample_network_route by (simp add: sample_sender_def)
  have clocks: "fst (instant_now recording_os n) = n" "fst (create_triggered_update_lock_duration recording_os n) = n" for n
    by (simp_all add: recording_os_def create_triggered_update_lock_duration_def random_millis_in_range_def)
  show ?thesis
    using administered_route_announced [OF whole db(1) _ route db(2), of stubborn_driver 5 True]
    by (auto simp: recording_calls clocks sample_sender_def)
qed

end
