(* ===== verification/Rip_Main.thy ===== *)
theory Rip_Main
  imports Rip_Samples
begin

text \<open>
  \<^verbatim>\<open>src/src/main.rs\<close> and \<^verbatim>\<open>src/src/logger.rs\<close>: the arguments, the logger and the daemon are started in
  this order, and the process exits with 1 on the first error, with 0 when the daemon's loop has
  ended in good order. The \<^verbatim>\<open>flexi_logger\<close> crate is a parameter.
\<close>

section \<open>The logger\<close>

text \<open>
  What the crate offers: a logger for a default level, a file specification for a path, and
  starting a logger that is configured to write to standard error or to a file.
\<close>

datatype write_mode = Direct

datatype 'f log_target = LogToStderr | LogToFile 'f bool write_mode

record ('l, 'f, 'h) flexi_logger =
  try_with_env_or_str :: "string \<Rightarrow> string + 'l"
  file_spec_try_from :: "string \<Rightarrow> string + 'f"
  start_logger :: "'l \<Rightarrow> 'f log_target \<Rightarrow> string + 'h"

definition DEFAULT_LOG_LEVEL :: string where "DEFAULT_LOG_LEVEL = ''info''"

record 'h LoggerConfig =
  handle :: 'h
  config_log_file_path :: "string option"

definition init_logger :: "('l, 'f, 'h) flexi_logger \<Rightarrow> string option \<Rightarrow> 'h LoggerConfig RipResult" where
  "init_logger flexi logf =
     (case try_with_env_or_str flexi DEFAULT_LOG_LEVEL of
        Inl err \<Rightarrow> Inl (IoError err)
      | Inr logger \<Rightarrow>
          (case logf of
             Some path \<Rightarrow>
               (case file_spec_try_from flexi path of
                  Inl err \<Rightarrow> Inl (IoError err)
                | Inr file_spec \<Rightarrow>
                    (case start_logger flexi logger (LogToFile file_spec False Direct) of
                       Inl err \<Rightarrow> Inl (IoError err)
                     | Inr h \<Rightarrow> Inr \<lparr> handle = h, config_log_file_path = Some path \<rparr>))
           | None \<Rightarrow>
               (case start_logger flexi logger LogToStderr of
                  Inl err \<Rightarrow> Inl (IoError err)
                | Inr h \<Rightarrow> Inr \<lparr> handle = h, config_log_file_path = None \<rparr>)))"

section \<open>The process\<close>

text \<open>
  Up to the loop a process has panicked, has exited with a code and a message, or runs. A process
  that runs exits when the loop does.
\<close>

type_synonym exit_status = "nat \<times> string"

datatype ('k, 'n, 'h) process =
    Panicked
  | Exited exit_status
  | Running "('k, 'n) system" http_server 'h

definition exit_on_error :: "RipError \<Rightarrow> exit_status" where
  "exit_on_error err = (1, RipError_to_string err)"

definition main_start ::
  "('l, 'f, 'h) flexi_logger \<Rightarrow> 'n os \<Rightarrow> io_error + unit \<Rightarrow> (string \<Rightarrow> string + Cfg) \<Rightarrow> (string \<Rightarrow> io_error + string)
    \<Rightarrow> string + 'k \<Rightarrow> (string \<Rightarrow> io_error + unit) \<Rightarrow> string list \<Rightarrow> 'n \<Rightarrow> ('k, 'n, 'h) process" where
  "main_start flexi os sigterm_handler yaml_from_str read_to_string new_connection tcp_bind argv n =
     (case get_program_args argv of
        None \<Rightarrow> Panicked
      | Some (Inl err) \<Rightarrow> Exited (exit_on_error err)
      | Some (Inr args) \<Rightarrow>
          (case init_logger flexi (log_file_path args) of
             Inl err \<Rightarrow> Exited (exit_on_error err)
           | Inr logger_config \<Rightarrow>
               (case run_rip_deamon os sigterm_handler yaml_from_str read_to_string new_connection tcp_bind
                       \<lparr> cfg_path = cfg_path args, log_file_path = config_log_file_path logger_config \<rparr> n of
                  Inl err \<Rightarrow> Exited (exit_on_error err)
                | Inr (s, server) \<Rightarrow> Running s server (handle logger_config))))"

text \<open>The end of \<^verbatim>\<open>main\<close>, on what \<^verbatim>\<open>run\<close> returned.\<close>

definition main_end :: "unit RipResult \<Rightarrow> exit_status" where
  "main_end res = (case res of Inl err \<Rightarrow> exit_on_error err | Inr _ \<Rightarrow> (0, []))"

lemma init_logger_path:
  "init_logger flexi logf = Inr lc \<Longrightarrow> config_log_file_path lc = logf"
  by (auto simp: init_logger_def split: sum.splits option.splits)

lemma main_start_running:
  assumes "main_start flexi os h yaml read conn bind argv n = Running s0 server lh"
  obtains args where "get_program_args argv = Some (Inr args)"
    "run_rip_deamon os h yaml read conn bind args n = Inr (s0, server)"
proof -
  obtain args where args: "get_program_args argv = Some (Inr args)"
    using assms by (auto simp: main_start_def exit_on_error_def split: option.splits sum.splits)
  then obtain lc where lc: "init_logger flexi (log_file_path args) = Inr lc"
    using assms by (auto simp: main_start_def exit_on_error_def split: sum.splits)
  have "\<lparr> cfg_path = cfg_path args, log_file_path = config_log_file_path lc \<rparr> = args"
    using init_logger_path [OF lc] by simp
  then have "run_rip_deamon os h yaml read conn bind args n = Inr (s0, server)"
    using assms args lc by (auto simp: main_start_def exit_on_error_def split: sum.splits)
  with args show ?thesis by (rule that)
qed

lemma connected_driver:
  "run_rip_deamon os h yaml read conn bind args n = Inr x \<Longrightarrow> \<exists>k. conn = Inr k"
  by (auto simp: run_rip_deamon_def RtNetlinkRoutingTableDriver_new_def split: sum.splits)

section \<open>How the loop ends\<close>

text \<open>The last step of an execution that has ended is a turn of the loop.\<close>

lemma outcome_step:
  assumes "system_step os drv checks l s = Some s'" and "outcome s' = Some res"
  shows "\<exists>now ev. l = Turn now ev \<and> outcome s = None
    \<and> snd (run_turn os drv ev (loop s)) = Returned res"
  using assms
  by (auto simp: system_step_def set_database_def split: label.splits if_splits prod.splits option.splits turn.splits)

lemma outcome_reachable:
  assumes "reachable env os drv checks s0 s" and "outcome s = Some res" and "outcome s0 = None"
  shows "\<exists>s1 now ev. reachable env os drv checks s0 s1 \<and> env (Turn now ev)
    \<and> system_step os drv checks (Turn now ev) s1 = Some s \<and> snd (run_turn os drv ev (loop s1)) = Returned res"
  using assms(1)
proof (cases rule: reachable.cases)
  case reachable_start
  then show ?thesis using assms(2,3) by simp
next
  case (reachable_step s1 l)
  then show ?thesis using outcome_step [OF _ assms(2)] by blast
qed

lemma run_turn_returns_ok:
  "snd (run_turn os drv ev st) = Returned (Inr u) \<longleftrightarrow> ev = SigTerm \<or> (\<exists>v. ev = CtrlC (Inr v))"
proof -
  have "snd (run_turn os drv ev st) = Returned (Inr u) \<longleftrightarrow> snd (select_arm os drv ev st) = Returned (Inr u)"
    by (auto simp: run_turn_def split: prod.splits turn.splits sum.splits)
  then show ?thesis by (simp add: select_arm_stops)
qed

lemma signal_turn:
  assumes "ev = SigTerm \<or> ev = CtrlC (Inr v)"
  shows "run_turn os drv ev st = (st\<lparr> deamon := handle_shutdown os drv (deamon st) \<rparr>, Returned (Inr ()))"
  using assms by (auto simp: run_turn_def select_arm_def)

lemma signal_step:
  assumes "outcome s = None" and "ev = SigTerm \<or> ev = CtrlC (Inr v)"
  shows "system_step os drv checks (Turn now ev) s =
    Some (s\<lparr> loop := (loop s)\<lparr> deamon := handle_shutdown os drv (deamon (loop s)) \<rparr>, outcome := Some (Inr ()) \<rparr>)"
  using assms by (auto simp: system_step_def signal_turn ready_def available_def)

section \<open>A sample process\<close>

definition sample_logger :: "(unit, string, unit) flexi_logger" where
  "sample_logger =
     \<lparr> try_with_env_or_str = (\<lambda>_. Inr ()), file_spec_try_from = (\<lambda>path. Inr path), start_logger = (\<lambda>_ _. Inr ()) \<rparr>"

abbreviation sample_main :: "string list \<Rightarrow> (RouteMessage list, unit, unit) process" where
  "sample_main argv \<equiv>
     main_start sample_logger quiet_os (Inr ()) (\<lambda>_. Inr \<lparr> rip_configuration = sample_configuration \<rparr>)
       (\<lambda>_. Inr ''yaml'') (Inr []) (\<lambda>_. Inr ()) argv ()"

lemma sample_main_running:
  "sample_main [''rip_v2'', ''cfg.yml''] = Running sample_system (sample_server None) ()"
  "sample_main [''rip_v2'', ''cfg.yml'', logf] = Running sample_system (sample_server (Some logf)) ()"
  by (simp_all add: main_start_def get_program_args_def init_logger_def sample_logger_def sample_run_rip_deamon)

section \<open>Properties\<close>



text \<open>
  C34: the exit code tells how the loop ended. A program that was running has exited with code 0 exactly
  when the last step was a signal it could receive; every other end of the loop is an error, with
  code 1.
\<close>

theorem exit_code_zero_iff_signal:
  assumes "main_start flexi os h yaml read conn tcp_bind argv n = Running s0 server lh"
    and "reachable env os drv checks s0 s" and "outcome s = Some res"
  shows "fst (main_end res) \<in> {0, 1}
    \<and> (fst (main_end res) = 0 \<longleftrightarrow>
        (\<exists>s1 now ev. reachable env os drv checks s0 s1 \<and> env (Turn now ev)
           \<and> system_step os drv checks (Turn now ev) s1 = Some s \<and> (ev = SigTerm \<or> ev = CtrlC (Inr ()))))"
proof -
  obtain args where run: "run_rip_deamon os h yaml read conn tcp_bind args n = Inr (s0, server)"
    by (rule main_start_running [OF assms(1)])
  obtain k where k: "conn = Inr k" using connected_driver [OF run] by blast
  have start: "outcome s0 = None"
    by (rule system_start_frame(4) [OF run_rip_deamon_starts(1) [OF run [unfolded k]]])
  obtain s1 now ev where last: "reachable env os drv checks s0 s1" "env (Turn now ev)"
      "system_step os drv checks (Turn now ev) s1 = Some s" "snd (run_turn os drv ev (loop s1)) = Returned res"
    using outcome_reachable [OF assms(2,3) start] by blast
  have code: "fst (main_end res) = 0 \<longleftrightarrow> res = Inr ()" "fst (main_end res) \<in> {0, 1}"
    by (cases res; simp add: main_end_def exit_on_error_def)+
  have "res = Inr ()" if "system_step os drv checks (Turn now' ev') s' = Some s" "ev' = SigTerm \<or> ev' = CtrlC (Inr ())" for s' now' ev'
    using outcome_step [OF that(1) assms(3)] signal_turn [OF that(2), of os drv "loop s'"] by auto
  moreover have "ev = SigTerm \<or> ev = CtrlC (Inr ())" if "res = Inr ()"
    using last(4) run_turn_returns_ok [of os drv ev "loop s1" "()"] that by auto
  ultimately show ?thesis using code last(1-3) by blast
qed

theorem exit_code_zero_iff_signal_witness:
  "\<exists>s res. reachable has_sender quiet_os table_driver True sample_system s \<and> outcome s = Some res
     \<and> fst (main_end res) = 0"
proof -
  obtain s where step: "system_step quiet_os table_driver True (Turn 6000000000 SigTerm) sample_learned = Some s"
    "outcome s = Some (Inr ())"
    using signal_step [OF sample_turn(2), of SigTerm "()" quiet_os table_driver True 6000000000] by simp
  have reach: "reachable has_sender quiet_os table_driver True sample_system s"
    by (rule reachable_step [OF sample_reachable _ step(1)]) simp
  have "fst (main_end (Inr ())) = 0"
    using exit_code_zero_iff_signal [OF sample_main_running(1) reach step(2)] sample_reachable step(1) by fastforce
  then show ?thesis using reach step(2) by blast
qed

text \<open>
  The log file of the command line is the one that is served. A program runs only with one or two
  arguments; a request for the logs is answered with the contents of the file named by the second,
  with 500 if it cannot be read, and with 404 if there is none.
\<close>

theorem served_log_file:
  assumes "main_start flexi os h yaml read conn tcp_bind argv n = Running s0 server lh"
  shows "(\<exists>prog cfg. argv = [prog, cfg]
        \<and> http_serve server channel read_log ''/api/v1/logs'' GET payload =
          Some \<lparr> status_code = 404, body = Text ''log file path was not configured for this daemon'' \<rparr>)
    \<or> (\<exists>prog cfg logf. argv = [prog, cfg, logf]
        \<and> http_serve server channel read_log ''/api/v1/logs'' GET payload =
          Some (case read_log logf of
                  Inr content \<Rightarrow> \<lparr> status_code = 200, body = Text content \<rparr>
                | Inl err \<Rightarrow> \<lparr> status_code = 500,
                    body = Text (''failed to read log file '' @ logf @ '': '' @ io_error_text err) \<rparr>))"
proof -
  obtain args where args: "get_program_args argv = Some (Inr args)"
    and run: "run_rip_deamon os h yaml read conn tcp_bind args n = Inr (s0, server)"
    by (rule main_start_running [OF assms])
  obtain k where k: "conn = Inr k" using connected_driver [OF run] by blast
  have "spawn_http_server os tcp_bind (log_file_path args) = Inr server"
    by (rule run_rip_deamon_starts(2) [OF run [unfolded k]])
  then have "http_serve server channel read_log ''/api/v1/logs'' GET payload =
      Some (http_get_logs (log_file_path args) read_log)"
    by (auto simp: spawn_http_server_def http_serve_def Let_def split: sum.splits)
  moreover have "\<exists>prog cfg. argv = [prog, cfg] \<and> log_file_path args = None
      \<or> (\<exists>logf. argv = [prog, cfg, logf] \<and> log_file_path args = Some logf)"
    using args by (auto simp: get_program_args_def split: list.splits)
  ultimately show ?thesis by (auto simp: http_get_logs_def)
qed

theorem served_log_file_witness:
  "http_serve (sample_server (Some ''rip.log'')) (\<lambda>_. SendFailed) (\<lambda>path. Inr (''log of '' @ path)) ''/api/v1/logs'' GET
     \<lparr> alr_address = [], alr_prefix = 0, alr_dev = [] \<rparr> =
   Some \<lparr> status_code = 200, body = Text ''log of rip.log'' \<rparr>"
  using served_log_file [OF sample_main_running(2) [of "''rip.log''"]] by auto

end
