(* ===== verification/Rip_Cells.thy ===== *)
theory Rip_Cells
  imports Rip_Distance
begin

text \<open>
  One destination in a network whose routers lose datagrams, time routes out and keep garbage. What
  counts of a router is its \<open>cell\<close>: the metric, next hop, interface and age of the active route, if
  any, and whether it has garbage for the destination. The theory shows what happens to routes that
  are out of date, from any state; \<open>Rip_Stability\<close> shows that daemons perform these steps.
\<close>

section \<open>Cells\<close>

record cell =
  c_metric :: nat
  c_hop :: u32
  c_if :: u32
  c_age :: nat
  c_local :: bool

record 'v dest =
  cells :: "'v \<Rightarrow> cell option"
  garb :: "'v \<Rightarrow> bool"

definition confirmed :: "'v arc \<Rightarrow> nat \<Rightarrow> cell" where
  "confirmed a m =
     \<lparr> c_metric = m + 1, c_hop = arc_address a, c_if = info_if_index (arc_in a), c_age = 0, c_local = False \<rparr>"

text \<open>The distance-vector rule, on an offer of metric \<open>m\<close>; 15 is one short of infinity at the sender.\<close>

definition take_offer :: "'v arc \<Rightarrow> nat \<Rightarrow> cell option \<Rightarrow> cell option" where
  "take_offer a m c =
     (case c of
        None \<Rightarrow> if 15 \<le> m then None else Some (confirmed a m)
      | Some x \<Rightarrow>
          if c_hop x = arc_address a then if 15 \<le> m then None else Some (confirmed a m)
          else if m < 15 \<and> m + 1 < c_metric x then Some (confirmed a m) else c)"

text \<open>
  An announcement offers the active route, unless split horizon holds it back, and may offer garbage
  with metric 16. Only a full announcement without garbage is certain to have the route in it.
\<close>

definition offered :: "'v arc \<Rightarrow> cell option \<Rightarrow> nat list" where
  "offered a c = (case c of None \<Rightarrow> [] | Some x \<Rightarrow> if c_if x = arc_out a then [] else [c_metric x])"

definition hears :: "'v arc \<Rightarrow> bool \<Rightarrow> cell option \<Rightarrow> bool \<Rightarrow> cell option \<Rightarrow> cell option \<Rightarrow> bool" where
  "hears a chg cu gu c c' \<longleftrightarrow>
     (\<exists>ms. c' = fold (take_offer a) ms c
        \<and> set ms \<subseteq> set (offered a cu) \<union> (if gu then {16} else {})
        \<and> (\<not> chg \<and> \<not> gu \<longrightarrow> ms = offered a cu))"

text \<open>A timeout check: local routes have no age, and the counter saturates.\<close>

definition tick :: "nat \<Rightarrow> nat \<Rightarrow> cell option \<Rightarrow> cell option" where
  "tick inc lim c =
     (case c of
        None \<Rightarrow> None
      | Some x \<Rightarrow>
          if c_local x then Some x
          else let age = min (c_age x + inc) (2 ^ 64 - 1)
            in if lim \<le> age then None else Some (x\<lparr> c_age := age \<rparr>))"

definition dest_ok :: "'v dest \<Rightarrow> bool" where
  "dest_ok st \<longleftrightarrow>
     (\<forall>v x. cells st v = Some x \<longrightarrow>
        (if c_local x then c_metric x = 1 \<and> c_hop x = 0
         else 2 \<le> c_metric x \<and> c_metric x \<le> 15 \<and> \<not> garb st v))"

lemma dest_okD:
  assumes "dest_ok st" and "cells st v = Some x"
  shows "c_local x \<Longrightarrow> c_metric x = 1 \<and> c_hop x = 0"
    and "\<not> c_local x \<Longrightarrow> 2 \<le> c_metric x \<and> c_metric x \<le> 15 \<and> \<not> garb st v"
    and "1 \<le> c_metric x \<and> c_metric x \<le> 15"
proof -
  have x: "if c_local x then c_metric x = 1 \<and> c_hop x = 0 else 2 \<le> c_metric x \<and> c_metric x \<le> 15 \<and> \<not> garb st v"
    using assms by (simp add: dest_ok_def)
  then show "c_local x \<Longrightarrow> c_metric x = 1 \<and> c_hop x = 0"
    and "\<not> c_local x \<Longrightarrow> 2 \<le> c_metric x \<and> c_metric x \<le> 15 \<and> \<not> garb st v"
    by simp_all
  show "1 \<le> c_metric x \<and> c_metric x \<le> 15" using x by (cases "c_local x") simp_all
qed

datatype 'v act = Carry "'v arc" bool | Tick 'v | Idle

definition act_step ::
  "'v arc list \<Rightarrow> ('v \<Rightarrow> nat) \<Rightarrow> ('v \<Rightarrow> nat) \<Rightarrow> 'v act \<Rightarrow> 'v dest \<Rightarrow> 'v dest \<Rightarrow> bool" where
  "act_step arcs inc lim l st st' \<longleftrightarrow>
     dest_ok st'
     \<and> (\<forall>v x. cells st v = Some x \<longrightarrow> c_local x \<longrightarrow> garb st' v \<longrightarrow> garb st v)
     \<and> (case l of
          Carry a chg \<Rightarrow>
            a \<in> set arcs \<and> (\<forall>v. v \<noteq> arc_to a \<longrightarrow> cells st' v = cells st v)
            \<and> hears a chg (cells st (arc_from a)) (garb st (arc_from a)) (cells st (arc_to a)) (cells st' (arc_to a))
        | Tick v \<Rightarrow> \<forall>w. cells st' w = (if w = v then tick (inc v) (lim v) (cells st v) else cells st w)
        | Idle \<Rightarrow> cells st' = cells st)"

fun acts_run ::
  "'v arc list \<Rightarrow> ('v \<Rightarrow> nat) \<Rightarrow> ('v \<Rightarrow> nat) \<Rightarrow> 'v act list \<Rightarrow> 'v dest \<Rightarrow> 'v dest \<Rightarrow> bool" where
  "acts_run arcs inc lim [] st st' \<longleftrightarrow> st' = st"
| "acts_run arcs inc lim (l # ls) st st' \<longleftrightarrow>
     (\<exists>st1. act_step arcs inc lim l st st1 \<and> acts_run arcs inc lim ls st1 st')"

lemma acts_run_append:
  "acts_run arcs inc lim (ls @ ls') st st' \<longleftrightarrow>
     (\<exists>st1. acts_run arcs inc lim ls st st1 \<and> acts_run arcs inc lim ls' st1 st')"
  by (induction ls arbitrary: st) auto

lemma acts_run_snoc:
  "acts_run arcs inc lim (ls @ [l]) st st' \<longleftrightarrow>
     (\<exists>st1. acts_run arcs inc lim ls st st1 \<and> act_step arcs inc lim l st1 st')"
  by (simp add: acts_run_append)

lemma acts_run_ok: "acts_run arcs inc lim ls st st' \<Longrightarrow> dest_ok st \<Longrightarrow> dest_ok st'"
  by (induction ls arbitrary: st) (auto simp: act_step_def)

section \<open>What hearing an announcement does to a cell\<close>

lemma hears_cases:
  assumes "hears a chg cu gu c c'"
  obtains (same) "c' = c" | (lost) "c' = None"
    | (taken) x where "cu = Some x" "c_metric x \<le> 14" "c_if x \<noteq> arc_out a" "c' = Some (confirmed a (c_metric x))"
proof -
  obtain ms where ms: "c' = fold (take_offer a) ms c" "set ms \<subseteq> set (offered a cu) \<union> (if gu then {16} else {})"
    using assms by (auto simp: hears_def)
  have "c' = c \<or> c' = None
      \<or> (\<exists>x. cu = Some x \<and> c_metric x \<le> 14 \<and> c_if x \<noteq> arc_out a \<and> c' = Some (confirmed a (c_metric x)))"
    using ms
  proof (induction ms arbitrary: c' rule: rev_induct)
    case (snoc m ms)
    have m: "m = 16 \<or> (\<exists>x. cu = Some x \<and> c_if x \<noteq> arc_out a \<and> m = c_metric x)"
      using snoc.prems(2) by (auto simp: offered_def split: option.splits if_splits)
    have "c' = take_offer a m (fold (take_offer a) ms c)" using snoc.prems(1) by simp
    then have "c' = fold (take_offer a) ms c \<or> c' = None \<or> m \<le> 14 \<and> c' = Some (confirmed a m)"
      by (auto simp: take_offer_def split: option.splits if_splits)
    then show ?case using snoc.IH [OF refl] snoc.prems(2) m by auto
  qed simp
  then show ?thesis using same lost taken by blast
qed

text \<open>A route through another neighbour stays unless it is strictly longer than what is offered.\<close>

lemma hears_other_hop:
  assumes "hears a chg cu gu (Some x) c'" and "c_hop x \<noteq> arc_address a"
    and "\<And>y. cu = Some y \<Longrightarrow> c_metric y \<le> 14 \<Longrightarrow> c_if y \<noteq> arc_out a \<Longrightarrow> c_metric x \<le> c_metric y + 1"
  shows "c' = Some x"
proof -
  obtain ms where ms: "c' = fold (take_offer a) ms (Some x)" "set ms \<subseteq> set (offered a cu) \<union> (if gu then {16} else {})"
    using assms(1) by (auto simp: hears_def)
  show ?thesis
    using ms
  proof (induction ms arbitrary: c' rule: rev_induct)
    case (snoc m ms)
    have "m = 16 \<or> (\<exists>y. cu = Some y \<and> c_if y \<noteq> arc_out a \<and> m = c_metric y)"
      using snoc.prems(2) by (auto simp: offered_def split: option.splits if_splits)
    then have "\<not> (m < 15 \<and> m + 1 < c_metric x)" using assms(3) by fastforce
    then have "take_offer a m (Some x) = Some x" using assms(2) by (auto simp: take_offer_def)
    moreover have "fold (take_offer a) ms (Some x) = Some x" using snoc.IH [OF refl] snoc.prems(2) by simp
    ultimately show ?case using snoc.prems(1) by simp
  qed simp
qed

text \<open>Without garbage at the sender, hearing its route confirms a route through it or changes nothing.\<close>

lemma hears_own_hop:
  assumes "hears a chg (Some y) False (Some x) c'" and "c_hop x = arc_address a"
    and "c_metric y \<le> 14" and "c_if y \<noteq> arc_out a"
  shows "c' = Some x \<and> chg \<or> c' = Some (confirmed a (c_metric y))"
proof -
  obtain ms where ms: "c' = fold (take_offer a) ms (Some x)" "set ms \<subseteq> {c_metric y}" "\<not> chg \<longrightarrow> ms = [c_metric y]"
    using assms(1,4) by (auto simp: hears_def offered_def)
  have own: "take_offer a (c_metric y) (Some z) = Some (confirmed a (c_metric y))" if "c_hop z = arc_address a" for z
    using that assms(3) by (simp add: take_offer_def)
  have "ms = [] \<or> c' = Some (confirmed a (c_metric y))"
    using ms(1,2)
  proof (induction ms arbitrary: c' rule: rev_induct)
    case (snoc m ms)
    then have "fold (take_offer a) ms (Some x) = Some x \<or> fold (take_offer a) ms (Some x) = Some (confirmed a (c_metric y))"
      by fastforce
    then show ?case using snoc.prems own [of x] own [of "confirmed a (c_metric y)"] assms(2)
      by (auto simp: confirmed_def)
  qed simp
  then show ?thesis using ms(1,3) by auto
qed

lemma hears_full:
  assumes "hears a False (Some y) False c c'" and "c_metric y \<le> 14" and "c_if y \<noteq> arc_out a"
  shows "c' = take_offer a (c_metric y) c"
  using assms by (simp add: hears_def offered_def)

section \<open>Local routes are fixed\<close>

definition dest_owners :: "'v dest \<Rightarrow> 'v set" where
  "dest_owners st = {v. \<exists>x. cells st v = Some x \<and> c_local x}"

definition addressed :: "'v arc list \<Rightarrow> bool" where
  "addressed arcs \<longleftrightarrow> list_all (\<lambda>a. arc_from a \<noteq> arc_to a \<and> arc_address a \<noteq> 0) arcs"

lemma local_cell_fixed:
  assumes "act_step arcs inc lim l st st'" and "dest_ok st" and "addressed arcs"
    and "cells st v = Some x" and "c_local x"
  shows "cells st' v = Some x"
proof (cases l)
  case (Carry a chg)
  then have a: "a \<in> set arcs" and other: "v \<noteq> arc_to a \<Longrightarrow> cells st' v = cells st v"
    and hear: "hears a chg (cells st (arc_from a)) (garb st (arc_from a)) (cells st (arc_to a)) (cells st' (arc_to a))"
    using assms(1) by (auto simp: act_step_def)
  have x: "c_metric x = 1" "c_hop x = 0" using dest_okD(1) [OF assms(2,4,5)] by simp_all
  have "c_hop x \<noteq> arc_address a" using x a assms(3) by (auto simp: addressed_def list_all_iff)
  then show ?thesis
    using hears_other_hop [of a chg _ _ x] hear other assms(4) x by (cases "v = arc_to a") auto
next
  case (Tick w)
  then show ?thesis using assms by (auto simp: act_step_def tick_def)
qed (use assms in \<open>simp add: act_step_def\<close>)

lemma local_cell_old:
  assumes "act_step arcs inc lim l st st'" and "cells st' v = Some x" and "c_local x"
  shows "cells st v = Some x"
proof (cases l)
  case (Carry a chg)
  then have other: "v \<noteq> arc_to a \<Longrightarrow> cells st' v = cells st v"
    and hear: "hears a chg (cells st (arc_from a)) (garb st (arc_from a)) (cells st (arc_to a)) (cells st' (arc_to a))"
    using assms(1) by (auto simp: act_step_def)
  show ?thesis
  proof (cases "v = arc_to a")
    case True
    from hear show ?thesis by (cases rule: hears_cases) (use True assms(2,3) in \<open>auto simp: confirmed_def\<close>)
  qed (use other assms(2) in simp)
next
  case (Tick w)
  then show ?thesis
    using assms by (auto simp: act_step_def tick_def Let_def split: if_splits option.splits)
qed (use assms in \<open>simp add: act_step_def\<close>)

lemma owners_step:
  assumes "act_step arcs inc lim l st st'" and "dest_ok st" and "addressed arcs"
  shows "dest_owners st' = dest_owners st"
  using local_cell_fixed [OF assms] local_cell_old [OF assms(1)] unfolding dest_owners_def by blast

lemma owners_run:
  "acts_run arcs inc lim ls st st' \<Longrightarrow> dest_ok st \<Longrightarrow> addressed arcs \<Longrightarrow> dest_owners st' = dest_owners st"
proof (induction ls arbitrary: st)
  case (Cons l ls)
  then obtain st1 where st1: "act_step arcs inc lim l st st1" "acts_run arcs inc lim ls st1 st'" by auto
  then have "dest_ok st1" by (simp add: act_step_def)
  then show ?case using Cons.IH [OF st1(2)] owners_step [OF st1(1)] Cons.prems(2,3) by simp
qed simp

section \<open>Epochs\<close>

text \<open>
  A property of learned routes that every offer from routes with a property \<open>P\<close> has. Where all routes
  have \<open>P\<close>, a route without \<open>Q\<close> is never confirmed: it ages with every check, and when the checks
  add up to the timeout all routes have \<open>Q\<close>, whatever was announced and lost meanwhile.
\<close>

definition nodes :: "'v arc list \<Rightarrow> 'v set" where
  "nodes arcs = set (map arc_from arcs) \<union> set (map arc_to arcs)"

definition learned_all :: "'v set \<Rightarrow> ('v \<Rightarrow> cell \<Rightarrow> bool) \<Rightarrow> 'v dest \<Rightarrow> bool" where
  "learned_all V P st \<longleftrightarrow> (\<forall>v\<in>V. \<forall>x. cells st v = Some x \<longrightarrow> \<not> c_local x \<longrightarrow> P v x)"

lemma learned_allD: "learned_all V P st \<Longrightarrow> v \<in> V \<Longrightarrow> cells st v = Some x \<Longrightarrow> \<not> c_local x \<Longrightarrow> P v x"
  by (simp add: learned_all_def)

definition offers :: "'v arc list \<Rightarrow> 'v set \<Rightarrow> ('v \<Rightarrow> cell \<Rightarrow> bool) \<Rightarrow> ('v \<Rightarrow> cell \<Rightarrow> bool) \<Rightarrow> bool" where
  "offers arcs S P Q \<longleftrightarrow>
     (\<forall>a\<in>set arcs. \<forall>y. 1 \<le> c_metric y \<and> c_metric y \<le> 14
        \<and> (if c_local y then arc_from a \<in> S \<and> c_metric y = 1 else P (arc_from a) y)
        \<longrightarrow> Q (arc_to a) (confirmed a (c_metric y)))"

lemma offers_mono:
  assumes "offers arcs S P Q" and "\<And>v x. P' v x \<Longrightarrow> P v x" and "\<And>v x. Q v x \<Longrightarrow> Q' v x"
  shows "offers arcs S P' Q'"
  unfolding offers_def
proof (intro ballI allI impI, elim conjE)
  fix a y assume y: "a \<in> set arcs" "1 \<le> c_metric y" "c_metric y \<le> 14"
    "if c_local y then arc_from a \<in> S \<and> c_metric y = 1 else P' (arc_from a) y"
  then have "if c_local y then arc_from a \<in> S \<and> c_metric y = 1 else P (arc_from a) y"
    using assms(2) by (simp split: if_splits)
  then show "Q' (arc_to a) (confirmed a (c_metric y))"
    using assms(1,3) y(1-3) unfolding offers_def by blast
qed

definition ageless :: "('v \<Rightarrow> cell \<Rightarrow> bool) \<Rightarrow> bool" where
  "ageless P \<longleftrightarrow> (\<forall>v x t. P v (x\<lparr> c_age := t \<rparr>) = P v x)"

lemma ageless_tick:
  assumes "ageless P" and "tick inc lim (Some x) = Some x'"
  shows "P v x' = P v x"
  using assms by (auto simp: tick_def ageless_def Let_def split: if_splits)

lemma taken_offer:
  assumes "offers arcs S P Q" and "learned_all (nodes arcs) P st" and "dest_ok st" and "dest_owners st \<subseteq> S"
    and "a \<in> set arcs" and "cells st (arc_from a) = Some y" and "c_metric y \<le> 14"
  shows "Q (arc_to a) (confirmed a (c_metric y))"
proof -
  have "arc_from a \<in> nodes arcs" using assms(5) by (simp add: nodes_def)
  then have "if c_local y then arc_from a \<in> S \<and> c_metric y = 1 else P (arc_from a) y"
    using learned_allD [OF assms(2) _ assms(6)] dest_okD(1) [OF assms(3,6)] assms(4,6)
    by (auto simp: dest_owners_def)
  moreover have "1 \<le> c_metric y" using dest_okD(3) [OF assms(3,6)] by simp
  ultimately show ?thesis using assms(1,5,7) unfolding offers_def by blast
qed

text \<open>A learned route that is there after a step was confirmed by it, or was there and has aged.\<close>

lemma step_route:
  assumes "act_step arcs inc lim l st st'" and "cells st' v = Some x'" and "\<not> c_local x'"
  obtains (kept) "cells st v = Some x'" "l \<noteq> Tick v"
    | (aged) x where "l = Tick v" "cells st v = Some x" "\<not> c_local x"
        "x' = x\<lparr> c_age := min (c_age x + inc v) (2 ^ 64 - 1) \<rparr>" "c_age x' < lim v"
    | (taken) a chg y where "l = Carry a chg" "a \<in> set arcs" "arc_to a = v" "cells st (arc_from a) = Some y"
        "c_metric y \<le> 14" "c_if y \<noteq> arc_out a" "x' = confirmed a (c_metric y)"
proof (cases l)
  case (Carry a chg)
  then have a: "a \<in> set arcs" and other: "v \<noteq> arc_to a \<Longrightarrow> cells st' v = cells st v"
    and hear: "hears a chg (cells st (arc_from a)) (garb st (arc_from a)) (cells st (arc_to a)) (cells st' (arc_to a))"
    using assms(1) by (auto simp: act_step_def)
  show ?thesis
  proof (cases "v = arc_to a")
    case True
    from hear show ?thesis
    proof (cases rule: hears_cases)
      case same
      then show ?thesis using kept True assms(2) Carry by simp
    next
      case lost
      then show ?thesis using True assms(2) by simp
    next
      case (taken y)
      then show ?thesis using that(3) [OF Carry a _ taken(1,2,3)] True assms(2) by simp
    qed
  qed (use other kept assms(2) Carry in simp)
next
  case (Tick w)
  show ?thesis
  proof (cases "w = v")
    case True
    then have "tick (inc v) (lim v) (cells st v) = Some x'" using assms(1,2) Tick by (auto simp: act_step_def)
    then show ?thesis
      using aged Tick True assms(3) by (auto simp: tick_def Let_def split: if_splits option.splits)
  qed (use kept assms(1,2) Tick in \<open>auto simp: act_step_def\<close>)
qed (use kept assms(1,2) in \<open>simp add: act_step_def\<close>)

definition ticks :: "'v act list \<Rightarrow> 'v \<Rightarrow> nat" where
  "ticks ls v = count_list ls (Tick v)"

lemma ticks_simps [simp]:
  "ticks [] v = 0"
  "ticks (l # ls) v = (if l = Tick v then Suc (ticks ls v) else ticks ls v)"
  "ticks (ls @ ls') v = ticks ls v + ticks ls' v"
  by (simp_all add: ticks_def)

definition clearing ::
  "('v \<Rightarrow> nat) \<Rightarrow> ('v \<Rightarrow> nat) \<Rightarrow> ('v \<Rightarrow> nat) \<Rightarrow> ('v \<Rightarrow> cell \<Rightarrow> bool) \<Rightarrow> ('v \<Rightarrow> cell \<Rightarrow> bool) \<Rightarrow> 'v \<Rightarrow> cell \<Rightarrow> bool" where
  "clearing inc lim n P Q v x \<longleftrightarrow>
     P v x \<and> (Q v x \<or> min (n v * inc v) (2 ^ 64 - 1) \<le> c_age x \<and> (1 \<le> n v \<longrightarrow> c_age x < lim v))"

lemma clearing_step:
  assumes step: "act_step arcs inc lim l st st'" and ok: "dest_ok st" "dest_owners st \<subseteq> S"
    and PQ: "offers arcs S P Q" "ageless P" "ageless Q" "\<And>v x. Q v x \<Longrightarrow> P v x"
    and st: "learned_all (nodes arcs) (clearing inc lim n P Q) st"
  shows "learned_all (nodes arcs) (clearing inc lim (\<lambda>v. n v + ticks [l] v) P Q) st'"
  unfolding learned_all_def
proof (intro ballI allI impI)
  fix v x' assume v: "v \<in> nodes arcs" and x': "cells st' v = Some x'" "\<not> c_local x'"
  from step x' show "clearing inc lim (\<lambda>v. n v + ticks [l] v) P Q v x'"
  proof (cases rule: step_route)
    case kept
    then show ?thesis using learned_allD [OF st v _ x'(2)] by (auto simp: clearing_def)
  next
    case (aged x)
    have x: "clearing inc lim n P Q v x" by (rule learned_allD [OF st v aged(2,3)])
    have "P v x' = P v x" "Q v x' = Q v x" using PQ(2,3) aged(4) by (auto simp: ageless_def)
    then show ?thesis using x aged by (auto simp: clearing_def)
  next
    case (taken a chg y)
    have "learned_all (nodes arcs) P st" using st by (auto simp: learned_all_def clearing_def)
    from taken_offer [OF PQ(1) this ok taken(2,4,5)] show ?thesis
      using PQ(4) taken by (auto simp: clearing_def)
  qed
qed

lemma clearing_run:
  assumes "acts_run arcs inc lim ls st st'" and "dest_ok st" "dest_owners st \<subseteq> S" and "addressed arcs"
    and PQ: "offers arcs S P Q" "ageless P" "ageless Q" "\<And>v x. Q v x \<Longrightarrow> P v x"
    and "learned_all (nodes arcs) (clearing inc lim n P Q) st"
  shows "learned_all (nodes arcs) (clearing inc lim (\<lambda>v. n v + ticks ls v) P Q) st'"
  using assms(1-3,9)
proof (induction ls arbitrary: st n)
  case (Cons l ls)
  obtain st1 where st1: "act_step arcs inc lim l st st1" "acts_run arcs inc lim ls st1 st'"
    using Cons.prems(1) by auto
  have ok: "dest_ok st1" "dest_owners st1 \<subseteq> S"
    using st1(1) owners_step [OF st1(1) Cons.prems(2) assms(4)] Cons.prems(3) by (simp_all add: act_step_def)
  from Cons.IH [OF st1(2) ok clearing_step [OF st1(1) Cons.prems(2,3) PQ Cons.prems(4)]]
  have "learned_all (nodes arcs) (clearing inc lim (\<lambda>v. n v + ticks [l] v + ticks ls v) P Q) st'" .
  moreover have "(\<lambda>v. n v + ticks [l] v + ticks ls v) = (\<lambda>v. n v + ticks (l # ls) v)"
    by (simp add: fun_eq_iff)
  ultimately show ?case by (simp only:)
qed simp

text \<open>Enough checks at every node.\<close>

definition epoch :: "'v arc list \<Rightarrow> ('v \<Rightarrow> nat) \<Rightarrow> ('v \<Rightarrow> nat) \<Rightarrow> 'v act list \<Rightarrow> bool" where
  "epoch arcs inc lim ls \<longleftrightarrow>
     (\<forall>v\<in>nodes arcs. 1 \<le> ticks ls v \<and> lim v \<le> ticks ls v * inc v \<and> lim v < 2 ^ 64)"

lemma epoch_clears:
  assumes run: "acts_run arcs inc lim ls st st'" and ok: "dest_ok st" "dest_owners st \<subseteq> S" "addressed arcs"
    and PQ: "offers arcs S P Q" "ageless P" "ageless Q" "\<And>v x. Q v x \<Longrightarrow> P v x"
    and P: "learned_all (nodes arcs) P st" and ls: "epoch arcs inc lim ls"
  shows "learned_all (nodes arcs) Q st'"
  unfolding learned_all_def
proof (intro ballI allI impI)
  fix v x assume v: "v \<in> nodes arcs" and x: "cells st' v = Some x" "\<not> c_local x"
  have "learned_all (nodes arcs) (clearing inc lim (\<lambda>_. 0) P Q) st"
    using P by (simp add: learned_all_def clearing_def)
  from learned_allD [OF clearing_run [OF run ok PQ this] v x]
  have "Q v x \<or> min (ticks ls v * inc v) (2 ^ 64 - 1) \<le> c_age x \<and> (1 \<le> ticks ls v \<longrightarrow> c_age x < lim v)"
    by (simp add: clearing_def)
  moreover have "1 \<le> ticks ls v" "lim v \<le> ticks ls v * inc v" "lim v \<le> 2 ^ 64 - 1"
    using ls v by (auto simp: epoch_def)
  ultimately show "Q v x" by linarith
qed

text \<open>What offers keep is an invariant.\<close>

lemma learned_keep:
  assumes run: "acts_run arcs inc lim ls st st'" and ok: "dest_ok st" "dest_owners st \<subseteq> S" "addressed arcs"
    and P: "offers arcs S P P" "ageless P" "learned_all (nodes arcs) P st"
  shows "learned_all (nodes arcs) P st'"
proof -
  have "learned_all (nodes arcs) (clearing inc lim (\<lambda>_. 0) P P) st"
    using P(3) by (simp add: learned_all_def clearing_def)
  from clearing_run [OF run ok P(1,2,2) _ this] show ?thesis
    by (auto simp: learned_all_def clearing_def)
qed

section \<open>Routes become at least as long as the way\<close>

text \<open>
  After \<open>j\<close> epochs: a route at a node farther than \<open>m \<le> j\<close> hops from the owners has a metric of at least
  \<open>m + 2\<close>. Routes that are too short for the way to go are stale; they count up, one each epoch.
\<close>

definition far :: "'v arc list \<Rightarrow> 'v set \<Rightarrow> nat \<Rightarrow> 'v \<Rightarrow> cell \<Rightarrow> bool" where
  "far arcs S j v x \<longleftrightarrow> (\<forall>m\<le>j. v \<notin> within arcs S m \<longrightarrow> m + 2 \<le> c_metric x)"

lemma ageless_far: "ageless (far arcs S j)"
  by (simp add: ageless_def far_def)

lemma far_mono: "far arcs S j v x \<Longrightarrow> i \<le> j \<Longrightarrow> far arcs S i v x"
  by (simp add: far_def)

lemma offers_far: "offers arcs S (far arcs S j) (far arcs S (Suc j))"
  unfolding offers_def
proof (intro ballI allI impI, elim conjE)
  fix a y assume a: "a \<in> set arcs" and y: "1 \<le> c_metric y"
    "if c_local y then arc_from a \<in> S \<and> c_metric y = 1 else far arcs S j (arc_from a) y"
  show "far arcs S (Suc j) (arc_to a) (confirmed a (c_metric y))"
    unfolding far_def
  proof (intro allI impI)
    fix m assume m: "m \<le> Suc j" "arc_to a \<notin> within arcs S m"
    show "m + 2 \<le> c_metric (confirmed a (c_metric y))"
    proof (cases m)
      case 0
      then show ?thesis using y(1) by (simp add: confirmed_def)
    next
      case (Suc i)
      have i: "arc_from a \<notin> within arcs S i" using within_arc [OF a, of S i] m(2) Suc by blast
      then have "arc_from a \<notin> S" using within_mono [of 0 i arcs S] by auto
      then have "far arcs S j (arc_from a) y" using y(2) by (auto split: if_splits)
      then have "i + 2 \<le> c_metric y" using i m(1) Suc by (simp add: far_def)
      then show ?thesis by (simp add: confirmed_def Suc)
    qed
  qed
qed

lemma offers_far_same: "offers arcs S (far arcs S j) (far arcs S j)"
  by (rule offers_mono [OF offers_far]) (auto intro: far_mono)

lemma far_start: "dest_ok st \<Longrightarrow> learned_all V (far arcs S 0) st"
  by (auto simp: learned_all_def far_def dest: dest_okD(2))

lemma epochs_far:
  assumes "acts_run arcs inc lim (concat lss) st st'" and "dest_ok st" "dest_owners st \<subseteq> S" "addressed arcs"
    and "\<And>ls. ls \<in> set lss \<Longrightarrow> epoch arcs inc lim ls"
  shows "learned_all (nodes arcs) (far arcs S (length lss)) st'"
  using assms(1,5)
proof (induction lss arbitrary: st' rule: rev_induct)
  case Nil
  then show ?case using far_start [OF assms(2)] by simp
next
  case (snoc ls lss)
  obtain st1 where st1: "acts_run arcs inc lim (concat lss) st st1" "acts_run arcs inc lim ls st1 st'"
    using snoc.prems(1) by (auto simp: acts_run_append)
  have ok: "dest_ok st1" "dest_owners st1 \<subseteq> S"
    using acts_run_ok [OF st1(1) assms(2)] owners_run [OF st1(1) assms(2,4)] assms(3) by simp_all
  have "learned_all (nodes arcs) (far arcs S (Suc (length lss))) st'"
    by (rule epoch_clears [OF st1(2) ok assms(4) offers_far ageless_far ageless_far _ snoc.IH [OF st1(1)]])
       (use snoc.prems(2) in \<open>auto intro: far_mono\<close>)
  then show ?case by simp
qed

lemma far_distance:
  assumes "learned_all V (far arcs S 14) st" and "dest_ok st" and "dest_owners st \<subseteq> S"
    and "v \<in> V" and "cells st v = Some x"
  shows "v \<in> within arcs S (c_metric x - 1)"
proof (cases "c_local x")
  case True
  then show ?thesis using dest_okD(1) [OF assms(2,5)] assms(3,5) by (auto simp: dest_owners_def)
next
  case False
  have x: "2 \<le> c_metric x" "c_metric x \<le> 15" using dest_okD(2) [OF assms(2,5) False] by simp_all
  have "far arcs S 14 v x" by (rule learned_allD [OF assms(1,4,5) False])
  moreover have "c_metric x - 1 \<le> 14" "\<not> c_metric x - 1 + 2 \<le> c_metric x" using x by simp_all
  ultimately show ?thesis unfolding far_def by blast
qed

section \<open>Routes come from where they point\<close>

text \<open>
  One epoch later every learned route is one that a node nearer to the owners offered, over an arc of
  the network.
\<close>

definition sourced :: "'v arc list \<Rightarrow> 'v set \<Rightarrow> 'v \<Rightarrow> cell \<Rightarrow> bool" where
  "sourced arcs S v x \<longleftrightarrow>
     far arcs S 14 v x
     \<and> (\<exists>a\<in>set arcs. arc_to a = v \<and> c_hop x = arc_address a \<and> c_if x = info_if_index (arc_in a)
          \<and> arc_from a \<in> within arcs S (c_metric x - 2))"

lemma ageless_sourced: "ageless (sourced arcs S)"
  by (simp add: ageless_def sourced_def far_def)

lemma offers_sourced: "offers arcs S (far arcs S 14) (sourced arcs S)"
  unfolding offers_def
proof (intro ballI allI impI, elim conjE)
  fix a y assume a: "a \<in> set arcs" and y: "1 \<le> c_metric y" "c_metric y \<le> 14"
    "if c_local y then arc_from a \<in> S \<and> c_metric y = 1 else far arcs S 14 (arc_from a) y"
  have "arc_from a \<in> within arcs S (c_metric y - 1)"
  proof (cases "c_local y")
    case False
    then have "far arcs S 14 (arc_from a) y" using y(3) by simp
    moreover have "c_metric y - 1 \<le> 14" "\<not> c_metric y - 1 + 2 \<le> c_metric y" using y(1,2) by simp_all
    ultimately show ?thesis unfolding far_def by blast
  qed (use y(3) in simp)
  moreover have "far arcs S 14 (arc_to a) (confirmed a (c_metric y))"
    using offers_far_same [of arcs S 14] a y unfolding offers_def by blast
  ultimately show "sourced arcs S (arc_to a) (confirmed a (c_metric y))"
    unfolding sourced_def using a by (auto simp: confirmed_def)
qed

lemma offers_sourced_same: "offers arcs S (sourced arcs S) (sourced arcs S)"
  by (rule offers_mono [OF offers_sourced]) (simp_all add: sourced_def)

lemma epochs_sourced:
  assumes "acts_run arcs inc lim (concat lss) st st'" and "dest_ok st" "dest_owners st \<subseteq> S" "addressed arcs"
    and "\<And>ls. ls \<in> set lss \<Longrightarrow> epoch arcs inc lim ls" and "length lss = 15"
  shows "learned_all (nodes arcs) (sourced arcs S) st'"
proof -
  define ls where "ls = last lss"
  have lss: "lss = butlast lss @ [ls]" using assms(6) unfolding ls_def by (intro append_butlast_last_id [symmetric]) auto
  obtain st1 where st1: "acts_run arcs inc lim (concat (butlast lss)) st st1" "acts_run arcs inc lim ls st1 st'"
    using assms(1) by (subst (asm) lss) (auto simp: acts_run_append)
  have ok: "dest_ok st1" "dest_owners st1 \<subseteq> S"
    using acts_run_ok [OF st1(1) assms(2)] owners_run [OF st1(1) assms(2,4)] assms(3) by simp_all
  have "learned_all (nodes arcs) (far arcs S 14) st1"
    using epochs_far [OF st1(1) assms(2-4)] assms(5,6) by (auto dest: in_set_butlastD)
  moreover have "epoch arcs inc lim ls" using assms(5) [of ls] lss by (metis in_set_conv_decomp)
  ultimately show ?thesis
    by (intro epoch_clears [OF st1(2) ok assms(4) offers_sourced ageless_far ageless_sourced])
       (simp_all add: sourced_def)
qed

end
