(* ===== verification/Rip_Rounds.thy ===== *)
theory Rip_Rounds
  imports Rip_Cells
begin

text \<open>
  From routes that are not too short to shortest routes. Once every learned route comes from a node
  nearer to the owners, each round of announcements brings the nodes one hop farther out to their
  distance, and keeps those that are there: their routes are confirmed in every round, so no
  timeout check reaches them.
\<close>

section \<open>Steady states\<close>

definition attached_cells :: "'v arc list \<Rightarrow> 'v set \<Rightarrow> 'v dest \<Rightarrow> bool" where
  "attached_cells arcs S st \<longleftrightarrow>
     (\<forall>a\<in>set arcs. \<forall>x. arc_from a \<in> S \<longrightarrow> cells st (arc_from a) = Some x \<longrightarrow> c_if x = arc_out a \<longrightarrow> arc_to a \<in> S)"

text \<open>Owners that split horizon lets be heard and that have no garbage to shadow their routes.\<close>

definition anchored :: "'v arc list \<Rightarrow> 'v set \<Rightarrow> 'v dest \<Rightarrow> bool" where
  "anchored arcs S st \<longleftrightarrow>
     dest_ok st \<and> dest_owners st = S \<and> (\<forall>v\<in>S. \<not> garb st v) \<and> attached_cells arcs S st"

definition steady :: "'v arc list \<Rightarrow> 'v set \<Rightarrow> 'v dest \<Rightarrow> bool" where
  "steady arcs S st \<longleftrightarrow> anchored arcs S st \<and> learned_all (nodes arcs) (sourced arcs S) st"

lemma anchoredD:
  assumes "anchored arcs S st"
  shows "dest_ok st" "dest_owners st = S" "attached_cells arcs S st" "v \<in> S \<Longrightarrow> \<not> garb st v"
  using assms unfolding anchored_def by blast+

lemma steadyD:
  assumes "steady arcs S st"
  shows "dest_ok st" "dest_owners st = S" "attached_cells arcs S st" "learned_all (nodes arcs) (sourced arcs S) st"
    and "v \<in> S \<Longrightarrow> \<not> garb st v" "anchored arcs S st"
  using assms unfolding steady_def anchored_def by blast+

lemma links_addressed: "links_ok arcs \<Longrightarrow> addressed arcs"
  unfolding links_ok_def addressed_def by (rule conjunct1)

lemma owner_cell:
  assumes "anchored arcs S st" and "v \<in> S"
  shows "\<exists>x. cells st v = Some x \<and> c_local x \<and> c_metric x = 1"
  using assms anchoredD(2) [OF assms(1)] dest_okD(1) [OF anchoredD(1) [OF assms(1)]] by (auto simp: dest_owners_def)

lemma steady_no_garbage:
  assumes "steady arcs S st" and "cells st v = Some x"
  shows "\<not> garb st v"
proof (cases "c_local x")
  case True
  then have "v \<in> S" using assms steadyD(2) [OF assms(1)] by (auto simp: dest_owners_def)
  then show ?thesis by (rule steadyD(5) [OF assms(1)])
next
  case False
  then show ?thesis using dest_okD(2) [OF steadyD(1) [OF assms(1)] assms(2)] by simp
qed

lemma owner_cell_fixed:
  assumes "act_step arcs inc lim l st st'" and "anchored arcs S st" and "addressed arcs" and "v \<in> S"
  shows "cells st' v = cells st v"
  using owner_cell [OF assms(2,4)] local_cell_fixed [OF assms(1) anchoredD(1) [OF assms(2)] assms(3)] by fastforce

lemma anchored_step:
  assumes step: "act_step arcs inc lim l st st'" and st: "anchored arcs S st" and adr: "addressed arcs"
  shows "anchored arcs S st'"
proof -
  note D = anchoredD [OF st]
  have "\<not> garb st' v" if "v \<in> S" for v
    using owner_cell [OF st that] D(4) [OF that] step by (auto simp: act_step_def)
  moreover have "attached_cells arcs S st'"
    using D(3) owner_cell_fixed [OF step st adr] unfolding attached_cells_def by metis
  moreover have "dest_ok st'" using step by (simp add: act_step_def)
  ultimately show ?thesis using owners_step [OF step D(1) adr] D(2) by (simp add: anchored_def)
qed

lemma anchored_run:
  "acts_run arcs inc lim ls st st' \<Longrightarrow> anchored arcs S st \<Longrightarrow> addressed arcs \<Longrightarrow> anchored arcs S st'"
  by (induction ls arbitrary: st) (auto dest: anchored_step)

lemma steady_step:
  assumes step: "act_step arcs inc lim l st st'" and st: "steady arcs S st" and links: "links_ok arcs"
  shows "steady arcs S st'"
proof -
  note adr = links_addressed [OF links] and D = steadyD [OF st]
  have run: "acts_run arcs inc lim [l] st st'" using step by simp
  have "learned_all (nodes arcs) (sourced arcs S) st'"
    by (rule learned_keep [OF run D(1) _ adr offers_sourced_same ageless_sourced D(4)]) (simp add: D(2))
  then show ?thesis using anchored_step [OF step D(6) adr] by (simp add: steady_def)
qed

lemma at_distance_0: "at_distance arcs S 0 v \<longleftrightarrow> v \<in> S"
  by (simp add: at_distance_def)

lemma at_distance_arc:
  assumes "at_distance arcs S (Suc d) v"
  shows "\<exists>b\<in>set arcs. arc_to b = v \<and> at_distance arcs S d (arc_from b)"
proof -
  have v: "v \<in> within arcs S (Suc d)" "v \<notin> within arcs S m" if "m < Suc d" for m
    using assms that by (auto simp: at_distance_def)
  then obtain b where b: "b \<in> set arcs" "arc_to b = v" "arc_from b \<in> within arcs S d"
    using v(1) [of 0] v(2) [of d] by auto
  have "arc_from b \<notin> within arcs S m" if "m < d" for m
    using within_arc [OF b(1), of S m] b(2) v(2) [of "Suc m"] that by auto
  then show ?thesis using b by (auto simp: at_distance_def)
qed

lemma at_distance_node: "at_distance arcs S (Suc d) v \<Longrightarrow> v \<in> nodes arcs"
  by (drule at_distance_arc) (auto simp: nodes_def)

lemma at_distance_near: "at_distance arcs S d v \<Longrightarrow> v \<in> within arcs S m \<Longrightarrow> d \<le> m"
  using not_le by (auto simp: at_distance_def)

text \<open>No route is shorter than the distance, and one that is as short comes from one hop nearer.\<close>

lemma steady_bound:
  assumes "steady arcs S st" and "v \<in> nodes arcs" and "cells st v = Some x"
  shows "v \<in> within arcs S (c_metric x - 1)"
proof -
  have "learned_all (nodes arcs) (far arcs S 14) st"
    using steadyD(4) [OF assms(1)] by (auto simp: learned_all_def sourced_def)
  then show ?thesis
    using far_distance [OF _ steadyD(1) [OF assms(1)] _ assms(2,3)] steadyD(2) [OF assms(1)] by simp
qed

lemma steady_source:
  assumes st: "steady arcs S st" and v: "at_distance arcs S (Suc d) v" and x: "cells st v = Some x" "c_metric x = d + 2"
  obtains b where "b \<in> set arcs" "arc_to b = v" "c_hop x = arc_address b" "at_distance arcs S d (arc_from b)"
proof -
  have "\<not> c_local x" using dest_okD(1) [OF steadyD(1) [OF st] x(1)] x(2) by auto
  then have "sourced arcs S v x" by (rule learned_allD [OF steadyD(4) [OF st] at_distance_node [OF v] x(1)])
  then obtain b where b: "b \<in> set arcs" "arc_to b = v" "c_hop x = arc_address b" "arc_from b \<in> within arcs S d"
    using x(2) by (auto simp: sourced_def)
  have "arc_from b \<notin> within arcs S m" if "m < d" for m
    using within_arc [OF b(1), of S m] b(2) at_distance_near [OF v, of "Suc m"] that by auto
  then show ?thesis using that b by (auto simp: at_distance_def)
qed

text \<open>Split horizon does not hold a shortest route back from a node one hop farther away.\<close>

lemma not_held_back:
  assumes st: "steady arcs S st" and links: "links_ok arcs" and b: "b \<in> set arcs"
    and u: "at_distance arcs S d (arc_from b)" "cells st (arc_from b) = Some y" "c_metric y = d + 1"
    and v: "at_distance arcs S (Suc d) (arc_to b)"
  shows "c_if y \<noteq> arc_out b"
proof
  assume held: "c_if y = arc_out b"
  show False
  proof (cases "c_local y")
    case True
    then have "arc_from b \<in> S" using u(2) steadyD(2) [OF st] by (auto simp: dest_owners_def)
    then have "arc_to b \<in> S" using steadyD(3) [OF st] b u(2) held unfolding attached_cells_def by blast
    then show False using at_distance_near [OF v, of 0] by simp
  next
    case False
    have "arc_from b \<in> nodes arcs" using b by (simp add: nodes_def)
    from learned_allD [OF steadyD(4) [OF st] this u(2) False] obtain a
      where a: "a \<in> set arcs" "arc_to a = arc_from b" "c_if y = info_if_index (arc_in a)"
        "arc_from a \<in> within arcs S (d - 1)"
      using u(3) by (auto simp: sourced_def)
    have d: "1 \<le> d" using dest_okD(2) [OF steadyD(1) [OF st] u(2) False] u(3) by simp
    have "info_if_index (arc_in a) = arc_out b" using a(3) held by simp
    from links_okD(4) [OF links a(1) b a(2) this]
    have "arc_to b \<in> within arcs S d"
    proof
      assume "arc_to b = arc_from a"
      then show ?thesis using a(4) within_mono [of "d - 1" d arcs S] by auto
    next
      assume "\<exists>c\<in>set arcs. arc_from c = arc_from a \<and> arc_to c = arc_to b"
      then obtain c where "c \<in> set arcs" "arc_from c = arc_from a" "arc_to c = arc_to b" by blast
      then show ?thesis using within_arc [of c arcs S "d - 1"] a(4) d by simp
    qed
    then show False using at_distance_near [OF v] by fastforce
  qed
qed

section \<open>One hop farther each round\<close>

definition good :: "'v arc list \<Rightarrow> 'v set \<Rightarrow> nat \<Rightarrow> 'v dest \<Rightarrow> bool" where
  "good arcs S n st \<longleftrightarrow>
     (\<forall>v d. d \<le> n \<longrightarrow> d \<le> 14 \<longrightarrow> at_distance arcs S d v \<longrightarrow> (\<exists>x. cells st v = Some x \<and> c_metric x = d + 1))"

lemma goodD: "good arcs S n st \<Longrightarrow> d \<le> n \<Longrightarrow> d \<le> 14 \<Longrightarrow> at_distance arcs S d v \<Longrightarrow>
    \<exists>x. cells st v = Some x \<and> c_metric x = d + 1"
  by (simp add: good_def)

text \<open>A shortest route from good nodes survives whatever is announced, and is confirmed by its next hop.\<close>

lemma good_hears:
  assumes st: "steady arcs S st" "good arcs S n st" and links: "links_ok arcs" and a: "a \<in> set arcs"
    and hear: "hears a chg (cells st (arc_from a)) (garb st (arc_from a)) (cells st (arc_to a)) c'"
    and d: "d \<le> n" and v: "at_distance arcs S (Suc d) (arc_to a)"
    and x: "cells st (arc_to a) = Some x" "c_metric x = d + 2"
  shows "c' = Some x \<and> (c_hop x = arc_address a \<longrightarrow> chg) \<or> c' = Some (confirmed a (d + 1))"
proof (cases "c_hop x = arc_address a")
  case True
  obtain b where b: "b \<in> set arcs" "arc_to b = arc_to a" "c_hop x = arc_address b" "at_distance arcs S d (arc_from b)"
    by (rule steady_source [OF st(1) v x])
  have "arc_from b = arc_from a" using links_okD(3) [OF links b(1) a b(2)] b(3) True by simp
  then have u: "at_distance arcs S d (arc_from a)" using b(4) by simp
  have d14: "d + 1 \<le> 14" using dest_okD(3) [OF steadyD(1) [OF st(1)] x(1)] x(2) by simp
  obtain y where y: "cells st (arc_from a) = Some y" "c_metric y = d + 1"
    using goodD [OF st(2) d _ u] d14 by auto
  have "hears a chg (Some y) False (Some x) c'"
    using hear y(1) x(1) steady_no_garbage [OF st(1) y(1)] by simp
  from hears_own_hop [OF this True _ not_held_back [OF st(1) links a u y v]] show ?thesis
    using y(2) d14 by auto
next
  case False
  have "c' = Some x"
  proof (rule hears_other_hop [OF hear [unfolded x(1)] False])
    fix y assume y: "cells st (arc_from a) = Some y" "c_metric y \<le> 14"
    have "arc_from a \<in> nodes arcs" using a by (simp add: nodes_def)
    then have "arc_to a \<in> within arcs S (Suc (c_metric y - 1))"
      using within_arc [OF a steady_bound [OF st(1) _ y(1)]] by simp
    then have "Suc d \<le> Suc (c_metric y - 1)" by (rule at_distance_near [OF v])
    then show "c_metric x \<le> c_metric y + 1" using x(2) dest_okD(3) [OF steadyD(1) [OF st(1)] y(1)] by simp
  qed
  then show ?thesis using False by simp
qed

text \<open>
  Within a round: \<open>t\<close> counts the checks so far, \<open>A\<close> has the arcs that have carried a full announcement.
  Good routes are as old as the checks of this round and \<open>B\<close>, the bound they entered it with; those
  whose next hop has been heard are as old as the checks of this round; and a node one hop farther
  has its route unless an arc from a good node has yet to be heard.
\<close>

definition young :: "('v \<Rightarrow> nat) \<Rightarrow> ('v \<Rightarrow> nat) \<Rightarrow> 'v arc list \<Rightarrow> 'v set \<Rightarrow> nat \<Rightarrow> 'v dest \<Rightarrow> bool" where
  "young inc B arcs S n st \<longleftrightarrow>
     (\<forall>v d x. Suc d \<le> n \<longrightarrow> at_distance arcs S (Suc d) v \<longrightarrow> cells st v = Some x \<longrightarrow> c_metric x = d + 2
        \<longrightarrow> c_age x \<le> B v * inc v)"

definition refreshed :: "('v \<Rightarrow> nat) \<Rightarrow> ('v \<Rightarrow> nat) \<Rightarrow> 'v arc list \<Rightarrow> 'v set \<Rightarrow> nat \<Rightarrow> 'v arc set \<Rightarrow> 'v dest \<Rightarrow> bool" where
  "refreshed inc t arcs S n A st \<longleftrightarrow>
     (\<forall>d x. \<forall>b\<in>A. d \<le> n \<longrightarrow> at_distance arcs S (Suc d) (arc_to b) \<longrightarrow> cells st (arc_to b) = Some x \<longrightarrow> c_metric x = d + 2
        \<longrightarrow> c_hop x = arc_address b \<longrightarrow> c_age x \<le> t (arc_to b) * inc (arc_to b))"

lemma refreshedD:
  assumes "refreshed inc t arcs S n A st" and "b \<in> A" and "d \<le> n" and "at_distance arcs S (Suc d) (arc_to b)"
    and "cells st (arc_to b) = Some x" and "c_metric x = d + 2" and "c_hop x = arc_address b"
  shows "c_age x \<le> t (arc_to b) * inc (arc_to b)"
  using assms unfolding refreshed_def by blast

definition advancing :: "'v arc list \<Rightarrow> 'v set \<Rightarrow> nat \<Rightarrow> 'v arc set \<Rightarrow> 'v dest \<Rightarrow> bool" where
  "advancing arcs S n A st \<longleftrightarrow>
     (\<forall>v. Suc n \<le> 14 \<longrightarrow> at_distance arcs S (Suc n) v \<longrightarrow>
        (\<exists>b\<in>set arcs. b \<notin> A \<and> arc_to b = v \<and> at_distance arcs S n (arc_from b))
        \<or> (\<exists>x. cells st v = Some x \<and> c_metric x = n + 2))"

definition in_round ::
  "('v \<Rightarrow> nat) \<Rightarrow> ('v \<Rightarrow> nat) \<Rightarrow> ('v \<Rightarrow> nat) \<Rightarrow> 'v arc list \<Rightarrow> 'v set \<Rightarrow> nat \<Rightarrow> 'v arc set \<Rightarrow> 'v dest \<Rightarrow> bool" where
  "in_round inc B t arcs S n A st \<longleftrightarrow>
     steady arcs S st \<and> good arcs S n st \<and> young inc (\<lambda>v. B v + t v) arcs S n st
     \<and> refreshed inc t arcs S n A st \<and> advancing arcs S n A st"

fun carried_full :: "'v act \<Rightarrow> 'v arc set" where
  "carried_full (Carry a chg) = (if chg then {} else {a})"
| "carried_full _ = {}"

lemma good_step_carry:
  assumes step: "act_step arcs inc lim (Carry a chg) st st'" and links: "links_ok arcs"
    and st: "steady arcs S st" "good arcs S n st"
  shows "good arcs S n st'"
  unfolding good_def
proof (intro allI impI)
  fix v d assume d: "d \<le> n" "d \<le> 14" "at_distance arcs S d v"
  obtain x where x: "cells st v = Some x" "c_metric x = d + 1" using goodD [OF st(2) d] by blast
  have a: "a \<in> set arcs" and other: "v \<noteq> arc_to a \<Longrightarrow> cells st' v = cells st v"
    and hear: "hears a chg (cells st (arc_from a)) (garb st (arc_from a)) (cells st (arc_to a)) (cells st' (arc_to a))"
    using step by (auto simp: act_step_def)
  show "\<exists>x. cells st' v = Some x \<and> c_metric x = d + 1"
  proof (cases "v = arc_to a \<and> d \<noteq> 0")
    case True
    then obtain e where e: "d = Suc e" by (cases d) auto
    have "cells st' v = Some x \<or> cells st' v = Some (confirmed a (e + 1))"
      using good_hears [OF st links a hear _ _ _] d True x e by fastforce
    then show ?thesis using x(2) e by (auto simp: confirmed_def)
  next
    case False
    have "cells st' v = cells st v" if "d = 0"
      using owner_cell_fixed [OF step steadyD(6) [OF st(1)] links_addressed [OF links]] d(3) that by (simp add: at_distance_0)
    then show ?thesis using False other x by auto
  qed
qed

lemma tick_keeps:
  assumes "act_step arcs inc lim (Tick v) st st'" and "cells st v = Some x" and "c_local x \<or> c_age x + inc v < lim v"
  shows "\<exists>x'. cells st' v = Some x' \<and> c_metric x' = c_metric x"
  using assms by (auto simp: act_step_def tick_def Let_def)

lemma good_step_tick:
  assumes step: "act_step arcs inc lim (Tick w) st st'" and st: "steady arcs S st" "good arcs S n st"
    and young: "young inc B arcs S n st" and lim: "w \<in> nodes arcs \<Longrightarrow> Suc (B w) * inc w < lim w"
  shows "good arcs S n st'"
  unfolding good_def
proof (intro allI impI)
  fix v d assume d: "d \<le> n" "d \<le> 14" "at_distance arcs S d v"
  obtain x where x: "cells st v = Some x" "c_metric x = d + 1" using goodD [OF st(2) d] by blast
  show "\<exists>x. cells st' v = Some x \<and> c_metric x = d + 1"
  proof (cases "v = w")
    case True
    have "c_local x \<or> c_age x + inc v < lim v"
    proof (cases d)
      case 0
      then show ?thesis using owner_cell [OF steadyD(6) [OF st(1)], of v] d(3) x(1) by (auto simp: at_distance_0)
    next
      case (Suc e)
      then have "c_age x \<le> B v * inc v" using young d x unfolding young_def by simp
      moreover have "Suc (B v) * inc v < lim v" using lim True at_distance_node d(3) Suc by fast
      ultimately show ?thesis by simp
    qed
    then show ?thesis using tick_keeps [of arcs inc lim v st st' x] step x True by simp
  qed (use step x in \<open>simp add: act_step_def\<close>)
qed

lemma young_step:
  assumes step: "act_step arcs inc lim l st st'" and young: "young inc (\<lambda>v. B v + t v) arcs S n st"
  shows "young inc (\<lambda>v. B v + (t v + ticks [l] v)) arcs S n st'"
  unfolding young_def
proof (intro allI impI)
  fix v d x assume d: "Suc d \<le> n" "at_distance arcs S (Suc d) v" and x: "cells st' v = Some x" "c_metric x = d + 2"
  note old = young [unfolded young_def, rule_format, OF d]
  show "c_age x \<le> (B v + (t v + ticks [l] v)) * inc v"
  proof (cases "c_local x")
    case True
    then show ?thesis using old [OF local_cell_old [OF step x(1) True] x(2)] by (simp add: algebra_simps)
  next
    case False
    from step x(1) False show ?thesis
    proof (cases rule: step_route)
      case kept
      then show ?thesis using old x(2) by (simp add: algebra_simps)
    next
      case (aged x0)
      then have "c_age x0 \<le> (B v + t v) * inc v" using old x(2) by simp
      then show ?thesis using aged by (simp add: algebra_simps)
    next
      case (taken a chg y)
      then show ?thesis by (simp add: confirmed_def)
    qed
  qed
qed

lemma refreshed_step:
  assumes step: "act_step arcs inc lim l st st'" and links: "links_ok arcs"
    and st: "steady arcs S st" "good arcs S n st" and fresh: "refreshed inc t arcs S n A st"
  shows "refreshed inc (\<lambda>v. t v + ticks [l] v) arcs S n (A \<union> carried_full l) st'"
  unfolding refreshed_def
proof (intro allI ballI impI)
  fix d x b assume b: "b \<in> A \<union> carried_full l" and d: "d \<le> n" "at_distance arcs S (Suc d) (arc_to b)"
    and x: "cells st' (arc_to b) = Some x" "c_metric x = d + 2" "c_hop x = arc_address b"
  have old: "c_age z \<le> t (arc_to b) * inc (arc_to b)"
    if "b \<in> A" "cells st (arc_to b) = Some z" "c_metric z = d + 2" "c_hop z = arc_address b" for z
    using fresh that d unfolding refreshed_def by blast
  have "dest_ok st'" using step by (simp add: act_step_def)
  then have learned: "\<not> c_local x" using dest_okD(1) [OF _ x(1)] x(2) by fastforce
  from step x(1) learned show "c_age x \<le> (t (arc_to b) + ticks [l] (arc_to b)) * inc (arc_to b)"
  proof (cases rule: step_route)
    case kept
    show ?thesis
    proof (cases "b \<in> A")
      case True
      then show ?thesis using old [OF True kept(1) x(2,3)] by (simp add: algebra_simps)
    next
      case False
      then have l: "l = Carry b False" using b by (cases l) (auto split: if_splits)
      then have a: "b \<in> set arcs"
        and hear: "hears b False (cells st (arc_from b)) (garb st (arc_from b)) (cells st (arc_to b)) (cells st' (arc_to b))"
        using step by (auto simp: act_step_def)
      from good_hears [OF st links a hear d kept(1) x(2)] x(1,3) show ?thesis by (auto simp: confirmed_def)
    qed
  next
    case (aged z)
    then have "b \<in> A" using b by simp
    then have "c_age z \<le> t (arc_to b) * inc (arc_to b)" using old aged x(2,3) by simp
    then show ?thesis using aged by (simp add: algebra_simps)
  next
    case (taken a chg y)
    then show ?thesis by (simp add: confirmed_def)
  qed
qed

lemma full_reaches:
  assumes st: "steady arcs S st" "good arcs S n st" and links: "links_ok arcs" and a: "a \<in> set arcs"
    and hear: "hears a False (cells st (arc_from a)) (garb st (arc_from a)) (cells st (arc_to a)) c'"
    and n: "Suc n \<le> 14" "at_distance arcs S n (arc_from a)" "at_distance arcs S (Suc n) (arc_to a)"
  shows "\<exists>x. c' = Some x \<and> c_metric x = n + 2"
proof -
  obtain y where y: "cells st (arc_from a) = Some y" "c_metric y = n + 1" using goodD [OF st(2) _ _ n(2)] n(1) by auto
  have "hears a False (Some y) False (cells st (arc_to a)) c'"
    using hear y(1) steady_no_garbage [OF st(1) y(1)] by simp
  from hears_full [OF this _ not_held_back [OF st(1) links a n(2) y n(3)]]
  have c': "c' = take_offer a (n + 1) (cells st (arc_to a))" using y(2) n(1) by simp
  have "n + 2 \<le> c_metric x" if "cells st (arc_to a) = Some x" for x
    using steady_bound [OF st(1) at_distance_node [OF n(3)] that] at_distance_near [OF n(3)] by fastforce
  then show ?thesis
    using n(1) unfolding c' by (fastforce simp: take_offer_def confirmed_def split: option.splits)
qed

lemma advancing_step:
  assumes step: "act_step arcs inc lim l st st'" and links: "links_ok arcs"
    and st: "steady arcs S st" "good arcs S n st" and fresh: "refreshed inc t arcs S n A st"
    and lim: "\<And>v. l = Tick v \<Longrightarrow> v \<in> nodes arcs \<Longrightarrow> Suc (t v) * inc v < lim v"
    and adv: "advancing arcs S n A st"
  shows "advancing arcs S n (A \<union> carried_full l) st'"
  unfolding advancing_def
proof (intro allI impI)
  fix v assume n: "Suc n \<le> 14" and v: "at_distance arcs S (Suc n) v"
  let ?goal = "(\<exists>b\<in>set arcs. b \<notin> A \<union> carried_full l \<and> arc_to b = v \<and> at_distance arcs S n (arc_from b))
      \<or> (\<exists>x. cells st' v = Some x \<and> c_metric x = n + 2)"
  show ?goal
  proof (cases "\<exists>b\<in>set arcs. b \<notin> A \<union> carried_full l \<and> arc_to b = v \<and> at_distance arcs S n (arc_from b)")
    case all: False
    show ?thesis
    proof (cases l)
      case (Carry a chg)
      then have a: "a \<in> set arcs" and other: "v \<noteq> arc_to a \<Longrightarrow> cells st' v = cells st v"
        and hear: "hears a chg (cells st (arc_from a)) (garb st (arc_from a)) (cells st (arc_to a)) (cells st' (arc_to a))"
        using step by (auto simp: act_step_def)
      show ?thesis
      proof (cases "\<exists>x. cells st v = Some x \<and> c_metric x = n + 2")
        case True
        then obtain x where x: "cells st v = Some x" "c_metric x = n + 2" by blast
        show ?thesis
        proof (cases "v = arc_to a")
          case True
          then show ?thesis
            using good_hears [OF st links a hear _ _ _] v x by (fastforce simp: confirmed_def)
        qed (use other x in simp)
      next
        case False
        then obtain b where b: "b \<in> set arcs" "b \<notin> A" "arc_to b = v" "at_distance arcs S n (arc_from b)"
          using adv n v unfolding advancing_def by blast
        then have "b \<in> carried_full l" using all by blast
        then have "b = a" "\<not> chg" using Carry by (auto split: if_splits)
        then show ?thesis using full_reaches [OF st links a _ n] hear b v by auto
      qed
    next
      case (Tick w)
      then obtain x where x: "cells st v = Some x" "c_metric x = n + 2"
        using adv n v all unfolding advancing_def by auto
      show ?thesis
      proof (cases "v = w")
        case True
        obtain b where b: "b \<in> set arcs" "arc_to b = v" "c_hop x = arc_address b" "at_distance arcs S n (arc_from b)"
          by (rule steady_source [OF st(1) v x])
        have "b \<in> A \<union> carried_full l" using all b by blast
        then have "b \<in> A" using Tick by simp
        then have "c_age x \<le> t v * inc v" using refreshedD [OF fresh, of b n x] b v x by simp
        moreover have "Suc (t v) * inc v < lim v" using lim Tick True at_distance_node [OF v] by blast
        ultimately have "c_age x + inc v < lim v" by simp
        then show ?thesis using tick_keeps [of arcs inc lim v st st' x] step Tick True x by auto
      qed (use step Tick x in \<open>simp add: act_step_def\<close>)
    next
      case Idle
      then show ?thesis using adv n v all step unfolding advancing_def act_step_def by auto
    qed
  qed simp
qed

lemma in_round_step:
  assumes step: "act_step arcs inc lim l st st'" and links: "links_ok arcs"
    and st: "in_round inc B t arcs S n A st"
    and lim: "\<And>v. l = Tick v \<Longrightarrow> v \<in> nodes arcs \<Longrightarrow> Suc (B v + t v) * inc v < lim v"
  shows "in_round inc B (\<lambda>v. t v + ticks [l] v) arcs S n (A \<union> carried_full l) st'"
proof -
  have s: "steady arcs S st" "good arcs S n st" and y: "young inc (\<lambda>v. B v + t v) arcs S n st"
    and r: "refreshed inc t arcs S n A st" and a: "advancing arcs S n A st"
    using st by (simp_all add: in_round_def)
  have lim': "Suc (t v) * inc v < lim v" if "l = Tick v" "v \<in> nodes arcs" for v
  proof -
    have "Suc (t v) * inc v \<le> Suc (B v + t v) * inc v" by (rule mult_right_mono) simp_all
    also have "\<dots> < lim v" by (rule lim [OF that])
    finally show ?thesis .
  qed
  have "good arcs S n st'"
  proof (cases l)
    case (Carry b chg)
    then show ?thesis using good_step_carry [OF _ links s] step by simp
  next
    case (Tick w)
    then show ?thesis using good_step_tick [OF _ s y] step lim by simp
  next
    case Idle
    then show ?thesis using s(2) step by (simp add: act_step_def good_def)
  qed
  then show ?thesis
    using steady_step [OF step s(1) links] young_step [OF step y] refreshed_step [OF step links s r]
      advancing_step [OF step links s r lim' a] by (simp add: in_round_def)
qed

lemma in_round_run:
  assumes "acts_run arcs inc lim ls st st'" and "links_ok arcs" and "in_round inc B t arcs S n A st"
    and "\<And>v. v \<in> nodes arcs \<Longrightarrow> (B v + (t v + ticks ls v)) * inc v < lim v"
  shows "in_round inc B (\<lambda>v. t v + ticks ls v) arcs S n (A \<union> \<Union> (carried_full ` set ls)) st'"
  using assms(1,3,4)
proof (induction ls arbitrary: st t A)
  case (Cons l ls)
  obtain st1 where st1: "act_step arcs inc lim l st st1" "acts_run arcs inc lim ls st1 st'"
    using Cons.prems(1) by auto
  have "Suc (B v + t v) * inc v < lim v" if "l = Tick v" "v \<in> nodes arcs" for v
  proof -
    have "Suc (B v + t v) * inc v \<le> (B v + (t v + ticks (l # ls) v)) * inc v"
      using that(1) by (intro mult_right_mono) simp_all
    also have "\<dots> < lim v" by (rule Cons.prems(3) [OF that(2)])
    finally show ?thesis .
  qed
  note inv = in_round_step [OF st1(1) assms(2) Cons.prems(2) this]
  have counts: "(\<lambda>v. t v + ticks [l] v + ticks ls v) = (\<lambda>v. t v + ticks (l # ls) v)"
    by (simp add: fun_eq_iff)
  have "in_round inc B (\<lambda>v. t v + ticks [l] v + ticks ls v) arcs S n
      (A \<union> carried_full l \<union> \<Union> (carried_full ` set ls)) st'"
  proof (rule Cons.IH [OF st1(2) inv])
    fix v assume "v \<in> nodes arcs"
    then show "(B v + (t v + ticks [l] v + ticks ls v)) * inc v < lim v"
      using Cons.prems(3) fun_cong [OF counts, of v] by (simp only:)
  qed
  then show ?case unfolding counts by (simp add: Un_assoc)
qed simp

text \<open>
  The state between rounds, and a round: every arc carries a full announcement, and so few checks are
  made that two rounds of them do not add up to the timeout.
\<close>

definition stage :: "('v \<Rightarrow> nat) \<Rightarrow> ('v \<Rightarrow> nat) \<Rightarrow> 'v arc list \<Rightarrow> 'v set \<Rightarrow> nat \<Rightarrow> 'v dest \<Rightarrow> bool" where
  "stage inc B arcs S n st \<longleftrightarrow> steady arcs S st \<and> good arcs S n st \<and> young inc B arcs S n st"

lemma stage_start: "steady arcs S st \<Longrightarrow> stage inc B arcs S 0 st"
  using owner_cell [OF steadyD(6)] by (fastforce simp: stage_def good_def young_def at_distance_0)

lemma stage_round:
  assumes "acts_run arcs inc lim ls st st'" and "links_ok arcs" and "stage inc B arcs S n st"
    and "\<And>v. v \<in> nodes arcs \<Longrightarrow> (B v + ticks ls v) * inc v < lim v"
    and all: "set arcs \<subseteq> \<Union> (carried_full ` set ls)"
  shows "stage inc (ticks ls) arcs S (Suc n) st'"
proof -
  have "in_round inc B (\<lambda>_. 0) arcs S n {} st"
    using assms(3) at_distance_arc [of arcs S n]
    by (auto simp: in_round_def stage_def refreshed_def advancing_def)
  from in_round_run [OF assms(1,2) this] assms(4)
  have s: "steady arcs S st'" "good arcs S n st'"
    and r: "refreshed inc (ticks ls) arcs S n (\<Union> (carried_full ` set ls)) st'"
    and a: "advancing arcs S n (\<Union> (carried_full ` set ls)) st'"
    by (simp_all add: in_round_def)
  have "good arcs S (Suc n) st'"
    unfolding good_def
  proof (intro allI impI)
    fix v d assume d: "d \<le> Suc n" "d \<le> 14" "at_distance arcs S d v"
    show "\<exists>x. cells st' v = Some x \<and> c_metric x = d + 1"
    proof (cases "d = Suc n")
      case True
      then show ?thesis using a all d unfolding advancing_def by fastforce
    qed (use goodD [OF s(2)] d in simp)
  qed
  moreover have "young inc (ticks ls) arcs S (Suc n) st'"
    unfolding young_def
  proof (intro allI impI)
    fix v d x assume d: "Suc d \<le> Suc n" "at_distance arcs S (Suc d) v" and x: "cells st' v = Some x" "c_metric x = d + 2"
    obtain b where b: "b \<in> set arcs" "arc_to b = v" "c_hop x = arc_address b"
      by (rule steady_source [OF s(1) d(2) x])
    moreover have "b \<in> \<Union> (carried_full ` set ls)" by (rule subsetD [OF all b(1)])
    ultimately show "c_age x \<le> ticks ls v * inc v" using refreshedD [OF r, of b d x] d x by simp
  qed
  ultimately show ?thesis using s(1) by (simp add: stage_def)
qed

section \<open>Stabilisation\<close>

text \<open>
  Regular rounds: every arc carries a full announcement; every node makes at least one check, so many
  that \<open>E\<close> rounds add up to its timeout and so few that two rounds do not.
\<close>

definition regular :: "'v arc list \<Rightarrow> ('v \<Rightarrow> nat) \<Rightarrow> ('v \<Rightarrow> nat) \<Rightarrow> nat \<Rightarrow> 'v act list \<Rightarrow> bool" where
  "regular arcs inc lim E ls \<longleftrightarrow>
     set arcs \<subseteq> \<Union> (carried_full ` set ls)
     \<and> (\<forall>v\<in>nodes arcs. 1 \<le> ticks ls v \<and> lim v \<le> E * (ticks ls v * inc v) \<and> 2 * (ticks ls v * inc v) < lim v
          \<and> lim v < 2 ^ 64)"

lemma stage_rounds:
  assumes "acts_run arcs inc lim (concat rs) st st'" and "links_ok arcs" and "steady arcs S st"
    and "\<And>ls. ls \<in> set rs \<Longrightarrow> regular arcs inc lim E ls"
  shows "\<exists>B. stage inc B arcs S (length rs) st' \<and> (\<forall>v\<in>nodes arcs. rs \<noteq> [] \<longrightarrow> 2 * (B v * inc v) < lim v)
    \<and> (rs = [] \<longrightarrow> B = (\<lambda>_. 0))"
  using assms(1,4)
proof (induction rs arbitrary: st' rule: rev_induct)
  case Nil
  then show ?case using stage_start [OF assms(3)] by simp
next
  case (snoc ls rs)
  obtain st1 where st1: "acts_run arcs inc lim (concat rs) st st1" "acts_run arcs inc lim ls st1 st'"
    using snoc.prems(1) by (auto simp: acts_run_append)
  obtain B where B: "stage inc B arcs S (length rs) st1" "\<forall>v\<in>nodes arcs. rs \<noteq> [] \<longrightarrow> 2 * (B v * inc v) < lim v"
    "rs = [] \<longrightarrow> B = (\<lambda>_. 0)"
    using snoc.IH [OF st1(1)] snoc.prems(2) by auto
  have ls: "regular arcs inc lim E ls" using snoc.prems(2) by simp
  have "(B v + ticks ls v) * inc v < lim v" if "v \<in> nodes arcs" for v
  proof -
    have "2 * (ticks ls v * inc v) < lim v" using ls that by (simp add: regular_def)
    moreover have "B v * inc v = 0 \<or> 2 * (B v * inc v) < lim v" using B(2,3) that by (cases "rs = []") auto
    ultimately show ?thesis unfolding add_mult_distrib by linarith
  qed
  from stage_round [OF st1(2) assms(2) B(1) this] ls
  have "stage inc (ticks ls) arcs S (length (rs @ [ls])) st'" by (simp add: regular_def)
  then show ?case using ls by (intro exI [of _ "ticks ls"]) (simp add: regular_def)
qed

lemma ticks_concat: "ticks (concat rs) v = sum_list (map (\<lambda>ls. ticks ls v) rs)"
  by (induction rs) simp_all

lemma regular_epoch:
  assumes "length rs = E" and "0 < E" and "\<And>ls. ls \<in> set rs \<Longrightarrow> regular arcs inc lim E ls"
  shows "epoch arcs inc lim (concat rs)"
  unfolding epoch_def
proof
  fix v assume v: "v \<in> nodes arcs"
  have each: "1 \<le> ticks ls v" "lim v \<le> E * (ticks ls v * inc v)" "2 * (ticks ls v * inc v) < lim v" "lim v < 2 ^ 64"
    if "ls \<in> set rs" for ls
    using assms(3) [OF that] v by (simp_all add: regular_def)
  have sum: "length xs * lim v \<le> E * (sum_list (map (\<lambda>ls. ticks ls v) xs) * inc v)" if "set xs \<subseteq> set rs" for xs
    using that
  proof (induction xs)
    case (Cons ls xs)
    then show ?case using each(2) [of ls] by (simp add: algebra_simps)
  qed simp
  obtain ls where ls: "ls \<in> set rs" using assms(1,2) by (cases rs) auto
  have "E * lim v \<le> E * (ticks (concat rs) v * inc v)"
    using sum [of rs] assms(1) by (simp add: ticks_concat)
  moreover have "1 \<le> ticks (concat rs) v"
    using each(1) [OF ls] ls member_le_sum_list [of "ticks ls v" "map (\<lambda>ls. ticks ls v) rs"]
    by (simp add: ticks_concat)
  ultimately show "1 \<le> ticks (concat rs) v \<and> lim v \<le> ticks (concat rs) v * inc v \<and> lim v < 2 ^ 64"
    using assms(2) each(4) [OF ls] by simp
qed

lemma grouped: "length rs = j * E \<Longrightarrow> \<exists>gs. concat gs = rs \<and> length gs = j \<and> (\<forall>g\<in>set gs. length g = E)"
proof (induction j arbitrary: rs)
  case (Suc j)
  then have "length (drop E rs) = j * E" by simp
  from Suc.IH [OF this] obtain gs where gs: "concat gs = drop E rs" "length gs = j" "\<forall>g\<in>set gs. length g = E" by blast
  then have "concat (take E rs # gs) = rs" "length (take E rs # gs) = Suc j" "\<forall>g\<in>set (take E rs # gs). length g = E"
    using Suc.prems by simp_all
  then show ?case by blast
qed simp

text \<open>
  From any state, with owners that are attached and have no garbage: after \<open>15 E\<close> regular rounds no
  route is stale, and after \<open>n\<close> more every node up to \<open>n\<close> hops away has a shortest route.
\<close>

lemma rounds_stabilise:
  assumes run: "acts_run arcs inc lim (concat rs) st st'" and links: "links_ok arcs" and E: "0 < E"
    and rs: "length rs = 15 * E + n" "\<And>ls. ls \<in> set rs \<Longrightarrow> regular arcs inc lim E ls"
    and st: "anchored arcs S st"
  shows "\<exists>B. stage inc B arcs S n st'"
proof -
  let ?old = "take (15 * E) rs" and ?new = "drop (15 * E) rs"
  have "concat rs = concat ?old @ concat ?new" by (metis append_take_drop_id concat_append)
  then obtain st1 where st1: "acts_run arcs inc lim (concat ?old) st st1" "acts_run arcs inc lim (concat ?new) st1 st'"
    using run by (auto simp: acts_run_append)
  have "length ?old = 15 * E" using rs(1) by simp
  from grouped [OF this] obtain gs where gs: "concat gs = ?old" "length gs = 15" "\<forall>g\<in>set gs. length g = E" by blast
  have "epoch arcs inc lim (concat g)" if "g \<in> set gs" for g
  proof (rule regular_epoch [OF _ E])
    have "set g \<subseteq> set ?old" using that gs(1) by (metis concat_eq_concat_iff set_concat UN_upper)
    then show "regular arcs inc lim E ls" if "ls \<in> set g" for ls
      using rs(2) that set_take_subset [of "15 * E" rs] by blast
  qed (use gs(3) that in simp)
  moreover have "concat (map concat gs) = concat ?old"
    unfolding gs(1) [symmetric] by (induction gs) simp_all
  ultimately have "learned_all (nodes arcs) (sourced arcs S) st1"
    using epochs_sourced [of arcs inc lim "map concat gs" st st1 S] st1(1) anchoredD(1,2) [OF st]
      links_addressed [OF links] gs(2) by auto
  then have "steady arcs S st1"
    using anchored_run [OF st1(1) st links_addressed [OF links]] by (simp add: steady_def)
  from stage_rounds [OF st1(2) links this, of E] rs show ?thesis
    by (auto dest: in_set_dropD)
qed

end
