(* ===== verification/Rip_Liveness.thy ===== *)
theory Rip_Liveness
  imports Rip_Samples
begin

text \<open>
  What turns of the loop bring about in the long run. A neighbour that has fallen silent is
  forgotten: whatever else the loop does in between, enough timeout checks without a response leave
  no route that was learned.
\<close>

section \<open>Sequences of turns\<close>

text \<open>The turns taken one after another, as long as the loop goes on.\<close>

fun run_turns ::
  "'n os \<Rightarrow> 'd RoutingTableDriver \<Rightarrow> event list \<Rightarrow> ('d, 'n) RunState \<Rightarrow> ('d, 'n) RunState option" where
  "run_turns os drv [] st = Some st"
| "run_turns os drv (ev # evs) st =
     (case run_turn os drv ev st of
        (st', Continue _) \<Rightarrow> run_turns os drv evs st'
      | (_, Returned _) \<Rightarrow> None)"

lemma run_turns_Cons:
  "run_turns os drv (ev # evs) st = Some st' \<longleftrightarrow>
     (\<exists>st1 reply. run_turn os drv ev st = (st1, Continue reply) \<and> run_turns os drv evs st1 = Some st')"
  by (auto split: prod.splits turn.splits)

text \<open>A turn that does not handle a response.\<close>

fun silent :: "event \<Rightarrow> bool" where
  "silent (Received (Some packet)) = (\<not> RipPacket_is_response packet)"
| "silent _ = True"

section \<open>The timeout counters\<close>

text \<open>Every learned route has been through \<open>n\<close> checks, up to the saturation of its counter.\<close>

definition waited :: "'n os \<Rightarrow> nat \<Rightarrow> RipDatabase \<Rightarrow> bool" where
  "waited os n db \<longleftrightarrow>
     (\<forall>k r. hm_get (ok_routes db) k = Some r \<longrightarrow> \<not> is_local r \<longrightarrow>
        min (n * unat (timeout_check_interval_secs os)) (2 ^ 64 - 1) \<le> unat (timeout_cnt r))"

definition no_learned :: "RipDatabase \<Rightarrow> bool" where
  "no_learned db \<longleftrightarrow> (\<forall>k r. hm_get (ok_routes db) k = Some r \<longrightarrow> is_local r)"

text \<open>\<open>db'\<close> has no learned route that \<open>db\<close> did not have, with the same counter.\<close>

definition no_news :: "RipDatabase \<Rightarrow> RipDatabase \<Rightarrow> bool" where
  "no_news db db' \<longleftrightarrow>
     (\<forall>k r. hm_get (ok_routes db') k = Some r \<longrightarrow> \<not> is_local r \<longrightarrow>
        (\<exists>r0. hm_get (ok_routes db) k = Some r0 \<and> \<not> is_local r0 \<and> timeout_cnt r = timeout_cnt r0))"

lemma no_news_refl [simp]: "no_news db db"
  by (auto simp: no_news_def)

lemma no_news_trans: "no_news db db' \<Longrightarrow> no_news db' db'' \<Longrightarrow> no_news db db''"
  unfolding no_news_def by metis

lemma no_news_same_ok: "ok_routes db' = ok_routes db \<Longrightarrow> no_news db db'"
  by (auto simp: no_news_def)

lemma no_news_mark_all: "no_news db (mark_all_routes_as_unchanged db)"
  by (auto simp: no_news_def mark_all_routes_as_unchanged_def mark_unchanged_def)

lemma no_news_advertisement: "no_news (database s) (database (fst (send_multicast_advertisement os chg s)))"
  by (auto simp: send_multicast_advertisement_def map_err_def on_world_eq and_then_def no_news_mark_all
      split: sum.splits)

lemma no_news_triggered: "no_news (database (deamon st)) (database (deamon (fst (triggered_update os st))))"
  using no_news_advertisement [of "deamon st" os True]
  by (auto simp: triggered_update_def maybe_send_triggered_update_def on_world_eq sleep_timer_def
      split: prod.splits sum.splits)

lemma no_news_setup_network: "no_news (database s) (database (fst (setup_advertised_network os network s)))"
  using setup_network_cases [of os network s] by (auto simp: no_news_def db_store_def split: if_splits)

lemma no_news_silent_packet:
  assumes "\<not> RipPacket_is_response packet"
  shows "database (fst (handle_packet os drv packet s)) = database s"
  using assms by (simp add: handle_packet_def on_world_eq)

lemma no_news_collector: "no_news (database s) (database (fst (handle_garbage_collection_tick os (s, gc))))"
  by (rule no_news_same_ok) (simp add: gc_tick_database remove_expired_garbage_routes_def Let_def split: prod.splits)

text \<open>A silent turn other than a check brings no news.\<close>

lemma no_news_turn:
  assumes "silent ev" and "ev \<noteq> TimeoutFired" and "run_turn os drv ev st = (st', Continue reply)"
  shows "no_news (database (deamon st)) (database (deamon st'))"
proof -
  obtain st1 where arm: "select_arm os drv ev st = (st1, Continue reply)"
    and trig: "triggered_update os st1 = (st', Inr ())"
    using run_turn_continues [OF assms(3)] by blast
  have "no_news (database (deamon st)) (database (arm_deamon os drv ev st))"
  proof (cases ev)
    case (CtrlC r)
    then show ?thesis using select_arm_ok(3) [of os drv ev st reply r] arm by simp
  next
    case SigTerm
    then show ?thesis using select_arm_ok(3) [of os drv ev st reply] arm by simp
  next
    case (Received p)
    then show ?thesis using assms(1) by (cases p) (simp_all add: arm_deamon_def no_news_silent_packet)
  next
    case (HttpReceived r)
    then show ?thesis
      by (cases r) (simp_all add: arm_deamon_def http_request_database no_news_setup_network split: HttpRequestKind.splits)
  qed (use assms(2) in \<open>simp_all add: arm_deamon_def no_news_advertisement no_news_collector\<close>)
  then show ?thesis
    using no_news_triggered [of st1 os] select_arm_db(1) [of os drv ev st] arm trig
    by (auto intro: no_news_trans)
qed

text \<open>One check: every counter moves on, and a route at its limit leaves.\<close>

lemma check_waited:
  assumes "rib_ok (database s)" and "waited os n (database s)"
    and "snd (handle_route_timeout_tick os drv (s, gc)) = Inr ()"
  shows "waited os (Suc n) (database (fst (fst (handle_route_timeout_tick os drv (s, gc)))))"
    and "unat (route_timeout_secs os) \<le> Suc n * unat (timeout_check_interval_secs os) \<Longrightarrow>
      no_learned (database (fst (fst (handle_route_timeout_tick os drv (s, gc)))))"
proof -
  let ?s' = "fst (after_expiry os drv s)" and ?inc = "timeout_check_interval_secs os"
  have ok: "snd (after_expiry os drv s) = Inr ()" using assms(3) by (simp add: timeout_tick_frame)
  have stays: "\<exists>r0. r = age ?inc r0 \<and> hm_get (ok_routes (database s)) k = Some r0 \<and> \<not> timed_out_route os r0"
    if "hm_get (ok_routes (database ?s')) k = Some r" for k r
    using that after_expiry_route [OF assms(1) ok, of k] after_expiry_no_route [OF assms(1) ok, of k]
    by (cases "hm_get (ok_routes (database s)) k") (auto split: if_splits)
  have cnt: "unat (timeout_cnt (age ?inc r0)) = min (unat (timeout_cnt r0) + unat ?inc) (2 ^ 64 - 1)"
    if "\<not> is_local r0" for r0
    using that by (simp add: age_def unat_saturating_add)
  have count: "min (Suc n * unat ?inc) (2 ^ 64 - 1) \<le> unat (timeout_cnt r)"
    if r: "hm_get (ok_routes (database ?s')) k = Some r" "\<not> is_local r" for k r
  proof -
    obtain r0 where r0: "r = age ?inc r0" "hm_get (ok_routes (database s)) k = Some r0" using stays [OF r(1)] by blast
    then have "\<not> is_local r0" using r(2) by (simp add: age_def split: if_splits)
    then have "min (n * unat ?inc) (2 ^ 64 - 1) \<le> unat (timeout_cnt r0)"
      using assms(2) r0(2) by (auto simp: waited_def)
    then show ?thesis unfolding r0(1) cnt [OF \<open>\<not> is_local r0\<close>] by auto
  qed
  then show "waited os (Suc n) (database (fst (fst (handle_route_timeout_tick os drv (s, gc)))))"
    by (simp add: timeout_tick_frame waited_def)
  assume limit: "unat (route_timeout_secs os) \<le> Suc n * unat ?inc"
  have "unat (route_timeout_secs os) < 2 ^ LENGTH(64)" by (rule unsigned_less)
  then have "is_local r" if r: "hm_get (ok_routes (database ?s')) k = Some r" for k r
  proof (rule_tac ccontr)
    assume l: "\<not> is_local r"
    obtain r0 where r0: "r = age ?inc r0" "\<not> timed_out_route os r0" using stays [OF r] by blast
    then have "unat (timeout_cnt r) < unat (route_timeout_secs os)"
      using l by (auto simp: timed_out_route_def word_less_nat_alt not_le age_def split: if_splits)
    then show False using count [OF r l] limit \<open>unat (route_timeout_secs os) < 2 ^ LENGTH(64)\<close> by auto
  qed
  then show "no_learned (database (fst (fst (handle_route_timeout_tick os drv (s, gc)))))"
    by (simp add: timeout_tick_frame no_learned_def)
qed


section \<open>Silence\<close>

text \<open>After \<open>n\<close> checks; when that is enough, no learned route is left.\<close>

definition silence :: "'n os \<Rightarrow> nat \<Rightarrow> RipDatabase \<Rightarrow> bool" where
  "silence os n db \<longleftrightarrow>
     rib_ok db \<and> waited os n db
     \<and> (1 \<le> n \<and> unat (route_timeout_secs os) \<le> n * unat (timeout_check_interval_secs os) \<longrightarrow> no_learned db)"

lemma waited_no_news: "waited os n db \<Longrightarrow> no_news db db' \<Longrightarrow> waited os n db'"
  unfolding waited_def no_news_def by fastforce

lemma no_learned_no_news: "no_learned db \<Longrightarrow> no_news db db' \<Longrightarrow> no_learned db'"
  unfolding no_learned_def no_news_def by blast

lemma silence_no_news: "silence os n db \<Longrightarrow> no_news db db' \<Longrightarrow> rib_ok db' \<Longrightarrow> silence os n db'"
  unfolding silence_def using waited_no_news no_learned_no_news by blast

lemma silence_turn:
  assumes "silence os n (database (deamon st))" and "silent ev"
    and src: "\<And>p. ev = Received (Some p) \<Longrightarrow> sa_ip (source p) \<noteq> 0"
    and turn: "run_turn os drv ev st = (st', Continue reply)"
  shows "silence os (if ev = TimeoutFired then Suc n else n) (database (deamon st'))"
proof -
  have rib: "rib_ok (database (deamon st))" using assms(1) by (simp add: silence_def)
  have rib': "rib_ok (database (deamon st'))"
    using rib_ok_turn [OF rib src, of ev os drv] turn by simp
  show ?thesis
  proof (cases "ev = TimeoutFired")
    case True
    obtain st1 where arm: "select_arm os drv TimeoutFired st = (st1, Continue reply)"
      and trig: "triggered_update os st1 = (st', Inr ())"
      using run_turn_continues [OF turn] True by blast
    have ok: "snd (handle_route_timeout_tick os drv (deamon st, garbage_collection_timer st)) = Inr ()"
      using select_arm_ok(1) [of os drv TimeoutFired st reply] arm by simp
    have "silence os (Suc n) (database (deamon st1))"
      using check_waited [OF rib _ ok, of n] assms(1) rib_ok_after_expiry [OF rib, of os drv]
        select_arm_db(1) [of os drv TimeoutFired st] arm
      by (simp add: silence_def arm_deamon_def timeout_tick_frame)
    then show ?thesis
      using silence_no_news [OF _ no_news_triggered [of st1 os]] rib' trig True by simp
  next
    case False
    then show ?thesis
      using silence_no_news [OF assms(1) no_news_turn [OF assms(2) _ turn] rib'] by simp
  qed
qed

lemma silence_turns:
  assumes "run_turns os drv evs st = Some st'" and "list_all silent evs"
    and "list_all (\<lambda>ev. case ev of Received (Some p) \<Rightarrow> sa_ip (source p) \<noteq> 0 | _ \<Rightarrow> True) evs"
    and "silence os n (database (deamon st))"
  shows "silence os (n + count_list evs TimeoutFired) (database (deamon st'))"
  using assms
proof (induction evs arbitrary: st n)
  case (Cons ev evs)
  obtain st1 reply where turn: "run_turn os drv ev st = (st1, Continue reply)"
    and rest: "run_turns os drv evs st1 = Some st'"
    using Cons.prems(1) by (simp only: run_turns_Cons) blast
  have "silence os (if ev = TimeoutFired then Suc n else n) (database (deamon st1))"
    by (rule silence_turn [OF Cons.prems(4) _ _ turn]) (use Cons.prems(2,3) in auto)
  from Cons.IH [OF rest _ _ this] Cons.prems(2,3) show ?case by (auto split: if_splits)
qed simp

section \<open>Properties\<close>

text \<open>
  C12: a silent neighbour is forgotten. From any consistent state, let the loop take any turns that
  do not handle a response: periodic and triggered updates, timers, requests of other routers and of
  the administrator. If it goes on, and as many of the turns are timeout checks as the check
  interval needs to add up to the route timeout, no learned route is active any more. With the
  default settings of 15 and 180 seconds that is after 12 checks.
\<close>

theorem silent_neighbours_forgotten:
  assumes "rib_ok (database (deamon st))" and "run_turns os drv evs st = Some st'" and "list_all silent evs"
    and "list_all (\<lambda>ev. case ev of Received (Some p) \<Rightarrow> sa_ip (source p) \<noteq> 0 | _ \<Rightarrow> True) evs"
    and "TimeoutFired \<in> set evs"
    and "unat (route_timeout_secs os) \<le> count_list evs TimeoutFired * unat (timeout_check_interval_secs os)"
  shows "get_route (database (deamon st')) e = Some r \<Longrightarrow> is_local r"
proof -
  have "silence os 0 (database (deamon st))"
    using assms(1) by (simp add: silence_def waited_def)
  from silence_turns [OF assms(2-4) this]
  have "silence os (count_list evs TimeoutFired) (database (deamon st'))" by simp
  moreover have "1 \<le> count_list evs TimeoutFired"
    using assms(5) by (simp add: Suc_le_eq) (metis count_list_0_iff gr0I)
  ultimately have "no_learned (database (deamon st'))" using assms(6) by (simp add: silence_def)
  then show "get_route (database (deamon st')) e = Some r \<Longrightarrow> is_local r"
    by (auto simp: no_learned_def get_route_def)
qed

text \<open>With a check interval of 180 seconds one check is enough.\<close>

definition sample_slow_os :: "unit os" where
  "sample_slow_os =
     quiet_os\<lparr> env_var := (\<lambda>name. if name = ''RIP_TIMEOUT_CHECK_INTERVAL_SECS'' then Some ''180'' else None) \<rparr>"

lemma sample_slow_interval: "timeout_check_interval_secs sample_slow_os = 180" "route_timeout_secs sample_slow_os = 180"
  by (simp_all add: sample_slow_os_def timeout_check_interval_secs_def route_timeout_secs_def env_u64_or_default_def
      u64_from_str_def digits_value_def is_digit_char_def quiet_os_def RIP_ROUTE_TIMEOUT_SECS_def)

theorem silent_neighbours_forgotten_witness:
  "let st = sample_run sample_old_db None; evs = [TimeoutFired]
   in get_route (database (deamon st)) (sample_entry 1 0 0) = Some sample_old_route \<and> \<not> is_local sample_old_route
      \<and> (\<exists>st'. run_turns sample_slow_os table_driver evs st = Some st'
           \<and> get_route (database (deamon st')) (sample_entry 1 0 0) \<noteq> Some sample_old_route)"
proof -
  let ?st = "sample_run sample_old_db None" and ?evs = "[TimeoutFired]"
  have st: "rib_ok (database (deamon ?st))" "get_route (database (deamon ?st)) (sample_entry 1 0 0) = Some sample_old_route"
    using sample_old_db_ok by (simp_all add: sample_run_def sample_deamon_def get_route_def)
  have local: "\<not> is_local sample_old_route" by (simp add: sample_old_route_def)
  have "run_turn sample_slow_os table_driver TimeoutFired ?st =
      (fst (run_turn sample_slow_os table_driver TimeoutFired ?st), Continue None)"
    by (simp add: sample_slow_interval sample_slow_os_def run_evals cong: weak_congs)
  then have "run_turns sample_slow_os table_driver ?evs ?st =
      Some (fst (run_turn sample_slow_os table_driver TimeoutFired ?st))"
    by (simp only: run_turns_Cons run_turns.simps(1)) blast
  then obtain st' where run: "run_turns sample_slow_os table_driver ?evs ?st = Some st'" by blast
  have "get_route (database (deamon st')) (sample_entry 1 0 0) = Some r \<Longrightarrow> is_local r" for r
    by (rule silent_neighbours_forgotten [OF st(1) run]) (simp_all add: sample_slow_interval)
  then show ?thesis using st(2) local run by (auto simp: Let_def)
qed

end
