(* ===== verification/Rip_Stability.thy ===== *)
theory Rip_Stability
  imports Rip_Network Rip_Rounds Rip_Liveness
begin

text \<open>
  Networks of daemons in which routes time out, are withdrawn and are garbage. Seen at one
  destination the daemons perform the steps of \<open>Rip_Cells\<close>; so stale routes go away, and from any
  consistent state the network finds shortest routes.
\<close>

section \<open>A database seen at one destination\<close>

definition cell :: "RipDbEntry \<Rightarrow> cell" where
  "cell r =
     \<lparr> c_metric = unat (metric (rip_entry r)), c_hop = next_hop (rip_entry r), c_if = if_index r,
       c_age = unat (timeout_cnt r), c_local = is_local r \<rparr>"

definition cell_of :: "RipDatabase \<Rightarrow> RipRouteKey \<Rightarrow> cell option" where
  "cell_of db k = map_option cell (hm_get (ok_routes db) k)"

definition has_garb :: "RipDatabase \<Rightarrow> RipRouteKey \<Rightarrow> bool" where
  "has_garb db k \<longleftrightarrow> hm_get (garbage_routes db) k \<noteq> None"

lemma cell_of_rib_ok:
  assumes "rib_ok db" and "cell_of db k = Some x"
  shows "if c_local x then c_metric x = 1 \<and> c_hop x = 0
    else 2 \<le> c_metric x \<and> c_metric x \<le> 15 \<and> \<not> has_garb db k"
proof -
  obtain r where r: "hm_get (ok_routes db) k = Some r" "x = cell r" using assms(2) by (auto simp: cell_of_def)
  have "hm_get (garbage_routes db) k = None" if "\<not> is_local r"
    using rib_ok_both [OF assms(1) r(1)] that by (cases "hm_get (garbage_routes db) k") auto
  then show ?thesis
    using rib_ok_ok_route [OF assms(1) r(1)] r(2)
    by (auto simp: cell_def has_garb_def route_ok_def local_entry_ok_def remote_entry_ok_def
        RIP_INFINITY_METRIC_def word_le_nat_alt word_less_nat_alt)
qed

lemma new_cell:
  "cell (new_db_entry e ifx ifn False) =
     \<lparr> c_metric = unat (metric e), c_hop = next_hop e, c_if = ifx, c_age = 0, c_local = False \<rparr>"
  by (simp add: cell_def new_db_entry_def)

lemma cell_of_learn:
  "cell_of (db_learn e ifx ifn db) k =
     (if k = build_route_key e then Some (cell (new_db_entry e ifx ifn False)) else cell_of db k)"
  by (simp add: cell_of_def db_learn_def db_store_def db_drop_garbage_def new_db_entry_def)

lemma cell_of_replace:
  "cell_of (db_replace e ifx ifn db) k =
     (if k = build_route_key e then Some (cell (new_db_entry e ifx ifn False)) else cell_of db k)"
  by (simp add: cell_of_def db_replace_def db_store_def db_drop_ok_def new_db_entry_def)

lemma cell_of_withdraw: "cell_of (db_withdraw k' g db) k = (if k = k' then None else cell_of db k)"
  by (simp add: cell_of_def db_withdraw_def)

lemma cell_of_refresh:
  "cell_of (refresh_route_timeout e db) k =
     (if k = build_route_key e then map_option (\<lambda>x. x\<lparr> c_age := 0 \<rparr>) (cell_of db k) else cell_of db k)"
  by (simp add: cell_of_def refresh_route_timeout_def option.map_comp comp_def cell_def)

lemma has_garb_db [simp]:
  "has_garb (db_learn e ifx ifn db) k \<longleftrightarrow> k \<noteq> build_route_key e \<and> has_garb db k"
  "has_garb (db_replace e ifx ifn db) k = has_garb db k"
  "has_garb (db_withdraw k' g db) k \<longleftrightarrow> k = k' \<or> has_garb db k"
  "has_garb (refresh_route_timeout e db) k = has_garb db k"
  by (auto simp: has_garb_def db_learn_def db_replace_def db_store_def db_drop_garbage_def db_drop_ok_def
      db_withdraw_def refresh_route_timeout_def)

section \<open>Hearing an entry\<close>

text \<open>The database after a response entry has been handled over a driver that does not fail.\<close>

definition db_heard :: "RipEntry \<Rightarrow> u32 \<Rightarrow> string \<Rightarrow> Instant \<Rightarrow> RipDatabase \<Rightarrow> RipDatabase" where
  "db_heard e ifx ifn now db =
     (case get_route db e of
        None \<Rightarrow> if metric e \<ge> RIP_INFINITY_METRIC then db else db_learn e ifx ifn db
      | Some old \<Rightarrow>
          if next_hop (rip_entry old) = next_hop e then
            if metric e \<ge> RIP_INFINITY_METRIC then db_withdraw (build_route_key e) (to_garbage now old) db
            else if rip_entry old = e \<and> if_index old = ifx \<and> if_name old = ifn then refresh_route_timeout e db
            else db_replace e ifx ifn (refresh_route_timeout e db)
          else if metric e < RIP_INFINITY_METRIC \<and> metric e < metric (rip_entry old) then db_replace e ifx ifn db
          else db)"

lemma never_fails_delete:
  assumes "never_fails drv"
  obtains rt where "delete_result drv r s = (rt, Inr ())"
proof -
  have "snd (drv_delete_route drv (driver (routing_table s)) r) = Inr ()" using assms by (simp add: never_fails_def)
  then show ?thesis
    using that by (cases "drv_delete_route drv (driver (routing_table s)) r")
      (simp add: delete_result_def RoutingTable_delete_route_def)
qed

lemma replace_database:
  assumes "never_fails drv" and "get_route (database s) (rip_entry old) = Some r"
    and "build_route_key (rip_entry old) = build_route_key e"
  shows "database (fst (replace_route_from_response drv old e ifx ifn s)) = db_replace e ifx ifn (database s)"
  by (rule never_fails_delete [OF assms(1), of old s])
     (simp add: replace_effect [OF assms(2,3)] split: prod.splits)

lemma update_database:
  assumes s: "rib_ok (database s)" and nh: "next_hop e \<noteq> 0" and drv: "never_fails drv"
  shows "database (fst (update_route_from_response os drv e info s)) =
    db_heard e (info_if_index info) (info_if_name info) (snd (instant_now os (world s))) (database s)"
proof (cases "metric e \<ge> RIP_INFINITY_METRIC")
  case True
  show ?thesis
  proof (cases "get_route (database s) e")
    case None
    then show ?thesis
      using True by (simp add: update_route_from_response_def Let_def poison_effect [OF s nh] db_heard_def)
  next
    case (Some old)
    show ?thesis
      by (rule never_fails_delete [OF drv, of old s])
         (use True Some in \<open>simp add: update_route_from_response_def Let_def poison_effect [OF s nh] db_heard_def
            route_is_from_current_next_hop_def leD split: prod.splits\<close>)
  qed
next
  case False
  show ?thesis
  proof (cases "get_route (database s) e")
    case None
    then show ?thesis using False by (simp add: learn_effect db_heard_def split: prod.splits)
  next
    case (Some old)
    have key: "build_route_key (rip_entry old) = build_route_key e" using rib_ok_route [OF s Some] by simp
    have old: "get_route (database s) (rip_entry old) = Some old" using Some key by (simp add: get_route_def)
    let ?s = "s\<lparr> database := refresh_route_timeout e (database s) \<rparr>"
    have "get_route (database ?s) (rip_entry old) = Some (old\<lparr> timeout_cnt := 0 \<rparr>)"
      using Some key by (simp add: refresh_get_route)
    from replace_database [OF drv this key] replace_database [OF drv old key] show ?thesis
      using False Some
      by (auto simp: update_route_from_response_def Let_def db_heard_def route_is_from_current_next_hop_def not_le)
  qed
qed

lemma cell_of_heard:
  assumes db: "rib_ok db" and nh: "next_hop e \<noteq> 0"
  shows "cell_of (db_heard e ifx ifn now db) (build_route_key e) =
    (if metric e \<ge> RIP_INFINITY_METRIC
     then (case cell_of db (build_route_key e) of
             None \<Rightarrow> None | Some x \<Rightarrow> if c_hop x = next_hop e then None else Some x)
     else (case cell_of db (build_route_key e) of
             None \<Rightarrow> Some (cell (new_db_entry e ifx ifn False))
           | Some x \<Rightarrow>
               if c_hop x = next_hop e \<or> unat (metric e) < c_metric x
               then Some (cell (new_db_entry e ifx ifn False)) else Some x))"
proof (cases "get_route db e")
  case None
  then have "cell_of db (build_route_key e) = None" by (simp add: cell_of_def get_route_def)
  then show ?thesis using None by (simp add: db_heard_def cell_of_learn)
next
  case (Some old)
  then have old: "cell_of db (build_route_key e) = Some (cell old)" by (simp add: cell_of_def get_route_def)
  have "\<not> is_local old" if "next_hop (rip_entry old) = next_hop e"
    using rib_ok_route [OF db Some] that nh by (auto simp: route_ok_def local_entry_ok_def)
  then have "(cell old)\<lparr> c_age := 0 \<rparr> = cell (new_db_entry e ifx ifn False)"
    if "rip_entry old = e" "if_index old = ifx" using that by (simp add: new_cell cell_def)
  then show ?thesis
    using Some old
    by (auto simp: db_heard_def cell_of_withdraw cell_of_replace cell_of_refresh not_le leD)
       (auto simp: cell_def word_less_nat_alt)
qed

lemma db_heard_other:
  assumes "k \<noteq> build_route_key e"
  shows "cell_of (db_heard e ifx ifn now db) k = cell_of db k" "has_garb (db_heard e ifx ifn now db) k = has_garb db k"
  using assms
  by (auto simp: db_heard_def cell_of_learn cell_of_replace cell_of_withdraw cell_of_refresh split: option.splits)

text \<open>An entry of an announcement over an arc is an offer.\<close>

lemma hear_entry_cell:
  fixes os :: "'n os" and e :: RipEntry and s :: "('d, 'n) RipDeamon"
  assumes s: "rib_ok (database s)" and a: "arc_address a \<noteq> 0" and drv: "never_fails drv"
  defines "db' \<equiv> database (fst (hear_entry os drv a e s))"
  shows "snd (hear_entry os drv a e s) = Inr ()" and "rib_ok db'"
    and "cell_of db' k =
      (if is_entry_valid e \<and> build_route_key e = k then take_offer a (unat (metric e)) (cell_of (database s) k)
       else cell_of (database s) k)"
    and "cell_of (database s) k = Some x \<Longrightarrow> c_local x \<Longrightarrow> has_garb db' k = has_garb (database s) k"
proof -
  let ?e = "e\<lparr> metric := update_metric (metric e), next_hop := arc_address a \<rparr>"
  have key: "build_route_key ?e = build_route_key e" by (simp add: build_route_key_def)
  have "(snd (hear_entry os drv a e s) = Inr () \<and> rib_ok db')
    \<and> cell_of db' k =
      (if is_entry_valid e \<and> build_route_key e = k then take_offer a (unat (metric e)) (cell_of (database s) k)
       else cell_of (database s) k)
    \<and> (cell_of (database s) k = Some x \<longrightarrow> c_local x \<longrightarrow> has_garb db' k = has_garb (database s) k)"
  proof (cases "is_entry_valid e")
    case False
    then show ?thesis using s by (simp add: db'_def hear_entry_def)
  next
    case True
    have route: "response_entry_to_route e (arc_packet a [e]) = Some ?e"
      using True by (simp add: response_entry_to_route_def arc_packet_def)
    have ok: "rib_ok (database (fst (update_route_from_response os drv ?e (arc_in a) s)))"
      by (rule rib_ok_response_step [OF s _ route]) (use a in \<open>simp add: arc_packet_def\<close>)
    have success: "snd (update_route_from_response os drv ?e (arc_in a) s) = Inr ()"
      using update_error [OF s, of ?e os drv "arc_in a"] never_fails_error [OF drv] a
      by (cases "snd (update_route_from_response os drv ?e (arc_in a) s)") auto
    let ?db = "db_heard ?e (info_if_index (arc_in a)) (info_if_name (arc_in a)) (snd (instant_now os (world s))) (database s)"
    have db': "db' = ?db"
      using True update_database [OF s _ drv, of ?e os "arc_in a"] a by (simp add: db'_def hear_entry_def)
    have inf: "RIP_INFINITY_METRIC \<le> metric ?e \<longleftrightarrow> 15 \<le> unat (metric e)"
      by (auto simp: word_le_nat_alt update_metric_unat RIP_INFINITY_METRIC_def)
    have new: "cell (new_db_entry ?e (info_if_index (arc_in a)) (info_if_name (arc_in a)) False) = confirmed a (unat (metric e))"
      if "\<not> 15 \<le> unat (metric e)"
      using that by (simp add: new_cell confirmed_def update_metric_unat)
    have offer: "cell_of ?db (build_route_key e) = take_offer a (unat (metric e)) (cell_of (database s) (build_route_key e))"
      using cell_of_heard [OF s, of ?e] new a
      unfolding key inf by (auto simp: take_offer_def update_metric_unat split: option.splits)
    have garb: "has_garb ?db k = has_garb (database s) k"
      if x: "cell_of (database s) (build_route_key e) = Some x" "c_local x" for x
    proof -
      obtain old where old: "get_route (database s) ?e = Some old" "x = cell old"
        using x(1) by (auto simp: cell_of_def get_route_def key)
      have "next_hop (rip_entry old) \<noteq> arc_address a"
        using rib_ok_route [OF s old(1)] x(2) old(2) a by (auto simp: cell_def route_ok_def local_entry_ok_def)
      then show ?thesis using old(1) by (simp add: db_heard_def)
    qed
    have result: "snd (hear_entry os drv a e s) = Inr () \<and> rib_ok db'"
      using ok success True by (simp add: hear_entry_def db'_def)
    have "cell_of ?db k =
        (if is_entry_valid e \<and> build_route_key e = k then take_offer a (unat (metric e)) (cell_of (database s) k)
         else cell_of (database s) k)
      \<and> (cell_of (database s) k = Some x \<longrightarrow> c_local x \<longrightarrow> has_garb ?db k = has_garb (database s) k)"
    proof (cases "build_route_key e = k")
      case same: True
      then show ?thesis using offer garb True by auto
    next
      case False
      then have "k \<noteq> build_route_key ?e" using key by simp
      from db_heard_other [OF this] False show ?thesis by simp
    qed
    then show ?thesis using result unfolding db' by blast
  qed
  then show "snd (hear_entry os drv a e s) = Inr ()" and "rib_ok db'"
    and "cell_of db' k =
      (if is_entry_valid e \<and> build_route_key e = k then take_offer a (unat (metric e)) (cell_of (database s) k)
       else cell_of (database s) k)"
    and "cell_of (database s) k = Some x \<Longrightarrow> c_local x \<Longrightarrow> has_garb db' k = has_garb (database s) k"
    by blast+
qed

definition offered_metrics :: "RipRouteKey \<Rightarrow> RipEntry list \<Rightarrow> nat list" where
  "offered_metrics k es = map (\<lambda>e. unat (metric e)) (filter (\<lambda>e. is_entry_valid e \<and> build_route_key e = k) es)"

lemma local_takes_nothing:
  "rib_ok db \<Longrightarrow> arc_address a \<noteq> 0 \<Longrightarrow> cell_of db k = Some x \<Longrightarrow> c_local x \<Longrightarrow> take_offer a m (Some x) = Some x"
  using cell_of_rib_ok [of db k x] by (simp add: take_offer_def)

lemma hear_entries_cell:
  assumes s: "rib_ok (database s)" and a: "arc_address a \<noteq> 0" and drv: "never_fails drv"
  shows "snd (for_each (hear_entry os drv a) es s) = Inr ()
    \<and> rib_ok (database (fst (for_each (hear_entry os drv a) es s)))
    \<and> cell_of (database (fst (for_each (hear_entry os drv a) es s))) k =
        fold (take_offer a) (offered_metrics k es) (cell_of (database s) k)
    \<and> (\<forall>x. cell_of (database s) k = Some x \<longrightarrow> c_local x \<longrightarrow>
          has_garb (database (fst (for_each (hear_entry os drv a) es s))) k = has_garb (database s) k)"
  using s
proof (induction es arbitrary: s)
  case Nil
  then show ?case by (simp add: offered_metrics_def)
next
  case (Cons e es)
  note step = hear_entry_cell [OF Cons.prems a drv, where os = os and e = e]
  obtain s1 where s1: "hear_entry os drv a e s = (s1, Inr ())"
    using step(1) by (cases "hear_entry os drv a e s") auto
  then have run: "for_each (hear_entry os drv a) (e # es) s = for_each (hear_entry os drv a) es s1" by simp
  have cell1: "cell_of (database s1) k =
      (if is_entry_valid e \<and> build_route_key e = k then take_offer a (unat (metric e)) (cell_of (database s) k)
       else cell_of (database s) k)"
    using step(3) [of k] s1 by simp
  have "cell_of (database s1) k = Some x \<and> has_garb (database s1) k = has_garb (database s) k"
    if "cell_of (database s) k = Some x" "c_local x" for x
    using cell1 local_takes_nothing [OF Cons.prems a that] step(4) [OF that] s1 that by simp
  moreover have "rib_ok (database s1)" using step(2) s1 by simp
  ultimately show ?case
    using Cons.IH [of s1] cell1 unfolding run by (auto simp: offered_metrics_def)
qed

section \<open>What an announcement offers\<close>

lemma values_at_key:
  assumes "hm_wf m" and "\<And>k' r. hm_get m k' = Some r \<Longrightarrow> build_route_key (rip_entry r) = k'"
  shows "filter (\<lambda>r. build_route_key (rip_entry r) = k) (hm_values m) = (case hm_get m k of None \<Rightarrow> [] | Some r \<Rightarrow> [r])"
proof -
  have "filter (\<lambda>r. build_route_key (rip_entry r) = k) (hm_values m) = map snd (filter (\<lambda>(k', r). k' = k) m)"
    using assms(2) by (auto simp: hm_values_def filter_map o_def simp flip: hm_get_in_set [OF assms(1)]
        intro!: arg_cong [where f = "map snd"] filter_cong)
  also have "filter (\<lambda>(k', r). k' = k) m = (case map_of m k of None \<Rightarrow> [] | Some r \<Rightarrow> [(k, r)])"
    using assms(1) unfolding hm_wf_def
  proof (induction m)
    case (Cons p m)
    obtain k' r where p: "p = (k', r)" by fastforce
    show ?case
    proof (cases "k' = k")
      case True
      then have "filter (\<lambda>(k', r). k' = k) m = []" using Cons.prems p by (force simp: filter_empty_conv)
      then show ?thesis using p True by simp
    qed (use Cons p in simp)
  qed simp
  also have "map snd (case map_of m k of None \<Rightarrow> [] | Some r \<Rightarrow> [(k, r)]) = (case map_of m k of None \<Rightarrow> [] | Some r \<Rightarrow> [r])"
    by (simp split: option.splits)
  finally show ?thesis by (simp add: hm_get_def)
qed

lemma announced_valid:
  assumes "build_route_key (rip_entry r) = k" and "valid_key k" and "1 \<le> metric (rip_entry r)" "metric (rip_entry r) \<le> 16"
  shows "is_entry_valid (announced (rip_entry r))"
  using assms by (auto simp: valid_key_def is_entry_valid_def announced_def is_metric_valid_def build_route_key_def
      RIP_INFINITY_METRIC_def)

lemma offered_by_map:
  assumes m: "hm_wf m" "\<And>k' r. hm_get m k' = Some r \<Longrightarrow> build_route_key (rip_entry r) = k'"
    and metric: "\<And>r. hm_get m k = Some r \<Longrightarrow> 1 \<le> metric (rip_entry r) \<and> metric (rip_entry r) \<le> 16" and k: "valid_key k"
  shows "offered_metrics k (map (\<lambda>r. announced (rip_entry r)) (filter (sendable out chg) (hm_values m))) =
    (case hm_get m k of None \<Rightarrow> [] | Some r \<Rightarrow> if sendable out chg r then [unat (metric (rip_entry r))] else [])"
proof -
  let ?valid = "\<lambda>r. is_entry_valid (announced (rip_entry r))"
  have "offered_metrics k (map (\<lambda>r. announced (rip_entry r)) (filter (sendable out chg) (hm_values m))) =
      map (\<lambda>r. unat (metric (rip_entry r)))
        (filter (\<lambda>r. sendable out chg r \<and> ?valid r) (filter (\<lambda>r. build_route_key (rip_entry r) = k) (hm_values m)))"
    by (simp add: offered_metrics_def filter_map o_def announced_def conj_ac)
  also have "\<dots> = map (\<lambda>r. unat (metric (rip_entry r)))
        (filter (\<lambda>r. sendable out chg r \<and> ?valid r) (case hm_get m k of None \<Rightarrow> [] | Some r \<Rightarrow> [r]))"
    by (simp only: values_at_key [OF m])
  also have "\<dots> = (case hm_get m k of None \<Rightarrow> [] | Some r \<Rightarrow> if sendable out chg r then [unat (metric (rip_entry r))] else [])"
    using announced_valid [OF m(2) k] metric by (auto split: option.splits)
  finally show ?thesis .
qed

lemma announcement_hears:
  assumes db: "rib_ok db" and k: "valid_key k"
    and c': "c' = fold (take_offer a) (offered_metrics k (get_routes_for_advertisement db (arc_out a) chg)) c"
  shows "hears a chg (cell_of db k) (has_garb db k) c c'"
proof -
  note wf = rib_ok_wf [OF db]
  have active: "1 \<le> metric (rip_entry r) \<and> metric (rip_entry r) \<le> 16" if "hm_get (ok_routes db) k = Some r" for r
    using rib_ok_ok_route [OF db that]
    by (auto simp: route_ok_def local_entry_ok_def remote_entry_ok_def RIP_INFINITY_METRIC_def word_le_nat_alt
        word_less_nat_alt split: if_splits)
  have garbage: "metric (rip_entry g) = 16" if "hm_get (garbage_routes db) k = Some g" for g
    using db_wf_garbage [OF wf that] by (simp add: garbage_entry_def)
  let ?ms = "offered_metrics k (get_routes_for_advertisement db (arc_out a) chg)"
  have "?ms =
      (case hm_get (ok_routes db) k of None \<Rightarrow> [] | Some r \<Rightarrow> if sendable (arc_out a) chg r then [unat (metric (rip_entry r))] else [])
      @ (case hm_get (garbage_routes db) k of None \<Rightarrow> [] | Some g \<Rightarrow> if sendable (arc_out a) chg g then [16] else [])"
    using offered_by_map [of "ok_routes db" k "arc_out a" chg] offered_by_map [of "garbage_routes db" k "arc_out a" chg]
      db_wf_maps [OF wf] db_wf_ok [OF wf] db_wf_garbage [OF wf] active garbage k
    by (auto simp: advertisement_split offered_metrics_def ok_entry_def garbage_entry_def split: option.splits)
  then have "set ?ms \<subseteq> set (offered a (cell_of db k)) \<union> (if has_garb db k then {16} else {})"
    "\<not> chg \<and> \<not> has_garb db k \<longrightarrow> ?ms = offered a (cell_of db k)"
    by (auto simp: offered_def cell_of_def cell_def has_garb_def sendable_def split: option.splits)
  then show ?thesis unfolding hears_def c' by blast
qed

section \<open>Networks at one destination\<close>

definition net_dest :: "RipRouteKey \<Rightarrow> ('v, 'd, 'n) network \<Rightarrow> 'v dest" where
  "net_dest k net =
     \<lparr> cells = (\<lambda>v. cell_of (database (net v)) k), garb = (\<lambda>v. has_garb (database (net v)) k) \<rparr>"

definition consistent :: "('v, 'd, 'n) network \<Rightarrow> bool" where
  "consistent net \<longleftrightarrow> (\<forall>v. rib_ok (database (net v)))"

lemma consistent_dest_ok:
  assumes "consistent net"
  shows "dest_ok (net_dest k net)"
  unfolding dest_ok_def
proof (intro allI impI)
  fix v x assume "cells (net_dest k net) v = Some x"
  then show "if c_local x then c_metric x = 1 \<and> c_hop x = 0
      else 2 \<le> c_metric x \<and> c_metric x \<le> 15 \<and> \<not> garb (net_dest k net) v"
    using cell_of_rib_ok [of "database (net v)" k x] assms by (simp add: consistent_def net_dest_def)
qed

lemma consistent_update: "consistent net \<Longrightarrow> rib_ok (database s) \<Longrightarrow> consistent (net(v := s))"
  by (simp add: consistent_def)

text \<open>An event at one node that leaves its cell as it is and brings no garbage.\<close>

lemma idle_act:
  assumes "consistent net" and "rib_ok (database s)" and "cell_of (database s) k = cell_of (database (net v)) k"
    and "has_garb (database s) k \<Longrightarrow> has_garb (database (net v)) k"
  shows "act_step arcs inc lim Idle (net_dest k net) (net_dest k (net(v := s)))"
  using consistent_dest_ok [OF consistent_update [OF assms(1,2)], of k v] assms(3,4)
  by (auto simp: act_step_def net_dest_def fun_eq_iff)

lemma sent_cells:
  "cell_of (database (fst (send_multicast_advertisement os chg s))) k = cell_of (database s) k"
  "has_garb (database (fst (send_multicast_advertisement os chg s))) k = has_garb (database s) k"
proof -
  have cell_mark: "cell (mark_unchanged r) = cell r" for r by (simp add: cell_def mark_unchanged_def)
  have "cell_of (mark_all_routes_as_unchanged db) k = cell_of db k" "has_garb (mark_all_routes_as_unchanged db) k = has_garb db k" for db
    using cell_mark by (simp_all add: mark_all_routes_as_unchanged_def cell_of_def has_garb_def option.map_comp comp_def)
  then show "cell_of (database (fst (send_multicast_advertisement os chg s))) k = cell_of (database s) k"
    "has_garb (database (fst (send_multicast_advertisement os chg s))) k = has_garb (database s) k"
    by (auto simp: send_multicast_advertisement_def map_err_def on_world_eq and_then_def split: sum.splits)
qed

lemma hear_act:
  assumes a: "a \<in> set arcs" "addressed arcs" and drv: "never_fails drv" and k: "valid_key k" and net: "consistent net"
    and db: "rib_ok db" "cell_of db k = cell_of (database (net (arc_from a))) k"
      "has_garb db k = has_garb (database (net (arc_from a))) k"
  shows "consistent (hear os drv checks db chg a net)
    \<and> act_step arcs inc lim (Carry a chg) (net_dest k net) (net_dest k (hear os drv checks db chg a net))"
proof -
  let ?s = "net (arc_to a)" and ?es = "get_routes_for_advertisement db (arc_out a) chg"
  let ?s' = "fst (deliver (os (arc_to a)) drv checks a
      (build_response_buffers (endianness (os (arc_from a))) db (arc_out a) chg) ?s)"
  have adr: "arc_address a \<noteq> 0" using a by (auto simp: addressed_def list_all_iff)
  have rib: "rib_ok (database ?s)" using net by (simp add: consistent_def)
  note heard = hear_entries_cell [OF rib adr drv, of "os (arc_to a)" ?es k, folded deliver_advertisement
      [of "os (arc_to a)" drv checks a "endianness (os (arc_from a))" db "arc_out a" chg ?s]]
  have net': "hear os drv checks db chg a net = net(arc_to a := ?s')" by (simp add: hear_def)
  have ok: "consistent (net(arc_to a := ?s'))" using net heard by (intro consistent_update) auto
  moreover have "hears a chg (cell_of db k) (has_garb db k) (cell_of (database ?s) k) (cell_of (database ?s') k)"
    using heard by (intro announcement_hears [OF db(1) k]) auto
  ultimately show ?thesis
    using consistent_dest_ok [OF ok, of k] a(1) heard db(2,3) unfolding net'
    by (auto simp: act_step_def net_dest_def)
qed

lemma hear_acts:
  assumes arcs: "addressed arcs" and drv: "never_fails drv" and k: "valid_key k" and db: "rib_ok db"
    and heard: "list_all (\<lambda>a. a \<in> set arcs \<and> arc_from a = u) heard"
    and net: "consistent net" "cell_of db k = cell_of (database (net u)) k" "has_garb db k = has_garb (database (net u)) k"
  shows "consistent (fold (hear os drv checks db chg) heard net)
    \<and> acts_run arcs inc lim (map (\<lambda>a. Carry a chg) heard) (net_dest k net)
        (net_dest k (fold (hear os drv checks db chg) heard net))"
  using heard net
proof (induction heard arbitrary: net)
  case (Cons a heard)
  have a: "a \<in> set arcs" "arc_from a = u" using Cons.prems(1) by simp_all
  let ?net = "hear os drv checks db chg a net"
  have src: "cell_of db k = cell_of (database (net (arc_from a))) k" "has_garb db k = has_garb (database (net (arc_from a))) k"
    using Cons.prems(3,4) a(2) by simp_all
  note step = hear_act [OF a(1) arcs drv k Cons.prems(2) db src, of os checks chg inc lim]
  have "arc_to a \<noteq> u" using a arcs by (auto simp: addressed_def list_all_iff)
  then have "?net u = net u" by (simp add: hear_def)
  then have "consistent (fold (hear os drv checks db chg) heard ?net)
      \<and> acts_run arcs inc lim (map (\<lambda>a. Carry a chg) heard) (net_dest k ?net)
          (net_dest k (fold (hear os drv checks db chg) heard ?net))"
    using Cons.IH [of ?net] Cons.prems step by simp
  then show ?case using step by auto
qed simp

lemma check_act:
  assumes drv: "never_fails drv" and net: "consistent net"
    and inc: "inc v = unat (timeout_check_interval_secs os)" and lim: "lim v = unat (route_timeout_secs os)"
  defines "net' \<equiv> net(v := fst (fst (handle_route_timeout_tick os drv (net v, None))))"
  shows "consistent net' \<and> act_step arcs inc lim (Tick v) (net_dest k net) (net_dest k net')"
proof -
  let ?db = "database (net v)" and ?db' = "database (fst (after_expiry os drv (net v)))"
  have rib: "rib_ok ?db" using net by (simp add: consistent_def)
  have ok: "snd (after_expiry os drv (net v)) = Inr ()"
    using after_expiry_error [OF rib, of os drv] drv unfolding never_fails_def
    by (cases "snd (after_expiry os drv (net v))") auto
  have net': "database (net' w) = (if w = v then ?db' else database (net w))" for w
    by (simp add: net'_def timeout_tick_frame)
  have cons: "consistent net'"
    using net rib_ok_after_expiry [OF rib, of os drv] unfolding net'_def
    by (intro consistent_update) (simp_all add: timeout_tick_frame)
  have cell: "cell_of ?db' k = tick (inc v) (lim v) (cell_of ?db k)
      \<and> (\<forall>x. cell_of ?db k = Some x \<longrightarrow> c_local x \<longrightarrow> has_garb ?db' k \<longrightarrow> has_garb ?db k)"
  proof (cases "hm_get (ok_routes ?db) k")
    case None
    then show ?thesis using after_expiry_no_route [OF rib ok None] by (simp add: cell_of_def tick_def)
  next
    case (Some r)
    let ?r' = "age (timeout_check_interval_secs os) r"
    have r': "cell ?r' = (if is_local r then cell r
        else (cell r)\<lparr> c_age := min (unat (timeout_cnt r) + inc v) (2 ^ 64 - 1) \<rparr>)"
      by (simp add: cell_def age_def unat_saturating_add inc)
    have "timed_out_route os r \<longleftrightarrow> \<not> is_local r \<and> lim v \<le> min (unat (timeout_cnt r) + inc v) (2 ^ 64 - 1)"
      by (auto simp: timed_out_route_def age_def word_le_nat_alt unat_saturating_add inc lim)
    then show ?thesis
      using after_expiry_route [OF rib ok Some] Some r'
      by (auto simp: cell_of_def tick_def has_garb_def Let_def cell_def split: if_splits)
  qed
  then show ?thesis
    using cons consistent_dest_ok [OF cons, of k] net'
    by (simp add: act_step_def net_dest_def)
qed

section \<open>Executions\<close>

definition along :: "'v arc list \<Rightarrow> 'v net_event \<Rightarrow> bool" where
  "along arcs ev =
     (case ev of Announce u chg heard \<Rightarrow> list_all (\<lambda>a. a \<in> set arcs \<and> arc_from a = u) heard | _ \<Rightarrow> True)"

fun acts_of :: "'v net_event \<Rightarrow> 'v act list" where
  "acts_of (Announce u chg heard) = Idle # map (\<lambda>a. Carry a chg) heard"
| "acts_of (CheckTimeouts v) = [Tick v]"
| "acts_of (CollectGarbage v) = [Idle]"

definition check_secs :: "('v \<Rightarrow> 'n os) \<Rightarrow> 'v \<Rightarrow> nat" where
  "check_secs os v = unat (timeout_check_interval_secs (os v))"

definition timeout_secs :: "('v \<Rightarrow> 'n os) \<Rightarrow> 'v \<Rightarrow> nat" where
  "timeout_secs os v = unat (route_timeout_secs (os v))"

lemma timeout_secs_bound: "timeout_secs os v < 2 ^ 64"
proof -
  have "unat (route_timeout_secs (os v)) < 2 ^ LENGTH(64)" by (rule unsigned_less)
  then show ?thesis by (simp add: timeout_secs_def)
qed

lemma net_step_acts:
  assumes ev: "along arcs ev" and arcs: "addressed arcs" and drv: "never_fails drv" and k: "valid_key k"
    and net: "consistent net"
  shows "consistent (net_step os drv checks ev net)
    \<and> acts_run arcs (check_secs os) (timeout_secs os) (acts_of ev) (net_dest k net)
        (net_dest k (net_step os drv checks ev net))"
proof (cases ev)
  case (Announce u chg heard)
  let ?s = "fst (send_multicast_advertisement (os u) chg (net u))"
  have rib: "rib_ok (database (net u))" using net by (simp add: consistent_def)
  then have s: "rib_ok (database ?s)" by (rule rib_ok_send_advertisement)
  have heard: "list_all (\<lambda>a. a \<in> set arcs \<and> arc_from a = u) heard" using ev Announce by (simp add: along_def)
  let ?net = "net(u := ?s)"
  have src: "cell_of (database (net u)) k = cell_of (database (?net u)) k"
    "has_garb (database (net u)) k = has_garb (database (?net u)) k"
    by (simp_all add: sent_cells)
  note hears = hear_acts [where net = ?net, OF arcs drv k rib heard consistent_update [OF net s] src]
  have "act_step arcs (check_secs os) (timeout_secs os) Idle (net_dest k net) (net_dest k ?net)"
    by (rule idle_act [OF net s]) (simp_all add: sent_cells)
  moreover have "net_step os drv checks ev net = fold (hear os drv checks (database (net u)) chg) heard ?net"
    by (simp add: Announce net_step_def)
  ultimately show ?thesis using hears unfolding Announce acts_of.simps acts_run.simps by (simp only:) blast
next
  case (CheckTimeouts v)
  then show ?thesis
    using check_act [OF drv net, of "check_secs os" v "os v" "timeout_secs os" arcs k]
    by (auto simp: net_step_def check_secs_def timeout_secs_def)
next
  case (CollectGarbage v)
  let ?s = "fst (handle_garbage_collection_tick (os v) (net v, None))"
  have rib: "rib_ok (database (net v))" using net by (simp add: consistent_def)
  then have s: "rib_ok (database ?s)" by (simp add: gc_tick_database rib_ok_remove_expired)
  have "cell_of (database ?s) k = cell_of (database (net v)) k"
    "has_garb (database ?s) k \<Longrightarrow> has_garb (database (net v)) k"
    using db_wf_maps [OF rib_ok_wf [OF rib]]
    by (auto simp: gc_tick_database cell_of_def has_garb_def remove_expired_garbage split: option.splits)
  from idle_act [OF net s this] consistent_update [OF net s] show ?thesis
    by (auto simp: CollectGarbage net_step_def)
qed

lemma net_steps_acts:
  assumes "list_all (along arcs) evs" and "addressed arcs" and "never_fails drv" and "valid_key k" and "consistent net"
  shows "consistent (fold (net_step os drv checks) evs net)
    \<and> acts_run arcs (check_secs os) (timeout_secs os) (concat (map acts_of evs)) (net_dest k net)
        (net_dest k (fold (net_step os drv checks) evs net))"
  using assms(1,5)
proof (induction evs arbitrary: net)
  case (Cons ev evs)
  have ev: "along arcs ev" using Cons.prems(1) by simp
  note step = net_step_acts [OF ev assms(2-4) Cons.prems(2), of os checks]
  have "list_all (along arcs) evs" using Cons.prems(1) by simp
  from Cons.IH [OF this conjunct1 [OF step]] step show ?case by (auto simp: acts_run_append)
qed simp

lemma ticks_acts: "ticks (concat (map acts_of evs)) v = count_list evs (CheckTimeouts v)"
proof (induction evs)
  case (Cons ev evs)
  have "ticks (map (\<lambda>a. Carry a chg) heard) v = 0" for chg heard by (induction heard) simp_all
  then show ?case using Cons by (cases ev) auto
qed simp

lemma carried_acts: "\<Union> (carried_full ` set (concat (map acts_of evs))) = \<Union> (carried ` set evs)"
proof -
  have "\<Union> (carried_full ` set (acts_of ev)) = carried ev" for ev :: "'a net_event"
    by (cases ev) auto
  then show ?thesis by auto
qed

definition local_owners :: "RipRouteKey \<Rightarrow> ('v, 'd, 'n) network \<Rightarrow> 'v set" where
  "local_owners k net = {v. \<exists>r. hm_get (ok_routes (database (net v))) k = Some r \<and> is_local r}"

lemma dest_owners_net: "dest_owners (net_dest k net) = local_owners k net"
  by (auto simp: dest_owners_def local_owners_def net_dest_def cell_of_def cell_def)

lemma cell_of_Some:
  assumes "cell_of db k = Some x"
  obtains r where "hm_get (ok_routes db) k = Some r" "x = cell r"
  using assms by (auto simp: cell_of_def)

section \<open>Properties\<close>

text \<open>
  C9: stale routes are forgotten. Let the daemons of a network be in any consistent states, with any
  routes to a network that nobody owns any more, as after its router has failed. Whatever they
  announce to each other, in any order, with any losses and over any links, they do not keep each
  other's routes alive for ever: after 14 stretches in each of which every daemon has made enough
  timeout checks, no daemon has a route to the network.
\<close>

theorem stale_routes_forgotten:
  assumes "list_all (\<lambda>a. arc_from a \<noteq> arc_to a \<and> arc_address a \<noteq> 0) arcs" and "never_fails drv"
    and "\<And>v. rib_ok (database (net v))" and "valid_key k"
    and "\<And>v r. hm_get (ok_routes (database (net v))) k = Some r \<Longrightarrow> \<not> is_local r"
    and "list_all (along arcs) (concat epochs)" and "length epochs = 14"
    and "\<And>evs v. evs \<in> set epochs \<Longrightarrow> v \<in> nodes arcs \<Longrightarrow> 1 \<le> count_list evs (CheckTimeouts v)
      \<and> timeout_secs os v \<le> count_list evs (CheckTimeouts v) * check_secs os v"
    and "v \<in> nodes arcs"
  shows "hm_get (ok_routes (database (fold (net_step os drv checks) (concat epochs) net v))) k = None"
proof (rule ccontr)
  let ?net = "fold (net_step os drv checks) (concat epochs) net"
  have arcs: "addressed arcs" using assms(1) by (simp add: addressed_def)
  have net: "consistent net" using assms(3) by (simp add: consistent_def)
  note run = net_steps_acts [OF assms(6) arcs assms(2,4) net, of os checks]
  have "concat (map acts_of (concat epochs)) = concat (map (\<lambda>evs. concat (map acts_of evs)) epochs)"
    by (induction epochs) simp_all
  then have acts: "acts_run arcs (check_secs os) (timeout_secs os) (concat (map (\<lambda>evs. concat (map acts_of evs)) epochs))
      (net_dest k net) (net_dest k ?net)" using run by simp
  have nobody: "dest_owners (net_dest k net) \<subseteq> {}"
    using assms(5) by (auto simp: dest_owners_net local_owners_def)
  have "epoch arcs (check_secs os) (timeout_secs os) ls"
    if "ls \<in> set (map (\<lambda>evs. concat (map acts_of evs)) epochs)" for ls
    using that assms(8) timeout_secs_bound by (auto simp: epoch_def ticks_acts)
  from epochs_far [OF acts consistent_dest_ok [OF net] nobody arcs this]
  have far: "learned_all (nodes arcs) (far arcs {} 14) (net_dest k ?net)" using assms(7) by simp
  have ok: "dest_ok (net_dest k ?net)" using consistent_dest_ok run by blast
  have none: "dest_owners (net_dest k ?net) \<subseteq> {}"
    using owners_run [OF acts consistent_dest_ok [OF net] arcs] nobody by simp
  assume "hm_get (ok_routes (database (?net v))) k \<noteq> None"
  then obtain x where "cells (net_dest k ?net) v = Some x" by (auto simp: net_dest_def cell_of_def)
  from far_distance [OF far ok none assms(9) this]
  have "v \<in> within arcs {} (c_metric x - 1)" .
  moreover have "within arcs {} n = {}" for n by (induction n) simp_all
  ultimately show False by simp
qed

text \<open>Three daemons in a row that all remember 10.0.1.0/24 from a neighbour that is gone.\<close>

definition stale_row :: "(nat, StubRoutingTableDriver, unit) network" where
  "stale_row v = (row_start 2)\<lparr> database := sample_db [1] \<rparr>"

definition row_checks :: "nat net_event list" where
  "row_checks = [CheckTimeouts 0, CheckTimeouts 1, CheckTimeouts 2]"

lemma nodes_row: "nodes row = {0, 1, 2}"
  by (auto simp: nodes_def row_def)

lemma row_events: "list_all (along row) (row_round @ row_checks)"
  by (simp add: row_round_def row_checks_def along_def row_def list_all_iff)

lemma row_counts: "v \<in> nodes row \<Longrightarrow> count_list (row_round @ row_checks) (CheckTimeouts v) = 1"
  by (auto simp: nodes_row row_round_def row_checks_def)

lemma row_rounds: "list_all (along row) (concat (replicate n (row_round @ row_checks)))"
  using row_events by (induction n) simp_all

lemma sample_key_valid: "valid_key (build_route_key (sample_entry 1 0 0))"
  by code_simp

theorem stale_routes_forgotten_witness:
  "let k = build_route_key (sample_entry 1 0 0); evs = concat (replicate 14 (row_round @ row_checks))
   in hm_get (ok_routes (database (stale_row 1))) k \<noteq> None
      \<and> hm_get (ok_routes (database (fold (net_step (\<lambda>_. sample_slow_os) stub_driver True) evs stale_row 1))) k = None"
proof -
  let ?k = "build_route_key (sample_entry 1 0 0)" and ?epochs = "replicate 14 (row_round @ row_checks)"
  have route: "hm_get (ok_routes (sample_db [1])) ?k = Some (new_db_entry (sample_entry 1 3232235521 2) 3 ''eth0'' False)"
    by code_simp
  have links: "list_all (\<lambda>a. arc_from a \<noteq> arc_to a \<and> arc_address a \<noteq> 0) row" by (simp add: row_def)
  have drv: "never_fails stub_driver" by (simp add: never_fails_def stub_driver_def)
  have rib: "rib_ok (database (stale_row v))" for v using sample_db_rib_ok(2) by (simp add: stale_row_def)
  have nobody: "hm_get (ok_routes (database (stale_row v))) ?k = Some r \<Longrightarrow> \<not> is_local r" for v r
    using route by (auto simp: stale_row_def new_db_entry_def simp del: sample_db.simps)
  have enough: "1 \<le> count_list evs (CheckTimeouts v) \<and> timeout_secs (\<lambda>_. sample_slow_os) v
      \<le> count_list evs (CheckTimeouts v) * check_secs (\<lambda>_. sample_slow_os) v"
    if "evs \<in> set ?epochs" "v \<in> nodes row" for evs v
    using that row_counts by (simp add: timeout_secs_def check_secs_def sample_slow_interval)
  have node: "1 \<in> nodes row" by (simp add: nodes_row)
  have "hm_get (ok_routes (database (fold (net_step (\<lambda>_. sample_slow_os) stub_driver True) (concat ?epochs)
      stale_row 1))) ?k = None"
    by (rule stale_routes_forgotten [OF links drv rib sample_key_valid nobody row_rounds _ enough node]) simp_all
  moreover have "hm_get (ok_routes (database (stale_row 1))) ?k \<noteq> None" using route by (simp add: stale_row_def del: sample_db.simps)
  moreover have "concat ?epochs = concat (replicate 14 (row_round @ row_checks))" ..
  ultimately show ?thesis unfolding Let_def by blast
qed


text \<open>The first daemon of the row owns 10.0.1.0/24; the other two have stale routes of metric 2 to it.\<close>

definition stale_start :: "(nat, StubRoutingTableDriver, unit) network" where
  "stale_start v = (if v = 0 then row_start 0 else stale_row v)"


end
