(* ===== verification/Rip_Channel.thy ===== *)
theory Rip_Channel
  imports Rip_Prelude
begin

text \<open>
  The bounded channels between tasks. The program has two: the receive tasks hand packets to the
  event loop, the HTTP handlers hand it requests. Both come from \<^verbatim>\<open>tokio::sync::mpsc\<close>, of which
  this theory states what the program relies on: a send waits for room, items are taken in the
  order in which they were sent, and none is lost or doubled. The contract is a locale; the lists
  with a capacity that model both channels are its interpretation.
\<close>

section \<open>The contract\<close>

datatype 'a channel_op = Sent 'a | Taken 'a

fun sent_items :: "'a channel_op list \<Rightarrow> 'a list" where
  "sent_items [] = []"
| "sent_items (Sent x # ops) = x # sent_items ops"
| "sent_items (Taken _ # ops) = sent_items ops"

fun taken_items :: "'a channel_op list \<Rightarrow> 'a list" where
  "taken_items [] = []"
| "taken_items (Sent _ # ops) = taken_items ops"
| "taken_items (Taken x # ops) = x # taken_items ops"

lemma items_append [simp]:
  "sent_items (ops @ ops') = sent_items ops @ sent_items ops'"
  "taken_items (ops @ ops') = taken_items ops @ taken_items ops'"
  by (induction ops rule: sent_items.induct) simp_all

locale fifo_channel =
  fixes send :: "'a \<Rightarrow> 'c \<Rightarrow> 'c option"
    and recv :: "'c \<Rightarrow> ('a \<times> 'c) option"
    and contents :: "'c \<Rightarrow> 'a list"
  assumes send_contents: "send x c = Some c' \<Longrightarrow> contents c' = contents c @ [x]"
    and recv_contents: "recv c = Some (x, c') \<Longrightarrow> contents c = x # contents c'"
    and recv_waits: "recv c = None \<longleftrightarrow> contents c = []"
begin

fun channel_run :: "'a channel_op list \<Rightarrow> 'c \<Rightarrow> 'c option" where
  "channel_run [] c = Some c"
| "channel_run (Sent x # ops) c = (case send x c of None \<Rightarrow> None | Some c' \<Rightarrow> channel_run ops c')"
| "channel_run (Taken x # ops) c =
     (case recv c of
        None \<Rightarrow> None
      | Some (y, c') \<Rightarrow> if y = x then channel_run ops c' else None)"

lemma conservation:
  "channel_run ops c = Some c' \<Longrightarrow> contents c @ sent_items ops = taken_items ops @ contents c'"
proof (induction ops c rule: channel_run.induct)
  case (2 x ops c)
  then show ?case by (auto dest: send_contents split: option.splits)
next
  case (3 x ops c)
  then show ?case by (auto dest: recv_contents split: option.splits if_splits)
qed simp

lemma taken_in_order:
  assumes "channel_run ops c = Some c'" and "i < length (contents c)" and "i < length (taken_items ops)"
  shows "taken_items ops ! i = contents c ! i"
  using conservation [OF assms(1)] assms(2,3) by (metis nth_append)

lemma takes_head:
  assumes "contents c = x # xs"
  obtains c' where "recv c = Some (x, c')" "contents c' = xs"
proof (cases "recv c")
  case None
  then show thesis using recv_waits assms by simp
next
  case (Some r)
  then show thesis using that recv_contents [of c "fst r" "snd r"] assms by (cases r) simp
qed

lemma everything_taken:
  assumes "channel_run ops c = Some c'" and "length (contents c) \<le> length (taken_items ops)"
  shows "take (length (contents c)) (taken_items ops) = contents c"
  using arg_cong [where f = "take (length (contents c))", OF conservation [OF assms(1)]] assms(2) by simp

end

locale bounded_channel = fifo_channel send recv contents
  for send :: "'a \<Rightarrow> 'c \<Rightarrow> 'c option" and recv :: "'c \<Rightarrow> ('a \<times> 'c) option" and contents :: "'c \<Rightarrow> 'a list" +
  fixes capacity :: nat
  assumes send_waits: "send x c = None \<longleftrightarrow> capacity \<le> length (contents c)"
begin

lemma send_bound: "send x c = Some c' \<Longrightarrow> length (contents c') \<le> capacity"
  using send_waits [of x c] send_contents [of x c c'] by (cases "capacity \<le> length (contents c)") auto

lemma recv_bound: "recv c = Some (x, c') \<Longrightarrow> length (contents c) \<le> capacity \<Longrightarrow> length (contents c') < capacity"
  by (drule recv_contents) simp

lemma run_bound:
  "channel_run ops c = Some c' \<Longrightarrow> length (contents c) \<le> capacity \<Longrightarrow> length (contents c') \<le> capacity"
proof (induction ops c rule: channel_run.induct)
  case (2 x ops c)
  then show ?case by (auto dest: send_bound split: option.splits)
next
  case (3 x ops c)
  then show ?case by (auto dest!: recv_bound split: option.splits if_splits)
qed simp

text \<open>A sender that waits for room gets it as soon as an item is taken.\<close>

lemma room_after_recv:
  assumes "recv c = Some (x, c')" and "length (contents c) \<le> capacity"
  shows "send y c' \<noteq> None"
  using recv_bound [OF assms] send_waits by simp

end

section \<open>The channels of the program\<close>

definition channel_send :: "nat \<Rightarrow> 'a \<Rightarrow> 'a list \<Rightarrow> 'a list option" where
  "channel_send capacity x q = (if length q < capacity then Some (q @ [x]) else None)"

definition channel_recv :: "'a list \<Rightarrow> ('a \<times> 'a list) option" where
  "channel_recv q = (case q of [] \<Rightarrow> None | x # q \<Rightarrow> Some (x, q))"

interpretation mpsc: bounded_channel "channel_send capacity" channel_recv "\<lambda>q. q" capacity for capacity
  by unfold_locales (auto simp: channel_send_def channel_recv_def split: list.splits if_splits)

lemma channel_send_Some: "channel_send n x q = Some q' \<longleftrightarrow> length q < n \<and> q' = q @ [x]"
  by (auto simp: channel_send_def)

lemma channel_recv_Some: "channel_recv q = Some (x, q') \<longleftrightarrow> q = x # q'"
  by (auto simp: channel_recv_def split: list.splits)

end
