(* ===== verification/Rip_Service.thy ===== *)
theory Rip_Service
  imports Rip_Samples Rip_Channel
begin

text \<open>
  The running program with its administrators: the HTTP handlers of \<^verbatim>\<open>src/src/http/mod.rs\<close>, the
  channel on which they hand requests to the event loop, their reply channels, and the system of
  \<^verbatim>\<open>Rip_System\<close> that takes and answers the requests between its other turns. A handler is known by
  the number of its reply channel, which is its place in the list of all handlers so far.
\<close>

section \<open>Handlers and the request channel\<close>

definition create_http_channel :: nat where
  "create_http_channel = 32"

datatype api_call = Call_get_routes | Call_add_local_route HttpAddLocalRouteRequest

fun call_kind :: "api_call \<Rightarrow> HttpRequestKind" where
  "call_kind Call_get_routes = GetRoutes"
| "call_kind (Call_add_local_route payload) =
     AddLocalRoute \<lparr> net_address = alr_address payload, net_prefix = alr_prefix payload, net_dev = alr_dev payload \<rparr>"

fun handler_reply :: "api_call \<Rightarrow> channel_outcome \<Rightarrow> http_reply" where
  "handler_reply Call_get_routes result = http_get_routes (\<lambda>_. result)"
| "handler_reply (Call_add_local_route payload) result = http_add_local_route (\<lambda>_. result) payload"

text \<open>The two halves of a handler, up to its request and from the answer on, are the handler.\<close>

lemma handler_halves:
  "http_get_routes channel = handler_reply Call_get_routes (channel (call_kind Call_get_routes))"
  "http_add_local_route channel payload =
     handler_reply (Call_add_local_route payload) (channel (call_kind (Call_add_local_route payload)))"
  by (simp_all add: http_get_routes_def http_add_local_route_def)

text \<open>
  A handler waits for room on the channel, then for its answer; it has replied, or its client has
  gone and the handler was dropped.
\<close>

datatype client = Sending api_call | Waiting api_call | Answered_with api_call http_reply | HungUp api_call

fun in_progress :: "client \<Rightarrow> bool" where
  "in_progress (Sending _) = True"
| "in_progress (Waiting _) = True"
| "in_progress (Answered_with _ _) = False"
| "in_progress (HungUp _) = False"

fun is_waiting :: "client \<Rightarrow> bool" where
  "is_waiting (Waiting _) = True"
| "is_waiting _ = False"

text \<open>
  What the loop gets from the channel: nothing yet (\<^const>\<open>None\<close>), also when it has given up the
  receiver; the first request; or that all senders are gone.
\<close>

definition recv_http_request :: "bool \<Rightarrow> bool \<Rightarrow> HttpRequest list \<Rightarrow> HttpRequest option option" where
  "recv_http_request receiver senders requests =
     (if receiver
      then (case channel_recv requests of
              Some (request, _) \<Rightarrow> Some (Some request)
            | None \<Rightarrow> if senders then None else Some None)
      else None)"

section \<open>Steps\<close>

record ('d, 'n) service =
  program :: "('d, 'n) system"
  requests :: "HttpRequest list"
  clients :: "client list"
  serving :: bool

definition receiver_open :: "('d, 'n) service \<Rightarrow> bool" where
  "receiver_open s \<longleftrightarrow> outcome (program s) = None \<and> http_open (loop (program s))"

text \<open>The server and every handler at work hold a sender.\<close>

definition senders_alive :: "('d, 'n) service \<Rightarrow> bool" where
  "senders_alive s \<longleftrightarrow> serving s \<or> list_ex in_progress (clients s)"

text \<open>
  \<^item> \<open>Arrive call\<close>: the server starts a handler.
  \<^item> \<open>Enqueue c\<close>, \<open>Refuse c\<close>: the send of handler \<open>c\<close> finds room, or fails as the receiver is gone.
  \<^item> \<open>Unanswered c\<close>: the receiver is gone with the request, and its reply channel is dropped.
  \<^item> \<open>HangUp c\<close>: the client closes the connection.
  \<^item> \<open>ServerGone\<close>: the server stops, with its connections.
  \<^item> \<open>Program l\<close>: a step of the receive tasks or the loop. A turn that takes a request takes the
    first one of the channel; the handler, if it still waits, gets the answer. When the loop ends,
    the receiver is dropped and what it holds.
\<close>

datatype service_label =
    Arrive api_call
  | Enqueue nat
  | Refuse nat
  | Unanswered nat
  | HangUp nat
  | ServerGone
  | Program label

definition client_at :: "('d, 'n) service \<Rightarrow> nat \<Rightarrow> client option" where
  "client_at s c = (if c < length (clients s) then Some (clients s ! c) else None)"

definition set_client :: "nat \<Rightarrow> client \<Rightarrow> ('d, 'n) service \<Rightarrow> ('d, 'n) service" where
  "set_client c x s = s\<lparr> clients := (clients s)[c := x] \<rparr>"

definition offered_to_loop :: "('d, 'n) service \<Rightarrow> label \<Rightarrow> bool" where
  "offered_to_loop s l =
     (case l of
        Turn _ (HttpReceived received) \<Rightarrow>
          recv_http_request (http_open (loop (program s))) (senders_alive s) (requests s) = Some received
      | _ \<Rightarrow> True)"

definition requests_left :: "label \<Rightarrow> HttpRequest list \<Rightarrow> HttpRequest list" where
  "requests_left l q =
     (case l of
        Turn _ (HttpReceived (Some _)) \<Rightarrow> (case channel_recv q of Some (_, q') \<Rightarrow> q' | None \<Rightarrow> q)
      | _ \<Rightarrow> q)"

definition answer_of ::
  "'n os \<Rightarrow> 'd RoutingTableDriver \<Rightarrow> label \<Rightarrow> ('d, 'n) system \<Rightarrow> (nat \<times> HttpResponse) option" where
  "answer_of os drv l p =
     (case l of
        Turn _ ev \<Rightarrow> (case snd (select_arm os drv ev (loop p)) of Continue reply \<Rightarrow> reply | Returned _ \<Rightarrow> None)
      | _ \<Rightarrow> None)"

definition deliver_reply :: "(nat \<times> HttpResponse) option \<Rightarrow> client list \<Rightarrow> client list" where
  "deliver_reply reply cs =
     (case reply of
        None \<Rightarrow> cs
      | Some (c, response) \<Rightarrow>
          if c < length cs
          then (case cs ! c of
                  Waiting call \<Rightarrow> cs[c := Answered_with call (handler_reply call (Answered response))]
                | _ \<Rightarrow> cs)
          else cs)"

definition service_step ::
  "'n os \<Rightarrow> 'd RoutingTableDriver \<Rightarrow> bool \<Rightarrow> service_label \<Rightarrow> ('d, 'n) service \<Rightarrow> ('d, 'n) service option" where
  "service_step os drv checks l s =
     (case l of
        Arrive call \<Rightarrow> if serving s then Some (s\<lparr> clients := clients s @ [Sending call] \<rparr>) else None
      | Enqueue c \<Rightarrow>
          (case client_at s c of
             Some (Sending call) \<Rightarrow>
               if receiver_open s then
                 map_option (\<lambda>q. set_client c (Waiting call) (s\<lparr> requests := q \<rparr>))
                   (channel_send create_http_channel \<lparr> kind = call_kind call, reply_to = c \<rparr> (requests s))
               else None
           | _ \<Rightarrow> None)
      | Refuse c \<Rightarrow>
          (case client_at s c of
             Some (Sending call) \<Rightarrow>
               if receiver_open s then None
               else Some (set_client c (Answered_with call (handler_reply call SendFailed)) s)
           | _ \<Rightarrow> None)
      | Unanswered c \<Rightarrow>
          (case client_at s c of
             Some (Waiting call) \<Rightarrow>
               if receiver_open s then None
               else Some (set_client c (Answered_with call (handler_reply call ReplyDropped)) s)
           | _ \<Rightarrow> None)
      | HangUp c \<Rightarrow>
          (case client_at s c of
             Some (Sending call) \<Rightarrow> Some (set_client c (HungUp call) s)
           | Some (Waiting call) \<Rightarrow> Some (set_client c (HungUp call) s)
           | _ \<Rightarrow> None)
      | ServerGone \<Rightarrow> Some (s\<lparr> serving := False \<rparr>)
      | Program pl \<Rightarrow>
          if offered_to_loop s pl then
            map_option (\<lambda>p. s\<lparr> program := p,
                requests := (if outcome p = None then requests_left pl (requests s) else []),
                clients := deliver_reply (answer_of os drv pl (program s)) (clients s) \<rparr>)
              (system_step os drv checks pl (program s))
          else None)"

definition service_start :: "('d, 'n) system \<Rightarrow> ('d, 'n) service" where
  "service_start p = \<lparr> program = p, requests = [], clients = [], serving = True \<rparr>"

inductive service_reachable ::
  "(label \<Rightarrow> bool) \<Rightarrow> 'n os \<Rightarrow> 'd RoutingTableDriver \<Rightarrow> bool \<Rightarrow> ('d, 'n) service \<Rightarrow> ('d, 'n) service \<Rightarrow> bool"
  for env :: "label \<Rightarrow> bool" and os :: "'n os" and drv :: "'d RoutingTableDriver" and checks :: bool
    and s0 :: "('d, 'n) service" where
  service_begin: "service_reachable env os drv checks s0 s0"
| service_next: "service_reachable env os drv checks s0 s \<Longrightarrow> (\<And>pl. l = Program pl \<Longrightarrow> env pl)
    \<Longrightarrow> service_step os drv checks l s = Some s' \<Longrightarrow> service_reachable env os drv checks s0 s'"

lemma program_stepE:
  assumes "service_step os drv checks (Program pl) s = Some s'"
  obtains p where "offered_to_loop s pl" "system_step os drv checks pl (program s) = Some p"
    "s' = s\<lparr> program := p, requests := (if outcome p = None then requests_left pl (requests s) else []),
      clients := deliver_reply (answer_of os drv pl (program s)) (clients s) \<rparr>"
  using assms that
  by (cases "offered_to_loop s pl"; cases "system_step os drv checks pl (program s)") (simp_all add: service_step_def)

section \<open>The service refines the system\<close>

lemma service_step_program:
  assumes "service_step os drv checks l s = Some s'"
  shows "(\<exists>pl. l = Program pl \<and> system_step os drv checks pl (program s) = Some (program s'))
    \<or> (\<forall>pl. l \<noteq> Program pl) \<and> program s' = program s"
  using assms
  by (auto simp: service_step_def set_client_def split: service_label.splits if_splits option.splits client.splits)

lemma service_runs_system:
  assumes "service_reachable env os drv checks s0 s"
  shows "reachable env os drv checks (program s0) (program s)"
  using assms
proof (induction rule: service_reachable.induct)
  case (service_next s l s')
  then show ?case using service_step_program [of os drv checks l s s'] by (auto intro: reachable_step)
qed (rule reachable_start)

section \<open>Turns that take a request\<close>

lemma select_arm_http_open:
  "http_open (fst (select_arm os drv ev st)) = (http_open st \<and> ev \<noteq> HttpReceived None)"
proof (cases ev)
  case (CtrlC r)
  then show ?thesis by (cases r) (simp_all add: select_arm_def)
next
  case UpdateFired
  then show ?thesis by (auto simp: select_arm_def and_then_def on_deamon_def split: prod.splits sum.splits)
next
  case TimeoutFired
  then show ?thesis by (auto simp: select_arm_def and_then_def on_deamon_def split: prod.splits sum.splits)
next
  case (Received p)
  then show ?thesis by (cases p) (simp_all add: select_arm_def)
next
  case (HttpReceived r)
  then show ?thesis by (cases r) (simp_all add: select_arm_def on_deamon_def split: prod.splits)
qed (auto simp: select_arm_def split: prod.splits)

lemma run_turn_http_open:
  "http_open (fst (run_turn os drv ev st)) = (http_open st \<and> ev \<noteq> HttpReceived None)"
proof -
  have kept: "http_open (fst (triggered_update os st1)) = http_open st1" for st1 :: "('a, 'b) RunState"
    by (auto simp: triggered_update_def split: prod.splits)
  obtain st1 t where arm: "select_arm os drv ev st = (st1, t)" by fastforce
  have "http_open (fst (run_turn os drv ev st)) = http_open st1"
  proof (cases t)
    case (Continue reply)
    obtain st2 res where "triggered_update os st1 = (st2, res)" by fastforce
    then show ?thesis using arm Continue kept [of st1] by (cases res) (simp_all add: run_turn_def)
  qed (use arm in \<open>simp add: run_turn_def\<close>)
  then show ?thesis using select_arm_http_open [of os drv ev st] arm by simp
qed

lemma system_step_http_open:
  assumes "system_step os drv checks l p = Some p'"
  shows "http_open (loop p') = (http_open (loop p) \<and> (\<forall>now. l \<noteq> Turn now (HttpReceived None)))"
proof (cases l)
  case (Turn now ev)
  then have "loop p' = fst (run_turn os drv ev (loop p))"
    using assms by (auto simp: system_step_def split: if_splits prod.splits)
  then show ?thesis using Turn by (simp add: run_turn_http_open)
qed (use assms in \<open>auto simp: system_step_def set_database_def split: if_splits prod.splits option.splits\<close>)

lemma http_request_reply:
  "snd (handle_http_request os r d) =
     (reply_to r,
      case kind r of
        GetRoutes \<Rightarrow> Routes (HttpRoute_from_database (database d))
      | AddLocalRoute network \<Rightarrow>
          (case snd (setup_advertised_network os network d) of
             Inr _ \<Rightarrow> HttpOk
           | Inl err \<Rightarrow> HttpError (RipError_to_string err)))"
  by (auto simp: handle_http_request_def split: HttpRequestKind.splits prod.splits sum.splits)

lemma answer_of_http [simp]:
  "answer_of os drv (Turn now (HttpReceived (Some r))) p = Some (snd (handle_http_request os r (deamon (loop p))))"
  by (simp add: answer_of_def select_arm_def on_deamon_def split: prod.splits)

lemma answer_of_other:
  assumes "\<And>now r. l \<noteq> Turn now (HttpReceived (Some r))"
  shows "answer_of os drv l p = None"
proof (cases l)
  case (Turn now ev)
  have "reply = None" if arm: "snd (select_arm os drv ev (loop p)) = Continue reply" for reply
  proof (cases ev)
    case (CtrlC r)
    then show ?thesis using arm by (cases r) (simp_all add: select_arm_def)
  next
    case (Received r)
    then show ?thesis using arm by (cases r) (simp_all add: select_arm_def stop_on_error_cases split: sum.splits)
  next
    case (HttpReceived r)
    then have "r = None" using assms Turn by (metis option.exhaust)
    then show ?thesis using arm HttpReceived by (simp add: select_arm_def)
  qed (use arm in \<open>auto simp: select_arm_def stop_on_error_cases split: prod.splits sum.splits\<close>)
  then show ?thesis using Turn by (simp add: answer_of_def split: turn.splits)
qed (simp_all add: answer_of_def)

lemma requests_left_other:
  assumes "\<And>now r. l \<noteq> Turn now (HttpReceived (Some r))"
  shows "requests_left l q = q"
  using assms by (simp add: requests_left_def split: label.splits event.splits option.splits)

lemma offered_Some:
  "offered_to_loop s (Turn now (HttpReceived (Some r))) \<longleftrightarrow>
     http_open (loop (program s)) \<and> (\<exists>q. requests s = r # q)"
  by (auto simp: offered_to_loop_def recv_http_request_def channel_recv_def split: list.splits)

lemma offered_None:
  "offered_to_loop s (Turn now (HttpReceived None)) \<longleftrightarrow>
     http_open (loop (program s)) \<and> requests s = [] \<and> \<not> senders_alive s"
  by (auto simp: offered_to_loop_def recv_http_request_def channel_recv_def split: list.splits)

section \<open>Every request in flight is accounted for\<close>

lemma set_client_simps [simp]:
  "program (set_client c x s) = program s"
  "requests (set_client c x s) = requests s"
  "serving (set_client c x s) = serving s"
  "receiver_open (set_client c x s) = receiver_open s"
  "client_at (set_client c x s) c' = (if c' = c \<and> client_at s c \<noteq> None then Some x else client_at s c')"
  by (simp_all add: set_client_def receiver_open_def client_at_def nth_list_update)

lemma client_at_frame [simp]:
  "client_at (s\<lparr> requests := q \<rparr>) = client_at s" "client_at (s\<lparr> serving := b \<rparr>) = client_at s"
  by (simp_all add: client_at_def fun_eq_iff)

lemma senders_alive_set_client:
  "client_at s c = Some y \<Longrightarrow> in_progress y \<Longrightarrow> senders_alive (set_client c x s) \<Longrightarrow> senders_alive s"
  by (auto simp: senders_alive_def set_client_def client_at_def list_ex_iff split: if_splits)

definition request_for :: "('d, 'n) service \<Rightarrow> HttpRequest \<Rightarrow> bool" where
  "request_for s r \<longleftrightarrow>
     (\<exists>call. kind r = call_kind call
        \<and> (client_at s (reply_to r) = Some (Waiting call) \<or> client_at s (reply_to r) = Some (HungUp call)))"

definition service_ok :: "('d, 'n) service \<Rightarrow> bool" where
  "service_ok s \<longleftrightarrow>
     length (requests s) \<le> create_http_channel
     \<and> distinct (map reply_to (requests s))
     \<and> (\<forall>r\<in>set (requests s). request_for s r)
     \<and> (receiver_open s \<longrightarrow> (\<forall>c call. client_at s c = Some (Waiting call) \<longrightarrow> c \<in> reply_to ` set (requests s)))
     \<and> (\<not> receiver_open s \<longrightarrow> requests s = [])
     \<and> (\<not> http_open (loop (program s)) \<longrightarrow> \<not> senders_alive s)"

lemma service_okI:
  assumes "length (requests s) \<le> create_http_channel" and "distinct (map reply_to (requests s))"
    and "\<And>r. r \<in> set (requests s) \<Longrightarrow> request_for s r"
    and "\<And>c call. receiver_open s \<Longrightarrow> client_at s c = Some (Waiting call) \<Longrightarrow> c \<in> reply_to ` set (requests s)"
    and "\<not> receiver_open s \<Longrightarrow> requests s = []" and "senders_alive s \<Longrightarrow> http_open (loop (program s))"
  shows "service_ok s"
  using assms by (auto simp: service_ok_def)

lemma service_okD:
  assumes "service_ok s"
  shows "length (requests s) \<le> create_http_channel" and "distinct (map reply_to (requests s))"
    and "r \<in> set (requests s) \<Longrightarrow> request_for s r"
    and "receiver_open s \<Longrightarrow> client_at s c = Some (Waiting call) \<Longrightarrow> c \<in> reply_to ` set (requests s)"
    and "\<not> receiver_open s \<Longrightarrow> requests s = []" and "senders_alive s \<Longrightarrow> http_open (loop (program s))"
  using assms by (auto simp: service_ok_def)

lemma client_at_in_progress: "client_at s c = Some x \<Longrightarrow> in_progress x \<Longrightarrow> senders_alive s"
  by (auto simp: client_at_def senders_alive_def list_ex_iff split: if_splits)

text \<open>A step of one handler that leaves the channel alone.\<close>

lemma service_ok_handler:
  assumes "service_ok s" and "client_at s c = Some x" and "in_progress x"
    and "\<And>call. y \<noteq> Sending call \<and> y \<noteq> Waiting call"
    and "\<And>call. x = Waiting call \<Longrightarrow> y = HungUp call \<or> \<not> receiver_open s"
  shows "service_ok (set_client c y s)"
proof (rule service_okI)
  fix r assume r: "r \<in> set (requests (set_client c y s))"
  then have r: "r \<in> set (requests s)" "request_for s r" using service_okD(3) [OF assms(1)] by simp_all
  then have "receiver_open s" using service_okD(5) [OF assms(1)] by (cases "receiver_open s") simp_all
  then show "request_for (set_client c y s) r" using r(2) assms(2,3,5) by (auto simp: request_for_def)
next
  fix c' call assume "receiver_open (set_client c y s)" "client_at (set_client c y s) c' = Some (Waiting call)"
  then show "c' \<in> reply_to ` set (requests (set_client c y s))"
    using service_okD(4) [OF assms(1)] assms(2,4) by (auto split: if_splits)
qed (use service_okD [OF assms(1)] senders_alive_set_client [OF assms(2,3)] in auto)

lemma service_ok_arrive:
  assumes "service_ok s" and "serving s"
  shows "service_ok (s\<lparr> clients := clients s @ [Sending call] \<rparr>)"
proof -
  let ?s = "s\<lparr> clients := clients s @ [Sending call] \<rparr>"
  have at: "client_at ?s c = (if c = length (clients s) then Some (Sending call) else client_at s c)" for c
    by (simp add: client_at_def nth_append)
  have same: "receiver_open ?s = receiver_open s" "requests ?s = requests s" by (simp_all add: receiver_open_def)
  have fresh: "client_at s (length (clients s)) = None" by (simp add: client_at_def)
  show ?thesis
  proof (rule service_okI)
    fix r assume "r \<in> set (requests ?s)"
    then have "request_for s r" using service_okD(3) [OF assms(1)] by simp
    then show "request_for ?s r" using fresh by (auto simp: request_for_def at)
  next
    fix c call' assume "receiver_open ?s" "client_at ?s c = Some (Waiting call')"
    then show "c \<in> reply_to ` set (requests ?s)"
      using service_okD(4) [OF assms(1)] by (auto simp: same at split: if_splits)
  next
    assume "senders_alive ?s"
    have "senders_alive s" using assms(2) by (simp add: senders_alive_def)
    then show "http_open (loop (program ?s))" using service_okD(6) [OF assms(1)] by simp
  qed (use service_okD [OF assms(1)] in \<open>simp_all add: same\<close>)
qed

lemma service_ok_enqueue:
  assumes "service_ok s" and "client_at s c = Some (Sending call)" and "receiver_open s"
    and "channel_send create_http_channel \<lparr> kind = call_kind call, reply_to = c \<rparr> (requests s) = Some q"
  shows "service_ok (set_client c (Waiting call) (s\<lparr> requests := q \<rparr>))"
proof -
  let ?r = "\<lparr> kind = call_kind call, reply_to = c \<rparr>"
  let ?s = "set_client c (Waiting call) (s\<lparr> requests := q \<rparr>)"
  have q: "q = requests s @ [?r]" using mpsc.send_contents [OF assms(4)] .
  have same: "receiver_open ?s = receiver_open s" by (simp add: receiver_open_def)
  have "c \<notin> reply_to ` set (requests s)"
    using service_okD(3) [OF assms(1)] assms(2) by (fastforce simp: request_for_def)
  show ?thesis
  proof (rule service_okI)
    show "length (requests ?s) \<le> create_http_channel" using mpsc.send_bound [OF assms(4)] by simp
    show "distinct (map reply_to (requests ?s))"
      using service_okD(2) [OF assms(1)] \<open>c \<notin> _\<close> by (simp add: q)
  next
    fix r assume "r \<in> set (requests ?s)"
    then show "request_for ?s r"
      using service_okD(3) [OF assms(1)] assms(2) by (fastforce simp: q request_for_def)
  next
    fix c' call' assume "receiver_open ?s" "client_at ?s c' = Some (Waiting call')"
    then show "c' \<in> reply_to ` set (requests ?s)"
      using service_okD(4) [OF assms(1)] assms(2,3) by (auto simp: q split: if_splits)
  next
    show "\<not> receiver_open ?s \<Longrightarrow> requests ?s = []" using assms(3) same by simp
    show "http_open (loop (program ?s))" using assms(3) by (simp add: receiver_open_def)
  qed
qed

lemma deliver_at:
  "client_at (s\<lparr> program := p, requests := q, clients := deliver_reply reply (clients s) \<rparr>) c =
     (case (client_at s c, reply) of
        (Some (Waiting call), Some (c', response)) \<Rightarrow>
          Some (if c' = c then Answered_with call (handler_reply call (Answered response)) else Waiting call)
      | (x, _) \<Rightarrow> x)"
  by (auto simp: client_at_def deliver_reply_def nth_list_update split: client.splits option.splits prod.splits)

lemma deliver_in_progress: "list_ex in_progress (deliver_reply reply cs) \<Longrightarrow> list_ex in_progress cs"
  by (auto simp: deliver_reply_def list_ex_length nth_list_update split: option.splits prod.splits client.splits if_splits)

lemma system_step_running: "system_step os drv checks l p = Some p' \<Longrightarrow> outcome p = None"
  by (auto simp: system_step_def split: if_splits)

lemma service_ok_program:
  assumes ok: "service_ok s" and offered: "offered_to_loop s pl"
    and step: "system_step os drv checks pl (program s) = Some p"
  shows "service_ok (s\<lparr> program := p, requests := (if outcome p = None then requests_left pl (requests s) else []),
      clients := deliver_reply (answer_of os drv pl (program s)) (clients s) \<rparr>)" (is "service_ok ?s")
proof -
  note running = system_step_running [OF step]
  note opened = system_step_http_open [OF step]
  have senders: "senders_alive ?s \<Longrightarrow> senders_alive s"
    using deliver_in_progress by (auto simp: senders_alive_def)
  have receiver: "receiver_open ?s \<Longrightarrow> receiver_open s"
    using running opened by (auto simp: receiver_open_def)
  show ?thesis
  proof (cases "\<exists>now r. pl = Turn now (HttpReceived (Some r))")
    case True
    then obtain now r where pl: "pl = Turn now (HttpReceived (Some r))" by blast
    obtain q where q: "requests s = r # q" using offered offered_Some unfolding pl by blast
    have left: "requests_left pl (requests s) = q" by (simp add: requests_left_def pl q channel_recv_def)
    have answer: "\<exists>response. answer_of os drv pl (program s) = Some (reply_to r, response)"
      by (simp add: pl http_request_reply)
    have other: "reply_to r \<notin> reply_to ` set q" using service_okD(2) [OF ok] q by simp
    show ?thesis
    proof (rule service_okI)
      fix r' assume "r' \<in> set (requests ?s)"
      then have r': "r' \<in> set q" by (simp add: left split: if_splits)
      then have "request_for s r'" using service_okD(3) [OF ok] q by simp
      moreover have "reply_to r \<noteq> reply_to r'" using other r' by auto
      ultimately show "request_for ?s r'" using answer by (auto simp: request_for_def deliver_at)
    next
      fix c call assume c: "receiver_open ?s" "client_at ?s c = Some (Waiting call)"
      then have "client_at s c = Some (Waiting call)" "c \<noteq> reply_to r"
        using answer by (auto simp: deliver_at split: option.splits client.splits if_splits)
      then have "c \<in> reply_to ` set q" using service_okD(4) [OF ok receiver [OF c(1)]] q by auto
      then show "c \<in> reply_to ` set (requests ?s)" using c(1) by (simp add: receiver_open_def left)
    next
      show "\<not> receiver_open ?s \<Longrightarrow> requests ?s = []"
        using opened offered by (auto simp: receiver_open_def pl offered_Some)
      show "senders_alive ?s \<Longrightarrow> http_open (loop (program ?s))"
        using senders service_okD(6) [OF ok] opened pl by simp
    qed (use service_okD(1,2) [OF ok] left q in \<open>simp_all\<close>)
  next
    case False
    then have none: "answer_of os drv pl (program s) = None" "requests_left pl (requests s) = requests s"
      using answer_of_other requests_left_other by blast+
    have at: "client_at ?s = client_at s" by (simp add: none deliver_reply_def client_at_def fun_eq_iff)
    have gone: "pl = Turn now (HttpReceived None) \<Longrightarrow> requests s = [] \<and> \<not> senders_alive s" for now
      using offered by (simp add: offered_None)
    show ?thesis
    proof (rule service_okI)
      fix r assume "r \<in> set (requests ?s)"
      then have "request_for s r" using service_okD(3) [OF ok] by (simp add: none split: if_splits)
      then show "request_for ?s r" by (simp only: request_for_def at)
    next
      fix c call assume c: "receiver_open ?s" "client_at ?s c = Some (Waiting call)"
      then show "c \<in> reply_to ` set (requests ?s)"
        using service_okD(4) [OF ok receiver [OF c(1)] c(2) [unfolded at]] c(1) by (simp add: none receiver_open_def)
    next
      assume "\<not> receiver_open ?s"
      then show "requests ?s = []" using service_okD(5) [OF ok] opened gone running
        by (auto simp: receiver_open_def none)
    next
      assume "senders_alive ?s"
      then show "http_open (loop (program ?s))" using senders service_okD(6) [OF ok] opened gone by auto
    qed (use service_okD(1,2) [OF ok] none in simp_all)
  qed
qed

lemma service_ok_step:
  assumes "service_ok s" and "service_step os drv checks l s = Some s'"
  shows "service_ok s'"
proof (cases l)
  case (Enqueue c)
  then show ?thesis using assms service_ok_enqueue [OF assms(1)]
    by (auto simp: service_step_def split: option.splits client.splits if_splits)
next
  case (Refuse c)
  then obtain call where "client_at s c = Some (Sending call)"
      "s' = set_client c (Answered_with call (handler_reply call SendFailed)) s"
    using assms(2) by (auto simp: service_step_def split: option.splits client.splits if_splits)
  then show ?thesis
    using service_ok_handler [OF assms(1), of c "Sending call" "Answered_with call (handler_reply call SendFailed)"] by simp
next
  case (Unanswered c)
  then obtain call where "client_at s c = Some (Waiting call)" "\<not> receiver_open s"
      "s' = set_client c (Answered_with call (handler_reply call ReplyDropped)) s"
    using assms(2) by (auto simp: service_step_def split: option.splits client.splits if_splits)
  then show ?thesis
    using service_ok_handler [OF assms(1), of c "Waiting call" "Answered_with call (handler_reply call ReplyDropped)"] by simp
next
  case (HangUp c)
  then obtain x call where "client_at s c = Some x" "x = Sending call \<or> x = Waiting call"
      "s' = set_client c (HungUp call) s"
    using assms(2) by (auto simp: service_step_def split: option.splits client.splits)
  then show ?thesis using service_ok_handler [OF assms(1), of c x "HungUp call"] by auto
next
  case ServerGone
  then have s': "s' = s\<lparr> serving := False \<rparr>" using assms(2) by (simp add: service_step_def)
  have same: "client_at s' = client_at s" "receiver_open s' = receiver_open s" "request_for s' = request_for s"
      "requests s' = requests s" "program s' = program s"
    by (simp_all add: s' client_at_def receiver_open_def request_for_def fun_eq_iff)
  have "senders_alive s' \<Longrightarrow> senders_alive s" by (auto simp: s' senders_alive_def)
  then show ?thesis using service_okD [OF assms(1)] by (intro service_okI) (simp_all add: same)
next
  case (Program pl)
  then obtain p where "offered_to_loop s pl" "system_step os drv checks pl (program s) = Some p"
    "s' = s\<lparr> program := p, requests := (if outcome p = None then requests_left pl (requests s) else []),
      clients := deliver_reply (answer_of os drv pl (program s)) (clients s) \<rparr>"
    using assms(2) by (auto elim: program_stepE)
  then show ?thesis using service_ok_program [OF assms(1)] by simp
next
  case (Arrive call)
  then have "serving s" "s' = s\<lparr> clients := clients s @ [Sending call] \<rparr>"
    using assms(2) by (auto simp: service_step_def split: if_splits)
  then show ?thesis using service_ok_arrive [OF assms(1)] by simp
qed

lemma service_ok_reachable:
  assumes "service_reachable env os drv checks s0 s" and "service_ok s0"
  shows "service_ok s"
  using assms by (induction rule: service_reachable.induct) (auto intro: service_ok_step)

lemma service_ok_start: "http_open (loop p) \<Longrightarrow> service_ok (service_start p)"
  by (simp add: service_ok_def service_start_def client_at_def create_http_channel_def receiver_open_def)

lemma system_start_http_open: "system_start os h d = Inr p \<Longrightarrow> http_open (loop p)"
  by (auto simp: system_start_def run_start_def split: prod.splits sum.splits)

lemmas started_service_ok = service_ok_reachable [OF _ service_ok_start [OF system_start_http_open]]

section \<open>What administration promises\<close>

text \<open>
  The reply a call must get from a daemon that takes it in state \<open>d\<close>, and what becomes of the routes
  in use: a listing of the database, a new local route, or an error that changes nothing.
\<close>

definition administered ::
  "'n os \<Rightarrow> ('d, 'n) RipDeamon \<Rightarrow> api_call \<Rightarrow> http_reply \<times> rib" where
  "administered os d call =
     (case call_kind call of
        GetRoutes \<Rightarrow>
          (\<lparr> status_code = 200, body = JsonRoutes (HttpRoute_from_database (database d)) \<rparr>, rib_of (database d))
      | AddLocalRoute network \<Rightarrow>
          (case snd (advertised_network_to_local_route os network (world d)) of
             Inl err \<Rightarrow> (\<lparr> status_code = 400, body = Text (RipError_to_string err) \<rparr>, rib_of (database d))
           | Inr lr \<Rightarrow>
               let k = build_route_key (lr_entry lr)
               in if rib_of (database d) k \<noteq> None
                  then (\<lparr> status_code = 400,
                          body = Text (RipError_to_string (InvalidConfiguration (route_exists_msg k))) \<rparr>,
                        rib_of (database d))
                  else (\<lparr> status_code = 200, body = JsonStatus \<lparr> status = ''ok'' \<rparr> \<rparr>,
                        (rib_of (database d))(k \<mapsto> \<lparr> rr_entry = lr_entry lr, rr_if_index = lr_if_index lr,
                                                      rr_if_name = lr_if_name lr \<rparr>))))"

lemma setup_network_spec:
  "(case snd (setup_advertised_network os network d) of
      Inr _ \<Rightarrow> \<lparr> status_code = 200, body = JsonStatus \<lparr> status = ''ok'' \<rparr> \<rparr>
    | Inl err \<Rightarrow> \<lparr> status_code = 400, body = Text (RipError_to_string err) \<rparr>,
    rib_of (database (fst (setup_advertised_network os network d)))) =
   (case snd (advertised_network_to_local_route os network (world d)) of
      Inl err \<Rightarrow> (\<lparr> status_code = 400, body = Text (RipError_to_string err) \<rparr>, rib_of (database d))
    | Inr lr \<Rightarrow>
        let k = build_route_key (lr_entry lr)
        in if rib_of (database d) k \<noteq> None
           then (\<lparr> status_code = 400, body = Text (RipError_to_string (InvalidConfiguration (route_exists_msg k))) \<rparr>,
                 rib_of (database d))
           else (\<lparr> status_code = 200, body = JsonStatus \<lparr> status = ''ok'' \<rparr> \<rparr>,
                 (rib_of (database d))(k \<mapsto> \<lparr> rr_entry = lr_entry lr, rr_if_index = lr_if_index lr,
                                               rr_if_name = lr_if_name lr \<rparr>)))"
  by (auto simp: setup_advertised_network_def on_field_eqs and_then_def add_local_route_eq rib_of_get_route Let_def
      split: sum.splits)

lemma handler_reply_eq:
  "handler_reply call (Answered (snd (snd (handle_http_request os \<lparr> kind = call_kind call, reply_to = c \<rparr> d)))) =
     fst (administered os d call)"
  "rib_of (database (fst (handle_http_request os r d))) =
     (case kind r of GetRoutes \<Rightarrow> rib_of (database d)
      | AddLocalRoute network \<Rightarrow> rib_of (database (fst (setup_advertised_network os network d))))"
proof -
  have "handler_reply call (Answered (snd (snd (handle_http_request os \<lparr> kind = call_kind call, reply_to = c \<rparr> d)))) =
     (case call_kind call of
        GetRoutes \<Rightarrow> \<lparr> status_code = 200, body = JsonRoutes (HttpRoute_from_database (database d)) \<rparr>
      | AddLocalRoute network \<Rightarrow>
          (case snd (setup_advertised_network os network d) of
             Inr _ \<Rightarrow> \<lparr> status_code = 200, body = JsonStatus \<lparr> status = ''ok'' \<rparr> \<rparr>
           | Inl err \<Rightarrow> \<lparr> status_code = 400, body = Text (RipError_to_string err) \<rparr>))"
    by (cases call)
       (auto simp: http_request_reply http_get_routes_def http_add_local_route_def send_http_request_def split: sum.splits)
  also have "\<dots> = fst (administered os d call)"
    unfolding administered_def
    by (cases "call_kind call") (simp_all add: setup_network_spec [THEN arg_cong [where f = fst], simplified])
  finally show "handler_reply call
      (Answered (snd (snd (handle_http_request os \<lparr> kind = call_kind call, reply_to = c \<rparr> d)))) = fst (administered os d call)" .
qed (simp add: http_request_database split: HttpRequestKind.splits)

lemma triggered_update_rib [simp]:
  "rib_of (database (deamon (fst (triggered_update os st)))) = rib_of (database (deamon st))"
  by (auto simp: triggered_update_def maybe_send_triggered_update_def on_world_eq sleep_timer_def
      send_multicast_advertisement_def map_err_def and_then_def split: prod.splits sum.splits)

lemma http_turn_rib:
  assumes "system_step os drv checks (Turn now (HttpReceived (Some \<lparr> kind = call_kind call, reply_to = c \<rparr>))) p = Some p'"
  shows "rib_of (database (deamon (loop p'))) = snd (administered os (deamon (loop p)) call)"
proof -
  let ?r = "\<lparr> kind = call_kind call, reply_to = c \<rparr>"
  let ?turn = "run_turn os drv (HttpReceived (Some ?r)) (loop p)"
  have "loop p' = fst ?turn" using assms by (auto simp: system_step_def split: if_splits prod.splits)
  moreover obtain st1 reply where on: "on_deamon (handle_http_request os ?r) (loop p) = (st1, reply)" by (meson surj_pair)
  then have arm: "select_arm os drv (HttpReceived (Some ?r)) (loop p) = (st1, Continue (Some reply))"
    by (simp add: select_arm_def)
  moreover have "rib_of (database (deamon (fst ?turn))) = rib_of (database (deamon st1))"
    using triggered_update_rib [of os st1] arm
    by (cases "triggered_update os st1"; cases "snd (triggered_update os st1)") (auto simp: run_turn_def)
  moreover have "database (deamon st1) = database (fst (handle_http_request os ?r (deamon (loop p))))"
    using arm select_arm_db(1) [of os drv "HttpReceived (Some ?r)" "loop p"] by (simp add: arm_deamon_def)
  moreover have "rib_of (database (fst (handle_http_request os ?r (deamon (loop p))))) =
      snd (administered os (deamon (loop p)) call)"
    unfolding administered_def handler_reply_eq(2)
    by (cases "call_kind call") (simp_all add: setup_network_spec [THEN arg_cong [where f = snd], simplified])
  ultimately show ?thesis by simp
qed

text \<open>Who gets an answer in a step, and which.\<close>

lemma reply_of_step:
  assumes ok: "service_ok s" and step: "service_step os drv checks l s = Some s'"
    and before: "client_at s c = Some x" "in_progress x" and after: "client_at s' c = Some (Answered_with call reply)"
  shows "(\<exists>now. l = Program (Turn now (HttpReceived (Some \<lparr> kind = call_kind call, reply_to = c \<rparr>)))
        \<and> hd (requests s) = \<lparr> kind = call_kind call, reply_to = c \<rparr> \<and> requests s \<noteq> []
        \<and> x = Waiting call
        \<and> (reply, rib_of (database (deamon (loop (program s'))))) = administered os (deamon (loop (program s))) call)
    \<or> \<not> receiver_open s \<and> status_code reply = 503 \<and> (x = Sending call \<or> x = Waiting call)"
proof (cases l)
  case (Arrive call')
  then show ?thesis using step before after
    by (auto simp: service_step_def client_at_def nth_append split: if_splits)
next
  case (Enqueue c')
  then show ?thesis using step before after
    by (auto simp: service_step_def split: option.splits client.splits if_splits)
next
  case (HangUp c')
  then show ?thesis using step before after
    by (auto simp: service_step_def split: option.splits client.splits if_splits)
next
  case (Refuse c')
  then show ?thesis using step before after
    by (cases call) (auto simp: service_step_def http_get_routes_def http_add_local_route_def send_http_request_def
        split: option.splits client.splits if_splits)
next
  case (Unanswered c')
  then show ?thesis using step before after
    by (cases call) (auto simp: service_step_def http_get_routes_def http_add_local_route_def send_http_request_def
        split: option.splits client.splits if_splits)
next
  case ServerGone
  then have "client_at s' = client_at s" using step by (auto simp: service_step_def client_at_def fun_eq_iff)
  then show ?thesis using before after by auto
next
  case (Program pl)
  then obtain p where p: "offered_to_loop s pl" "system_step os drv checks pl (program s) = Some p"
    "s' = s\<lparr> program := p, requests := (if outcome p = None then requests_left pl (requests s) else []),
      clients := deliver_reply (answer_of os drv pl (program s)) (clients s) \<rparr>"
    using step by (auto elim: program_stepE)
  from after obtain response where got: "x = Waiting call" "answer_of os drv pl (program s) = Some (c, response)"
      "reply = handler_reply call (Answered response)"
    using before unfolding p(3) deliver_at by (cases x) (auto split: option.splits if_splits)
  then obtain now r where pl: "pl = Turn now (HttpReceived (Some r))"
    using answer_of_other [of pl os drv "program s"] by auto
  obtain q where q: "requests s = r # q" using p(1) offered_Some unfolding pl by blast
  have "request_for s r" using service_okD(3) [OF ok] q by simp
  moreover have c: "reply_to r = c" "response = snd (snd (handle_http_request os r (deamon (loop (program s)))))"
    using got(2) by (simp_all add: pl http_request_reply)
  ultimately have r: "r = \<lparr> kind = call_kind call, reply_to = c \<rparr>"
    using before(1) got(1) by (auto simp: request_for_def)
  have "reply = fst (administered os (deamon (loop (program s))) call)"
    using got(3) c(2) r handler_reply_eq(1) [of call os c "deamon (loop (program s))"] by simp
  moreover have "rib_of (database (deamon (loop (program s')))) = snd (administered os (deamon (loop (program s))) call)"
    using http_turn_rib p(2,3) unfolding pl r by simp
  ultimately show ?thesis using Program got(1) q unfolding pl r by (simp add: prod_eq_iff)
qed

section \<open>Waiting for a turn\<close>

fun service_run ::
  "'n os \<Rightarrow> 'd RoutingTableDriver \<Rightarrow> bool \<Rightarrow> service_label list \<Rightarrow> ('d, 'n) service \<Rightarrow> ('d, 'n) service option" where
  "service_run os drv checks [] s = Some s"
| "service_run os drv checks (l # ls) s =
     (case service_step os drv checks l s of None \<Rightarrow> None | Some s' \<Rightarrow> service_run os drv checks ls s')"

fun takes_request :: "service_label \<Rightarrow> bool" where
  "takes_request (Program (Turn _ (HttpReceived (Some _)))) = True"
| "takes_request _ = False"

lemma takes_requestE:
  assumes "takes_request l"
  obtains now r where "l = Program (Turn now (HttpReceived (Some r)))"
  using assms by (cases l rule: takes_request.cases) auto

lemma program_step_running:
  "service_step os drv checks (Program pl) s = Some s' \<Longrightarrow> outcome (program s) = None"
  by (erule program_stepE) (rule system_step_running)

lemma ended_step: "service_step os drv checks l s = Some s' \<Longrightarrow> outcome (program s) \<noteq> None \<Longrightarrow> outcome (program s') \<noteq> None"
  using service_step_program [of os drv checks l s s'] program_step_running by fastforce

lemma ended_run:
  "service_run os drv checks ls s = Some s' \<Longrightarrow> outcome (program s) \<noteq> None \<Longrightarrow> filter takes_request ls = []"
proof (induction ls arbitrary: s)
  case (Cons l ls)
  then obtain s1 where s1: "service_step os drv checks l s = Some s1" "service_run os drv checks ls s1 = Some s'"
    by (auto split: option.splits)
  have "outcome (program s) = None" if "takes_request l"
    using that s1(1) by (auto elim!: takes_requestE dest: program_step_running)
  then have "\<not> takes_request l" using Cons.prems(2) by blast
  then show ?case using Cons.IH [OF s1(2) ended_step [OF s1(1) Cons.prems(2)]] by simp
qed simp

lemma answered_stays:
  assumes "service_run os drv checks ls s = Some s'" and "client_at s c = Some (Answered_with call reply)"
  shows "client_at s' c = Some (Answered_with call reply)"
  using assms
proof (induction ls arbitrary: s)
  case (Cons l ls)
  then obtain s1 where s1: "service_step os drv checks l s = Some s1" "service_run os drv checks ls s1 = Some s'"
    by (auto split: option.splits)
  have "client_at s1 c = Some (Answered_with call reply)"
  proof (cases l)
    case (Program pl)
    then show ?thesis using s1(1) Cons.prems(2) by (auto simp: service_step_def deliver_at split: if_splits)
  next
    case (Arrive call')
    then show ?thesis using s1(1) Cons.prems(2) by (auto simp: service_step_def client_at_def nth_append split: if_splits)
  next
    case ServerGone
    then show ?thesis using s1(1) Cons.prems(2) by (auto simp: service_step_def)
  qed (use s1(1) Cons.prems(2) in \<open>auto simp: service_step_def split: option.splits client.splits if_splits\<close>)
  then show ?case by (rule Cons.IH [OF s1(2)])
qed simp

text \<open>A step that takes no request leaves a waiting client and the requests before its own alone.\<close>

lemma waits_on:
  assumes ok: "service_ok s" and step: "service_step os drv checks l s = Some s'"
    and q: "requests s = pre @ r # post" and c: "client_at s (reply_to r) = Some (Waiting call)"
    and l: "l \<noteq> HangUp (reply_to r)" "\<not> takes_request l"
  shows "client_at s' (reply_to r) = Some (Waiting call)
    \<and> (outcome (program s') = None \<longrightarrow> (\<exists>post'. requests s' = pre @ r # post'))"
proof (cases l)
  case (Program pl)
  then have other: "pl \<noteq> Turn now (HttpReceived (Some r'))" for now r' using l(2) by auto
  obtain p where p: "s' = s\<lparr> program := p, requests := (if outcome p = None then requests_left pl (requests s) else []),
      clients := deliver_reply (answer_of os drv pl (program s)) (clients s) \<rparr>"
    using step unfolding Program by (auto elim: program_stepE)
  have "answer_of os drv pl (program s) = None" "requests_left pl (requests s) = requests s"
    using answer_of_other requests_left_other other by blast+
  then show ?thesis using c q unfolding p by (simp add: deliver_at [where reply = None])
next
  case (Arrive call')
  then show ?thesis using step c q by (auto simp: service_step_def client_at_def nth_append split: if_splits)
next
  case ServerGone
  then show ?thesis using step c q by (auto simp: service_step_def)
next
  case (Enqueue c')
  then show ?thesis using step c q
    by (auto simp: service_step_def channel_send_Some split: option.splits client.splits if_splits)
next
  case (Refuse c')
  then show ?thesis using step c q by (auto simp: service_step_def split: option.splits client.splits if_splits)
next
  case (Unanswered c')
  have "receiver_open s" using service_okD(5) [OF ok] q by auto
  then show ?thesis using Unanswered step by (auto simp: service_step_def split: option.splits client.splits)
next
  case (HangUp c')
  then show ?thesis using step c q l(1) by (auto simp: service_step_def split: option.splits client.splits)
qed

lemma answered_by_turns:
  assumes "service_ok s" and "service_run os drv checks ls s = Some s'"
    and "requests s = pre @ r # post" and "client_at s (reply_to r) = Some (Waiting call)"
    and "HangUp (reply_to r) \<notin> set ls" and "length pre < length (filter takes_request ls)"
  shows "\<exists>reply. client_at s' (reply_to r) = Some (Answered_with call reply) \<and> status_code reply \<noteq> 503"
  using assms
proof (induction ls arbitrary: s pre post)
  case (Cons l ls)
  then obtain s1 where s1: "service_step os drv checks l s = Some s1" "service_run os drv checks ls s1 = Some s'"
    by (auto split: option.splits)
  note ok1 = service_ok_step [OF Cons.prems(1) s1(1)]
  have running: "outcome (program s1) = None" if "filter takes_request ls \<noteq> []"
    using ended_run [OF s1(2)] that by blast
  show ?case
  proof (cases "takes_request l")
    case False
    note w = waits_on [OF Cons.prems(1) s1(1) Cons.prems(3,4) _ False]
    have "outcome (program s1) = None" using Cons.prems(6) False by (intro running) auto
    then show ?thesis using w Cons.IH [OF ok1 s1(2)] Cons.prems(5,6) False by auto
  next
    case True
    then obtain now r0 where l: "l = Program (Turn now (HttpReceived (Some r0)))" by (rule takes_requestE)
    then obtain p where p: "offered_to_loop s (Turn now (HttpReceived (Some r0)))"
      "s1 = s\<lparr> program := p,
          requests := (if outcome p = None then requests_left (Turn now (HttpReceived (Some r0))) (requests s) else []),
          clients := deliver_reply (answer_of os drv (Turn now (HttpReceived (Some r0))) (program s)) (clients s) \<rparr>"
      using s1(1) unfolding l by (auto elim: program_stepE)
    obtain q where q: "requests s = r0 # q" using p(1) offered_Some by blast
    obtain response where a: "answer_of os drv (Turn now (HttpReceived (Some r0))) (program s) = Some (reply_to r0, response)"
      by (simp add: http_request_reply)
    show ?thesis
    proof (cases pre)
      case Nil
      then have "r0 = r" using q Cons.prems(3) by simp
      then have "client_at s1 (reply_to r) = Some (Answered_with call (handler_reply call (Answered response)))"
        using Cons.prems(4) unfolding p(2) a deliver_at by simp
      moreover have "status_code (handler_reply call (Answered response)) \<noteq> 503"
        by (cases call) (auto simp: http_get_routes_def http_add_local_route_def send_http_request_def
            unexpected_response_def split: HttpResponse.splits)
      ultimately show ?thesis using answered_stays [OF s1(2)] by blast
    next
      case (Cons r' pre')
      then have pre: "pre = r0 # pre'" "q = pre' @ r # post" using q Cons.prems(3) by simp_all
      have "reply_to r0 \<noteq> reply_to r" using service_okD(2) [OF Cons.prems(1)] q pre by auto
      then have w: "client_at s1 (reply_to r) = Some (Waiting call)"
        using Cons.prems(4) unfolding p(2) a deliver_at by simp
      have "length pre' < length (filter takes_request ls)" using Cons.prems(6) pre True by simp
      moreover from this have "outcome (program s1) = None" by (intro running) auto
      then have "requests s1 = pre' @ r # post" using p(2) q pre by (simp add: requests_left_def channel_recv_def)
      ultimately show ?thesis using Cons.IH [OF ok1 s1(2) _ w] Cons.prems(5) by simp
    qed
  qed
qed simp

lemma http_turn_possible:
  assumes "receiver_open s" and "requests s \<noteq> []"
  shows "service_step os drv checks (Program (Turn now (HttpReceived (Some (hd (requests s)))))) s \<noteq> None"
  using assms
  by (cases "requests s")
     (auto simp: service_step_def offered_Some receiver_open_def system_step_def ready_def available_def split: prod.splits)

section \<open>The packet channel\<close>

text \<open>What the receive tasks put on their channel in a run, and what the loop takes off it.\<close>

fun received_packet :: "bool \<Rightarrow> label \<Rightarrow> ('d, 'n) system \<Rightarrow> RipPacket channel_op list" where
  "received_packet checks (Datagram i bs a) s =
     (case snd (rx_task_received checks bs a (tasks s ! i)) of None \<Rightarrow> [] | Some packet \<Rightarrow> [Sent packet])"
| "received_packet checks (Turn _ (Received (Some packet))) s = [Taken packet]"
| "received_packet checks _ s = []"

fun system_run ::
  "'n os \<Rightarrow> 'd RoutingTableDriver \<Rightarrow> bool \<Rightarrow> label list \<Rightarrow> ('d, 'n) system
    \<Rightarrow> (('d, 'n) system \<times> RipPacket channel_op list) option" where
  "system_run os drv checks [] s = Some (s, [])"
| "system_run os drv checks (l # ls) s =
     (case system_step os drv checks l s of
        None \<Rightarrow> None
      | Some s' \<Rightarrow> map_option (\<lambda>(s'', ops). (s'', received_packet checks l s @ ops)) (system_run os drv checks ls s'))"

lemma queue_step:
  assumes "system_step os drv checks l s = Some s'"
  shows "mpsc.channel_run RX_CHANNEL_CAPACITY (received_packet checks l s @ ops) (queue s) =
    mpsc.channel_run RX_CHANNEL_CAPACITY ops (queue s')"
proof (cases l)
  case (Datagram i bs a)
  then show ?thesis using assms
    by (auto simp: system_step_def channel_send_def split: if_splits prod.splits option.splits)
next
  case (Turn now ev)
  show ?thesis
  proof (cases "\<exists>packet. ev = Received (Some packet)")
    case True
    then show ?thesis using assms Turn
      by (cases "queue s") (auto simp: system_step_def available_def channel_recv_def split: if_splits prod.splits)
  next
    case False
    then have "received_packet checks l s = []" "queue s' = queue s" using assms Turn
      by (auto simp: system_step_def split: if_splits prod.splits event.splits option.splits)
    then show ?thesis by simp
  qed
qed (use assms in \<open>auto simp: system_step_def set_database_def split: if_splits\<close>)

lemma system_run_channel:
  "system_run os drv checks ls s = Some (s', ops) \<Longrightarrow>
     mpsc.channel_run RX_CHANNEL_CAPACITY ops (queue s) = Some (queue s')"
proof (induction ls arbitrary: s ops)
  case (Cons l ls)
  then obtain s1 ops1 where "system_step os drv checks l s = Some s1" "system_run os drv checks ls s1 = Some (s', ops1)"
    "ops = received_packet checks l s @ ops1" by (auto split: option.splits)
  then show ?case using queue_step Cons.IH by metis
qed simp

section \<open>Samples\<close>

text \<open>The sample daemon with one client that waits for the list of routes.\<close>

definition sample_request :: HttpRequest where
  "sample_request = \<lparr> kind = GetRoutes, reply_to = 0 \<rparr>"

definition sample_service :: "(RouteMessage list, unit) service" where
  "sample_service =
     \<lparr> program = sample_system, requests = [sample_request], clients = [Waiting Call_get_routes], serving = True \<rparr>"

lemma sample_system_frame: "outcome sample_system = None" "http_open (loop sample_system)" "queue sample_system = []"
  using system_start_frame(3,4) [OF sample_system_start] system_start_http_open [OF sample_system_start] by simp_all

lemma sample_receiver: "receiver_open sample_service"
  by (simp add: receiver_open_def sample_service_def sample_system_frame)

lemma sample_service_reachable:
  "service_reachable has_sender quiet_os table_driver True (service_start sample_system) sample_service"
proof -
  let ?s1 = "(service_start sample_system)\<lparr> clients := [Sending Call_get_routes] \<rparr>"
  have "service_step quiet_os table_driver True (Arrive Call_get_routes) (service_start sample_system) = Some ?s1"
    by (simp add: service_step_def service_start_def)
  from service_next [OF service_begin _ this]
  have reached: "service_reachable has_sender quiet_os table_driver True (service_start sample_system) ?s1" by simp
  have "service_step quiet_os table_driver True (Enqueue 0) ?s1 = Some sample_service"
    by (simp add: service_step_def service_start_def client_at_def channel_send_def create_http_channel_def
        set_client_def receiver_open_def sample_system_frame sample_service_def sample_request_def)
  from service_next [OF reached _ this] show ?thesis by simp
qed

lemma sample_service_turn:
  obtains s' where "service_step quiet_os table_driver True (Program (Turn 0 (HttpReceived (Some sample_request))))
      sample_service = Some s'"
proof -
  have "requests sample_service = [sample_request]" by (simp add: sample_service_def)
  then show thesis using http_turn_possible [OF sample_receiver, of quiet_os table_driver True 0] that by auto
qed

lemma sample_waiting: "client_at sample_service 0 = Some (Waiting Call_get_routes)"
  by (simp add: client_at_def sample_service_def)

section \<open>Properties\<close>

text \<open>
  C19: administration requests are accounted for. Whatever handlers, clients, receive tasks and the
  loop do, in any order: at most 32 requests are on the channel, each with a reply channel of its own;
  while the loop listens, every handler that waits for an answer has exactly one request there, the one it
  was called for; and the loop has not stopped listening while a handler still has something to ask.
\<close>

theorem requests_accounted_for:
  assumes "system_start os h d = Inr p" and "service_reachable env os drv checks (service_start p) s"
  shows "length (requests s) \<le> 32 \<and> distinct (map reply_to (requests s))
    \<and> (receiver_open s \<longrightarrow> (\<forall>c call. client_at s c = Some (Waiting call) \<longrightarrow>
         (\<exists>!r. r \<in> set (requests s) \<and> reply_to r = c) \<and> \<lparr> kind = call_kind call, reply_to = c \<rparr> \<in> set (requests s)))
    \<and> (\<forall>c x. client_at s c = Some x \<and> in_progress x \<and> outcome (program s) = None \<longrightarrow> receiver_open s)"
proof -
  note ok = started_service_ok [OF assms(2,1)]
  have only: "(\<exists>!r. r \<in> set (requests s) \<and> reply_to r = c) \<and> \<lparr> kind = call_kind call, reply_to = c \<rparr> \<in> set (requests s)"
    if c: "receiver_open s" "client_at s c = Some (Waiting call)" for c call
  proof -
    obtain r where r: "r \<in> set (requests s)" "reply_to r = c" using service_okD(4) [OF ok c] by auto
    then have "r = \<lparr> kind = call_kind call, reply_to = c \<rparr>"
      using service_okD(3) [OF ok r(1)] c(2) by (auto simp: request_for_def)
    moreover have "r' = r" if "r' \<in> set (requests s)" "reply_to r' = c" for r'
      using service_okD(2) [OF ok] r that by (auto simp: distinct_map dest: inj_onD)
    ultimately show ?thesis using r by blast
  qed
  have "receiver_open s" if "client_at s c = Some x" "in_progress x" "outcome (program s) = None" for c x
    using service_okD(6) [OF ok client_at_in_progress [OF that(1,2)]] that(3) by (simp add: receiver_open_def)
  then show ?thesis using only service_okD(1,2) [OF ok] by (auto simp: create_http_channel_def)
qed

theorem requests_accounted_for_witness:
  "\<exists>!r. r \<in> set (requests sample_service) \<and> reply_to r = 0"
  using requests_accounted_for [OF sample_system_start sample_service_reachable] sample_receiver sample_waiting
  by blast

text \<open>
  C8: administrators are answered as promised. When a handler that is at work replies in some step of the
  running program, then either the loop has ended and the status is 503, or the loop has just taken the
  handler's request as the first on the channel, and the reply and the routes in use after the whole
  turn are those \<open>administered\<close> prescribes for the state of the daemon before it: the current listing, the
  new route, or an error with the routes as they were. No other status is ever given.
\<close>

theorem answered_as_promised:
  assumes "system_start os h d = Inr p" and "service_reachable env os drv checks (service_start p) s"
    and "service_step os drv checks l s = Some s'" and "client_at s c = Some x" and "in_progress x"
    and "client_at s' c = Some (Answered_with call reply)"
  shows "(\<exists>now. l = Program (Turn now (HttpReceived (Some \<lparr> kind = call_kind call, reply_to = c \<rparr>)))
        \<and> hd (requests s) = \<lparr> kind = call_kind call, reply_to = c \<rparr> \<and> requests s \<noteq> []
        \<and> x = Waiting call
        \<and> (reply, rib_of (database (deamon (loop (program s'))))) = administered os (deamon (loop (program s))) call)
    \<or> \<not> receiver_open s \<and> status_code reply = 503 \<and> (x = Sending call \<or> x = Waiting call)"
  by (rule reply_of_step [OF started_service_ok [OF assms(2,1)] assms(3-6)])

theorem answered_as_promised_witness:
  "\<exists>s' reply. service_step quiet_os table_driver True (Program (Turn 0 (HttpReceived (Some sample_request)))) sample_service = Some s'
     \<and> client_at s' 0 = Some (Answered_with Call_get_routes reply)
     \<and> reply = fst (administered quiet_os (deamon (loop sample_system)) Call_get_routes)"
proof -
  obtain s' where step: "service_step quiet_os table_driver True (Program (Turn 0 (HttpReceived (Some sample_request)))) sample_service = Some s'"
    by (rule sample_service_turn)
  then have "\<exists>reply. client_at s' 0 = Some (Answered_with Call_get_routes reply)"
    by (auto elim!: program_stepE simp: deliver_at sample_waiting sample_request_def http_request_reply)
  then obtain reply where reply: "client_at s' 0 = Some (Answered_with Call_get_routes reply)" ..
  from answered_as_promised [OF sample_system_start sample_service_reachable step sample_waiting _ reply]
  have "reply = fst (administered quiet_os (deamon (loop sample_system)) Call_get_routes)"
    using sample_receiver by (auto simp: sample_service_def dest: arg_cong [where f = fst])
  then show ?thesis using step reply by blast
qed

text \<open>
  C18: a waiting administrator is served. While the loop listens and a handler waits, the loop's branch for
  requests can be taken at any time; and when the loop has taken as many requests as stood before the
  handler's on the channel and one more, whatever else happened meanwhile, then the handler, unless its
  client hung up, has a reply from the daemon, not a 503.
\<close>

theorem waiting_client_is_served:
  assumes "system_start os h d = Inr p" and "service_reachable env os drv checks (service_start p) s"
    and "client_at s c = Some (Waiting call)" and "receiver_open s"
  shows "(\<forall>now. service_step os drv checks (Program (Turn now (HttpReceived (Some (hd (requests s)))))) s \<noteq> None)
    \<and> (\<exists>i < length (requests s). reply_to (requests s ! i) = c
        \<and> (\<forall>ls s'. service_run os drv checks ls s = Some s' \<and> HangUp c \<notin> set ls
              \<and> i < length (filter takes_request ls) \<longrightarrow>
            (\<exists>reply. client_at s' c = Some (Answered_with call reply) \<and> status_code reply \<noteq> 503)))"
proof -
  note ok = started_service_ok [OF assms(2,1)]
  have "c \<in> reply_to ` set (requests s)" by (rule service_okD(4) [OF ok assms(4,3)])
  then obtain i where i: "i < length (requests s)" "reply_to (requests s ! i) = c" by (auto simp: in_set_conv_nth)
  have q: "requests s = take i (requests s) @ requests s ! i # drop (Suc i) (requests s)"
    using i(1) by (rule id_take_nth_drop)
  have "\<exists>reply. client_at s' c = Some (Answered_with call reply) \<and> status_code reply \<noteq> 503"
    if "service_run os drv checks ls s = Some s'" "HangUp c \<notin> set ls" "i < length (filter takes_request ls)" for ls s'
    using answered_by_turns [OF ok that(1) q] assms(3) i that(2,3) by simp
  moreover have "requests s \<noteq> []" using i(1) by auto
  ultimately show ?thesis using i http_turn_possible [OF assms(4)] by blast
qed

theorem waiting_client_is_served_witness:
  "\<exists>s' reply. service_run quiet_os table_driver True [Program (Turn 0 (HttpReceived (Some sample_request)))] sample_service = Some s'
     \<and> client_at s' 0 = Some (Answered_with Call_get_routes reply) \<and> status_code reply \<noteq> 503"
proof -
  obtain s' where "service_step quiet_os table_driver True (Program (Turn 0 (HttpReceived (Some sample_request)))) sample_service = Some s'"
    by (rule sample_service_turn)
  then have run: "service_run quiet_os table_driver True [Program (Turn 0 (HttpReceived (Some sample_request)))] sample_service = Some s'"
    by simp
  have "requests sample_service = [sample_request]" by (simp add: sample_service_def)
  with waiting_client_is_served [OF sample_system_start sample_service_reachable sample_waiting sample_receiver] run
  show ?thesis by fastforce
qed



end
