(* ===== verification/Rip_Timing.thy ===== *)
theory Rip_Timing
  imports Rip_Liveness
begin

text \<open>
  Runs of the loop in time. Each turn is taken at an instant at which its branch is ready, by a clock
  that does not run backwards within a turn; the timers of the loop then bound how often its branches
  are taken. So periodic updates keep their distance, and a route that its neighbour keeps
  confirming is never timed out.
\<close>

section \<open>Timed runs\<close>

text \<open>The turns with their instants; the operating system may be another at every instant.\<close>

fun timed_run ::
  "(Instant \<Rightarrow> 'n os) \<Rightarrow> 'd RoutingTableDriver \<Rightarrow> (Instant \<times> event) list \<Rightarrow> ('d, 'n) RunState
    \<Rightarrow> ('d, 'n) RunState option" where
  "timed_run os drv [] st = Some st"
| "timed_run os drv ((t, ev) # tes) st =
     (if ready t st ev
      then (case run_turn (os t) drv ev st of
              (st', Continue _) \<Rightarrow> timed_run os drv tes st'
            | (_, Returned _) \<Rightarrow> None)
      else None)"

lemma timed_run_Cons:
  "timed_run os drv ((t, ev) # tes) st = Some st' \<longleftrightarrow>
     ready t st ev \<and> (\<exists>st1 reply. run_turn (os t) drv ev st = (st1, Continue reply) \<and> timed_run os drv tes st1 = Some st')"
  by (auto split: prod.splits turn.splits)

lemma timed_run_append:
  "timed_run os drv (tes @ tes') st = Some st' \<longleftrightarrow>
     (\<exists>st1. timed_run os drv tes st = Some st1 \<and> timed_run os drv tes' st1 = Some st')"
proof (induction tes arbitrary: st)
  case (Cons te tes)
  obtain t ev where "te = (t, ev)" by fastforce
  then show ?case using Cons.IH by (auto simp only: append_Cons timed_run_Cons)
qed simp

text \<open>The clock as the turns read it: never before the turn's instant, and at most \<open>late\<close> after it.\<close>

definition clock_within :: "Duration \<Rightarrow> (Instant \<Rightarrow> 'n os) \<Rightarrow> bool" where
  "clock_within late os \<longleftrightarrow>
     (\<forall>t n. t \<le> snd (instant_now (os t) n) \<and> snd (instant_now (os t) n) \<le> t + late)"

section \<open>The timers of the periodic update and of the timeout check\<close>

lemma triggered_update_timers [simp]:
  "update_timer (fst (triggered_update os st)) = update_timer st"
  "timeout_timer (fst (triggered_update os st)) = timeout_timer st"
  by (simp_all add: triggered_update_def split: prod.splits)

lemma select_arm_timers:
  "ev \<noteq> UpdateFired \<Longrightarrow> update_timer (fst (select_arm os drv ev st)) = update_timer st"
  "ev \<noteq> TimeoutFired \<Longrightarrow> timeout_timer (fst (select_arm os drv ev st)) = timeout_timer st"
proof -
  have "(ev \<noteq> UpdateFired \<longrightarrow> update_timer (fst (select_arm os drv ev st)) = update_timer st)
      \<and> (ev \<noteq> TimeoutFired \<longrightarrow> timeout_timer (fst (select_arm os drv ev st)) = timeout_timer st)"
  proof (cases ev)
    case (CtrlC r)
    then show ?thesis by (cases r) (simp_all add: select_arm_def)
  next
    case (Received p)
    then show ?thesis by (cases p) (simp_all add: select_arm_def)
  next
    case (HttpReceived r)
    then show ?thesis by (cases r) (simp_all add: select_arm_def on_deamon_def split: prod.splits)
  qed (auto simp: select_arm_def and_then_def on_deamon_def split: prod.splits sum.splits)
  then show "ev \<noteq> UpdateFired \<Longrightarrow> update_timer (fst (select_arm os drv ev st)) = update_timer st"
    "ev \<noteq> TimeoutFired \<Longrightarrow> timeout_timer (fst (select_arm os drv ev st)) = timeout_timer st" by blast+
qed

lemma turn_timers:
  assumes "run_turn os drv ev st = (st', Continue reply)"
  shows "ev \<noteq> UpdateFired \<Longrightarrow> update_timer st' = update_timer st"
    and "ev \<noteq> TimeoutFired \<Longrightarrow> timeout_timer st' = timeout_timer st"
    and "ev = UpdateFired \<Longrightarrow> \<exists>n n'. update_timer st' =
      snd (instant_now os n) + snd (create_update_duration os n')"
    and "ev = TimeoutFired \<Longrightarrow> \<exists>n. timeout_timer st' =
      snd (instant_now os n) + duration_from_secs (timeout_check_interval_secs os)"
proof -
  obtain st1 where arm: "select_arm os drv ev st = (st1, Continue reply)"
    and trig: "triggered_update os st1 = (st', Inr ())"
    using run_turn_continues [OF assms] by blast
  have same: "update_timer st' = update_timer st1" "timeout_timer st' = timeout_timer st1"
    using triggered_update_timers [of os st1] trig by simp_all
  show "ev \<noteq> UpdateFired \<Longrightarrow> update_timer st' = update_timer st"
    and "ev \<noteq> TimeoutFired \<Longrightarrow> timeout_timer st' = timeout_timer st"
    using select_arm_timers [of ev os drv st] arm same by simp_all
  show "\<exists>n n'. update_timer st' = snd (instant_now os n) + snd (create_update_duration os n')" if "ev = UpdateFired"
    using arm that unfolding same
    by (auto simp: select_arm_def and_then_def on_deamon_def on_world_eq stop_on_error_def split: prod.splits sum.splits)
       blast
  show "\<exists>n. timeout_timer st' = snd (instant_now os n) + duration_from_secs (timeout_check_interval_secs os)"
    if "ev = TimeoutFired"
    using arm that unfolding same
    by (auto simp: select_arm_def and_then_def on_deamon_def on_world_eq stop_on_error_def split: prod.splits sum.splits)
qed

lemma update_duration_bounds:
  "275 * 10 ^ 8 \<le> snd (create_update_duration os n) \<and> snd (create_update_duration os n) \<le> 35 * 10 ^ 9"
  using random_millis_bounds [of 27500 35000 os n]
  by (simp add: create_update_duration_def RIP_UPDATE_MIN_MILLIS_def RIP_UPDATE_MAX_MILLIS_def
      duration_from_millis_def nanos_per_milli_def word_le_nat_alt)

lemma update_timer_run:
  assumes "timed_run os drv tes st = Some st'" and "UpdateFired \<notin> snd ` set tes"
  shows "update_timer st' = update_timer st"
  using assms
proof (induction tes arbitrary: st)
  case (Cons te tes)
  obtain t ev where te: "te = (t, ev)" by fastforce
  obtain st1 reply where turn: "run_turn (os t) drv ev st = (st1, Continue reply)" "timed_run os drv tes st1 = Some st'"
    using Cons.prems(1) unfolding te timed_run_Cons by blast
  then show ?case using Cons.IH [OF turn(2)] Cons.prems(2) turn_timers(1) [OF turn(1)] te by auto
qed simp

text \<open>
  The checks in a run between two instants: each but the first waits for an interval after the one
  before.
\<close>

lemma checks_in_window:
  assumes "timed_run os drv tes st = Some st'" and "clock_within late os"
    and "\<And>t. timeout_check_interval_secs (os t) = c"
    and "\<And>t ev. (t, ev) \<in> set tes \<Longrightarrow> t0 \<le> t \<and> t \<le> t1" and "0 < count_list (map snd tes) TimeoutFired"
  shows "max t0 (timeout_timer st) + (count_list (map snd tes) TimeoutFired - 1) * duration_from_secs c \<le> t1"
  using assms(1,4,5)
proof (induction tes arbitrary: st)
  case (Cons te tes)
  let ?n = "count_list (map snd tes) TimeoutFired" and ?C = "duration_from_secs c"
  obtain t ev where te: "te = (t, ev)" by fastforce
  obtain st1 reply where turn: "ready t st ev" "run_turn (os t) drv ev st = (st1, Continue reply)"
      "timed_run os drv tes st1 = Some st'"
    using Cons.prems(1) unfolding te timed_run_Cons by blast
  have IH: "max t0 (timeout_timer st1) + (?n - 1) * ?C \<le> t1" if "0 < ?n"
    using that by (intro Cons.IH [OF turn(3)]) (use Cons.prems(2) in auto)
  have t: "t0 \<le> t" "t \<le> t1" using Cons.prems(2) te by auto
  show ?case
  proof (cases "ev = TimeoutFired")
    case True
    obtain n where "timeout_timer st1 = snd (instant_now (os t) n) + ?C"
      using turn_timers(4) [OF turn(2) True] assms(3) by auto
    then have "t + ?C \<le> timeout_timer st1" using assms(2) by (simp add: clock_within_def)
    moreover have "timeout_timer st \<le> t" using turn(1) True by (simp add: ready_def)
    moreover have "?n * ?C = ?C + (?n - 1) * ?C" if "0 < ?n" using that by (cases ?n) simp_all
    ultimately show ?thesis using IH t True te by (cases "?n = 0") auto
  next
    case False
    then have "timeout_timer st1 = timeout_timer st" using turn_timers(2) [OF turn(2)] by simp
    then show ?thesis using IH Cons.prems(3) False te by simp
  qed
qed simp

section \<open>A route and its neighbour\<close>

text \<open>
  The route for the destination of \<open>e\<close> is \<open>e\<close>, learned over the interface \<open>info\<close>, and its timeout counter is
  at most \<open>n\<close>.
\<close>

definition learned_as :: "RipEntry \<Rightarrow> RipIfInfo \<Rightarrow> nat \<Rightarrow> RipDatabase \<Rightarrow> bool" where
  "learned_as e info n db \<longleftrightarrow>
     (\<exists>r. get_route db e = Some r \<and> rip_entry r = e \<and> if_index r = info_if_index info \<and> if_name r = info_if_name info
        \<and> \<not> is_local r \<and> unat (timeout_cnt r) \<le> n)"

lemma learned_as_mono: "learned_as e info m db \<Longrightarrow> m \<le> n \<Longrightarrow> learned_as e info n db"
  by (auto simp: learned_as_def)

text \<open>
  What the entry \<open>x\<close> of a packet offers for the destination of \<open>e\<close>: the route as it is, or an offer
  of another neighbour that is no better.
\<close>

definition harmless_entry :: "RipEntry \<Rightarrow> RipIfInfo \<Rightarrow> RipPacket \<Rightarrow> RipEntry \<Rightarrow> bool" where
  "harmless_entry e info packet x \<longleftrightarrow>
     (case response_entry_to_route x packet of
        None \<Rightarrow> True
      | Some re \<Rightarrow>
          build_route_key re = build_route_key e \<longrightarrow>
            (re = e \<and> if_info packet = info) \<or> (next_hop re \<noteq> next_hop e \<and> metric e \<le> metric re))"

fun harmless :: "RipEntry \<Rightarrow> RipIfInfo \<Rightarrow> event \<Rightarrow> bool" where
  "harmless e info (Received (Some packet)) =
     (sa_ip (source packet) \<noteq> 0 \<and> list_all (harmless_entry e info packet) (entries (packet_data packet)))"
| "harmless e info _ = True"

text \<open>A response of the route's neighbour that has the route in it.\<close>

fun confirms :: "RipEntry \<Rightarrow> RipIfInfo \<Rightarrow> event \<Rightarrow> bool" where
  "confirms e info (Received (Some packet)) =
     (RipPacket_is_response packet \<and> sa_port (source packet) = RIP_UDP_PORT \<and> if_info packet = info
      \<and> list_ex (\<lambda>x. response_entry_to_route x packet = Some e) (entries (packet_data packet)))"
| "confirms e info _ = False"

lemma entry_step:
  assumes s: "rib_ok (database s)" and nh: "next_hop re \<noteq> 0" "next_hop e \<noteq> 0" and m: "\<not> metric e \<ge> RIP_INFINITY_METRIC"
    and route: "learned_as e info n (database s)"
    and re: "build_route_key re = build_route_key e \<Longrightarrow>
      (re = e \<and> info' = info) \<or> (next_hop re \<noteq> next_hop e \<and> metric e \<le> metric re)"
  shows "learned_as e info (if re = e \<and> info' = info then 0 else n)
    (database (fst (update_route_from_response os drv re info' s)))"
proof -
  obtain r where r: "get_route (database s) e = Some r" "rip_entry r = e" "if_index r = info_if_index info"
      "if_name r = info_if_name info" "\<not> is_local r" "unat (timeout_cnt r) \<le> n"
    using route by (auto simp: learned_as_def)
  consider (other) "build_route_key re \<noteq> build_route_key e" | (same) "re = e" "info' = info"
    | (worse) "build_route_key re = build_route_key e" "next_hop re \<noteq> next_hop e" "metric e \<le> metric re"
    using re by blast
  then show ?thesis
  proof cases
    case other
    have "learned_as e info n (database (fst (update_route_from_response os drv re info' s)))"
      using route update_other_key [OF s nh(1) other] by (simp add: learned_as_def get_route_def)
    then show ?thesis using other by auto
  next
    case same
    then show ?thesis
      using r m by (simp add: update_route_from_response_def Let_def route_is_from_current_next_hop_def learned_as_def
          refresh_get_route)
  next
    case worse
    have get: "get_route (database s) re = Some r" using r(1) worse(1) by (simp add: get_route_def)
    have "\<not> route_is_from_current_next_hop r re" "\<not> metric (rip_entry r) > metric re"
      using worse r(2) by (auto simp: route_is_from_current_next_hop_def)
    then have "database (fst (update_route_from_response os drv re info' s)) = database s"
      using get by (simp add: update_route_from_response_def Let_def poison_effect [OF s nh(1)])
    then show ?thesis using route worse(2) by auto
  qed
qed

lemma entries_step:
  assumes "rib_ok (database s)" and "sa_ip (source packet) \<noteq> 0" and "next_hop e \<noteq> 0"
    and "\<not> metric e \<ge> RIP_INFINITY_METRIC" and "list_all (harmless_entry e info packet) es"
    and "learned_as e info n (database s)"
    and "for_each (\<lambda>x s. case response_entry_to_route x packet of
          None \<Rightarrow> (s, Inr ())
        | Some re \<Rightarrow> update_route_from_response os drv re (if_info packet) s) es s = (s', Inr ())"
  shows "learned_as e info
    (if if_info packet = info \<and> list_ex (\<lambda>x. response_entry_to_route x packet = Some e) es then 0 else n) (database s')"
  using assms(1,5-)
proof (induction es arbitrary: s n)
  case (Cons x es)
  let ?step = "\<lambda>x s. case response_entry_to_route x packet of
      None \<Rightarrow> (s, Inr ())
    | Some re \<Rightarrow> update_route_from_response os drv re (if_info packet) s"
  obtain s1 where s1: "?step x s = (s1, Inr ())" "for_each ?step es s1 = (s', Inr ())"
    using Cons.prems(4) by (cases "?step x s"; cases "snd (?step x s)") (auto simp: and_then_def)
  have es: "list_all (harmless_entry e info packet) es" using Cons.prems(2) by simp
  show ?case
  proof (cases "response_entry_to_route x packet")
    case None
    then show ?thesis using Cons.IH [OF Cons.prems(1) es Cons.prems(3)] s1 by simp
  next
    case (Some re)
    have run: "update_route_from_response os drv re (if_info packet) s = (s1, Inr ())" using s1(1) Some by simp
    have "next_hop re \<noteq> 0" using response_route_fields(1) [OF Some] assms(2) by simp
    moreover have "build_route_key re = build_route_key e \<Longrightarrow>
        (re = e \<and> if_info packet = info) \<or> (next_hop re \<noteq> next_hop e \<and> metric e \<le> metric re)"
      using Cons.prems(2) Some by (simp add: harmless_entry_def)
    ultimately have "learned_as e info (if re = e \<and> if_info packet = info then 0 else n) (database s1)"
      using entry_step [OF Cons.prems(1) _ assms(3,4) Cons.prems(3), of re "if_info packet" os drv] run by simp
    moreover have "rib_ok (database s1)"
      using rib_ok_response_step [OF Cons.prems(1) assms(2) Some, of os drv "if_info packet"] run by simp
    ultimately have "learned_as e info
        (if if_info packet = info \<and> list_ex (\<lambda>x. response_entry_to_route x packet = Some e) es then 0
         else if re = e \<and> if_info packet = info then 0 else n) (database s')"
      by (intro Cons.IH [OF _ es _ s1(2)])
    then show ?thesis using Some by (auto split: if_splits)
  qed
qed simp

section \<open>Turns\<close>

lemma learned_as_mark_all: "learned_as e info n db \<Longrightarrow> learned_as e info n (mark_all_routes_as_unchanged db)"
  by (auto simp: learned_as_def get_route_def mark_all_routes_as_unchanged_def mark_unchanged_def)

lemma learned_as_advertisement:
  "learned_as e info n (database s) \<Longrightarrow> learned_as e info n (database (fst (send_multicast_advertisement os chg s)))"
  by (auto simp: send_multicast_advertisement_def map_err_def on_world_eq and_then_def learned_as_mark_all
      split: sum.splits)

lemma learned_as_triggered:
  "learned_as e info n (database (deamon st)) \<Longrightarrow> learned_as e info n (database (deamon (fst (triggered_update os st))))"
  using learned_as_advertisement [of e info n "deamon st" os True]
  by (auto simp: triggered_update_def maybe_send_triggered_update_def on_world_eq sleep_timer_def
      split: prod.splits sum.splits)

lemma learned_as_setup_network:
  "learned_as e info n (database s) \<Longrightarrow> learned_as e info n (database (fst (setup_advertised_network os network s)))"
  using setup_network_cases [of os network s]
  by (auto simp: learned_as_def db_store_get_route) (simp add: get_route_def)

lemma learned_as_collector:
  "learned_as e info n (database s) \<Longrightarrow> learned_as e info n (database (fst (handle_garbage_collection_tick os (s, gc))))"
  by (simp add: learned_as_def get_route_def gc_tick_database remove_expired_garbage_routes_def Let_def
      split: prod.splits)

lemma response_not_request: "RipPacket_is_response packet \<Longrightarrow> \<not> RipPacket_is_request packet"
  by (auto simp: RipPacket_is_request_def RipPacket_is_response_def RipPacketData_is_request_def
      RipPacketData_is_response_def rip_constants split: if_splits)

lemma learned_as_packet:
  assumes "rib_ok (database s)" and "next_hop e \<noteq> 0" and "\<not> metric e \<ge> RIP_INFINITY_METRIC"
    and "harmless e info (Received (Some packet))" and "learned_as e info n (database s)"
    and "snd (handle_packet os drv packet s) = Inr ()"
  shows "learned_as e info (if confirms e info (Received (Some packet)) then 0 else n)
    (database (fst (handle_packet os drv packet s)))"
proof (cases "RipPacket_is_response packet")
  case False
  then show ?thesis using no_news_silent_packet [OF False, of os drv s] assms(5) by simp
next
  case True
  let ?step = "\<lambda>x s. case response_entry_to_route x packet of
      None \<Rightarrow> (s, Inr ())
    | Some re \<Rightarrow> update_route_from_response os drv re (if_info packet) s"
  have run: "handle_packet os drv packet s =
      (if sa_port (source packet) \<noteq> RIP_UDP_PORT then (s, Inr ()) else for_each ?step (entries (packet_data packet)) s)"
    using assms(6) True response_not_request [OF True]
    by (auto simp: handle_packet_def handle_response_packet_def split: if_splits)
  show ?thesis
  proof (cases "sa_port (source packet) = RIP_UDP_PORT")
    case False
    then show ?thesis using run assms(5) by simp
  next
    case port: True
    then have "for_each ?step (entries (packet_data packet)) s = (fst (handle_packet os drv packet s), Inr ())"
      using run assms(6) by (simp add: prod_eq_iff)
    from entries_step [where info = info, OF assms(1) _ assms(2,3) _ assms(5) this] assms(4) True port
    show ?thesis by simp
  qed
qed

lemma learned_as_check:
  assumes s: "rib_ok (database s)" and route: "learned_as e info n (database s)"
    and c: "n + unat (timeout_check_interval_secs os) < unat (route_timeout_secs os)"
    and ok: "snd (handle_route_timeout_tick os drv (s, gc)) = Inr ()"
  shows "learned_as e info (n + unat (timeout_check_interval_secs os))
    (database (fst (fst (handle_route_timeout_tick os drv (s, gc)))))"
proof -
  let ?c = "timeout_check_interval_secs os"
  obtain r where r: "get_route (database s) e = Some r" "rip_entry r = e" "if_index r = info_if_index info"
      "if_name r = info_if_name info" "\<not> is_local r" "unat (timeout_cnt r) \<le> n"
    using route by (auto simp: learned_as_def)
  have cnt: "unat (timeout_cnt (age ?c r)) \<le> n + unat ?c"
    using r(5,6) by (simp add: age_def unat_saturating_add)
  have "\<not> timed_out_route os r" using cnt c by (auto simp: timed_out_route_def word_le_nat_alt)
  moreover have "snd (after_expiry os drv s) = Inr ()" using ok by (simp add: timeout_tick_frame)
  ultimately have "get_route (database (fst (after_expiry os drv s))) e = Some (age ?c r)"
    using after_expiry_route [OF s, of os drv "build_route_key e" r] r(1) by (simp add: get_route_def)
  then show ?thesis using r cnt by (auto simp: timeout_tick_frame learned_as_def age_def)
qed

lemma learned_as_turn:
  assumes s: "rib_ok (database (deamon st))" and e: "next_hop e \<noteq> 0" "\<not> metric e \<ge> RIP_INFINITY_METRIC"
    and ev: "harmless e info ev" and route: "learned_as e info n (database (deamon st))"
    and turn: "run_turn os drv ev st = (st', Continue reply)"
    and c: "ev = TimeoutFired \<Longrightarrow> n + unat (timeout_check_interval_secs os) < unat (route_timeout_secs os)"
  shows "rib_ok (database (deamon st'))"
    and "learned_as e info
      (if confirms e info ev then 0 else if ev = TimeoutFired then n + unat (timeout_check_interval_secs os) else n)
      (database (deamon st'))"
proof -
  let ?m = "if confirms e info ev then 0 else if ev = TimeoutFired then n + unat (timeout_check_interval_secs os) else n"
  have src: "sa_ip (source p) \<noteq> 0" if "ev = Received (Some p)" for p using ev that by simp
  show "rib_ok (database (deamon st'))" using rib_ok_turn [OF s src, of ev os drv] turn by simp
  obtain st1 where arm: "select_arm os drv ev st = (st1, Continue reply)"
    and trig: "triggered_update os st1 = (st', Inr ())"
    using run_turn_continues [OF turn] by blast
  have "learned_as e info ?m (database (arm_deamon os drv ev st))"
  proof (cases ev)
    case (CtrlC r)
    then show ?thesis using select_arm_ok(3) [of os drv ev st reply r] arm by simp
  next
    case SigTerm
    then show ?thesis using select_arm_ok(3) [of os drv ev st reply] arm by simp
  next
    case TimeoutFired
    then have "snd (handle_route_timeout_tick os drv (deamon st, garbage_collection_timer st)) = Inr ()"
      using select_arm_ok(1) [of os drv ev st reply] arm by simp
    then show ?thesis using learned_as_check [OF s route] c TimeoutFired by (simp add: arm_deamon_def)
  next
    case (Received p)
    then show ?thesis
    proof (cases p)
      case (Some packet)
      then have "snd (handle_packet os drv packet (deamon st)) = Inr ()"
        using select_arm_ok(2) [of os drv ev st reply packet] arm Received by simp
      moreover have "harmless e info (Received (Some packet))" using ev Received Some by simp
      ultimately have "learned_as e info (if confirms e info (Received (Some packet)) then 0 else n)
          (database (fst (handle_packet os drv packet (deamon st))))"
        by (intro learned_as_packet [OF s e _ route])
      then show ?thesis by (cases "confirms e info (Received (Some packet))") (simp_all add: arm_deamon_def Received Some del: confirms.simps)
    qed (use route in \<open>simp add: arm_deamon_def\<close>)
  next
    case (HttpReceived r)
    then show ?thesis using route
      by (cases r) (simp_all add: arm_deamon_def http_request_database learned_as_setup_network split: HttpRequestKind.splits)
  qed (use route in \<open>simp_all add: arm_deamon_def learned_as_advertisement learned_as_collector\<close>)
  then show "learned_as e info ?m (database (deamon st'))"
    using learned_as_triggered [of e info ?m st1 os] select_arm_db(1) [of os drv ev st] arm trig by simp
qed

section \<open>Stretches\<close>

text \<open>The settings that the code reads from the environment at every check do not change.\<close>

definition fixed_settings :: "u64 \<Rightarrow> u64 \<Rightarrow> (Instant \<Rightarrow> 'n os) \<Rightarrow> bool" where
  "fixed_settings c l os \<longleftrightarrow> (\<forall>t. timeout_check_interval_secs (os t) = c \<and> route_timeout_secs (os t) = l)"

lemma learned_as_run:
  assumes "timed_run os drv tes st = Some st'" and "fixed_settings c l os"
    and "next_hop e \<noteq> 0" and "\<not> metric e \<ge> RIP_INFINITY_METRIC"
    and "\<And>t ev. (t, ev) \<in> set tes \<Longrightarrow> harmless e info ev"
    and "rib_ok (database (deamon st))" and "learned_as e info n (database (deamon st))"
    and "n + count_list (map snd tes) TimeoutFired * unat c < unat l"
  shows "rib_ok (database (deamon st'))
    \<and> learned_as e info (n + count_list (map snd tes) TimeoutFired * unat c) (database (deamon st'))"
  using assms(1,5-)
proof (induction tes arbitrary: st n)
  case (Cons te tes)
  obtain t ev where te: "te = (t, ev)" by fastforce
  obtain st1 reply where turn: "run_turn (os t) drv ev st = (st1, Continue reply)" "timed_run os drv tes st1 = Some st'"
    using Cons.prems(1) unfolding te timed_run_Cons by blast
  have set: "timeout_check_interval_secs (os t) = c" "route_timeout_secs (os t) = l"
    using assms(2) by (simp_all add: fixed_settings_def)
  have ev: "harmless e info ev" using Cons.prems(2) te by auto
  let ?m = "if ev = TimeoutFired then n + unat c else n"
  have bound: "?m + count_list (map snd tes) TimeoutFired * unat c \<le> n + count_list (map snd (te # tes)) TimeoutFired * unat c"
    using te by auto
  note step = learned_as_turn [OF Cons.prems(3) assms(3,4) ev Cons.prems(4) turn(1), unfolded set]
  have small: "n + unat c < unat l" if "ev = TimeoutFired" using Cons.prems(5) te that by auto
  have "learned_as e info ?m (database (deamon st1))"
    by (rule learned_as_mono [OF step(2) [OF small]]) auto
  moreover have "?m + count_list (map snd tes) TimeoutFired * unat c < unat l"
    using Cons.prems(5) bound by simp
  moreover have "harmless e info ev'" if "(t', ev') \<in> set tes" for t' ev' using Cons.prems(2) that by auto
  ultimately have "rib_ok (database (deamon st'))
      \<and> learned_as e info (?m + count_list (map snd tes) TimeoutFired * unat c) (database (deamon st'))"
    by (intro Cons.IH [OF turn(2) _ step(1) [OF small]])
  then show ?case using learned_as_mono [OF _ bound] by blast
qed simp

text \<open>A confirmation and a run of harmless turns soon after it.\<close>

definition confirmed_stretch :: "RipEntry \<Rightarrow> RipIfInfo \<Rightarrow> Duration \<Rightarrow> (Instant \<times> event) list \<Rightarrow> bool" where
  "confirmed_stretch e info D tes \<longleftrightarrow>
     (case tes of
        [] \<Rightarrow> False
      | (t, ev) # rest \<Rightarrow>
          confirms e info ev \<and> harmless e info ev
          \<and> list_all (\<lambda>(t', ev'). t \<le> t' \<and> t' \<le> t + D \<and> harmless e info ev') rest)"

lemma confirms_not_check: "confirms e info ev \<Longrightarrow> ev \<noteq> TimeoutFired"
  by auto

lemma learned_as_confirmed_stretch:
  assumes run: "timed_run os drv tes st = Some st'" and set: "fixed_settings c l os" and clock: "clock_within late os"
    and D: "D + duration_from_secs c < duration_from_secs l" and e: "next_hop e \<noteq> 0" "\<not> metric e \<ge> RIP_INFINITY_METRIC"
    and tes: "confirmed_stretch e info D tes"
    and st: "rib_ok (database (deamon st))" "learned_as e info n (database (deamon st))"
  shows "rib_ok (database (deamon st')) \<and> learned_as e info (unat l - 1) (database (deamon st'))"
proof -
  obtain t ev rest where rest: "tes = (t, ev) # rest" "confirms e info ev" "harmless e info ev"
      and all: "list_all (\<lambda>(t', ev'). t \<le> t' \<and> t' \<le> t + D \<and> harmless e info ev') rest"
    using tes by (auto simp: confirmed_stretch_def split: list.splits)
  have later: "t \<le> t' \<and> t' \<le> t + D \<and> harmless e info ev'" if "(t', ev') \<in> set rest" for t' ev'
    using all that by (auto simp: list_all_iff)
  obtain st1 reply where turn: "run_turn (os t) drv ev st = (st1, Continue reply)" "timed_run os drv rest st1 = Some st'"
    using run unfolding rest(1) timed_run_Cons by blast
  note first = learned_as_turn [OF st(1) e rest(3) st(2) turn(1)]
  have one: "rib_ok (database (deamon st1))" "learned_as e info 0 (database (deamon st1))"
    using first rest(2) confirms_not_check [OF rest(2)] by simp_all
  let ?k = "count_list (map snd rest) TimeoutFired" and ?C = "duration_from_secs c"
  have "?k * ?C \<le> D + ?C"
  proof (cases "?k")
    case (Suc m)
    have "max t (timeout_timer st1) + (?k - 1) * ?C \<le> t + D"
      using later Suc set
      by (intro checks_in_window [OF turn(2) clock]) (auto simp: fixed_settings_def)
    then show ?thesis using Suc by auto
  qed simp
  then have "?k * ?C < duration_from_secs l" using D by linarith
  then have k: "?k * unat c < unat l" by (simp add: duration_from_secs_def nanos_per_sec_def flip: mult.assoc)
  then have "rib_ok (database (deamon st')) \<and> learned_as e info (?k * unat c) (database (deamon st'))"
    using learned_as_run [OF turn(2) set e _ one] later by auto
  then show ?thesis using k by (auto intro: learned_as_mono)
qed

lemma learned_as_stretches:
  assumes "timed_run os drv (concat stretches) st = Some st'" and "fixed_settings c l os" and "clock_within late os"
    and "D + duration_from_secs c < duration_from_secs l" and "next_hop e \<noteq> 0" and "\<not> metric e \<ge> RIP_INFINITY_METRIC"
    and "list_all (confirmed_stretch e info D) stretches" and "stretches \<noteq> []"
    and "rib_ok (database (deamon st))" and "learned_as e info n (database (deamon st))"
  shows "learned_as e info (unat l - 1) (database (deamon st'))"
  using assms(1,7-)
proof (induction stretches arbitrary: st n)
  case (Cons tes stretches)
  obtain st1 where run: "timed_run os drv tes st = Some st1" "timed_run os drv (concat stretches) st1 = Some st'"
    using Cons.prems(1) by (auto simp: timed_run_append)
  have tes: "confirmed_stretch e info D tes" using Cons.prems(2) by simp
  note one = learned_as_confirmed_stretch [OF run(1) assms(2-6) tes Cons.prems(4,5)]
  show ?case
  proof (cases "stretches = []")
    case True
    then show ?thesis using one run(2) by simp
  next
    case False
    then show ?thesis using Cons.IH [OF run(2) _ False] one Cons.prems(2) by auto
  qed
qed simp

section \<open>Properties\<close>

text \<open>
  C11: a route that its neighbour keeps confirming never times out. Let the loop run in time, with a clock that
  does not run backwards within a turn. Let a learned route be confirmed again and again, each time by a
  response of its neighbour that has the route in it, followed for at most \<open>D\<close> by any turns in which no
  neighbour offers a better route and the route's own does not change it. If \<open>D\<close> and one check interval are
  less than the route timeout, the route is there at the end, the same entry over the same interface. With
  the default 15 and 180 seconds \<open>D\<close> may be almost 165 seconds: four updates of 35 seconds may be lost.
\<close>

theorem live_neighbour_keeps_route:
  assumes "clock_within late os" and "\<And>t. timeout_check_interval_secs (os t) = c" and "\<And>t. route_timeout_secs (os t) = l"
    and "D + duration_from_secs c < duration_from_secs l"
    and "rib_ok (database (deamon st))" and "get_route (database (deamon st)) e = Some r" and "rip_entry r = e"
    and "\<not> is_local r" and "info = \<lparr> info_if_name = if_name r, info_if_index = if_index r \<rparr>"
    and "list_all (confirmed_stretch e info D) stretches" and "stretches \<noteq> []"
    and "timed_run os drv (concat stretches) st = Some st'"
  shows "\<exists>r'. get_route (database (deamon st')) e = Some r' \<and> rip_entry r' = e \<and> if_index r' = if_index r
    \<and> if_name r' = if_name r \<and> \<not> is_local r' \<and> unat (timeout_cnt r') < unat l"
proof -
  have "remote_entry_ok e" using rib_ok_route [OF assms(5,6)] assms(7,8) by (simp add: route_ok_def)
  then have e: "next_hop e \<noteq> 0" "\<not> metric e \<ge> RIP_INFINITY_METRIC" by (auto simp: remote_entry_ok_def)
  have settings: "fixed_settings c l os" using assms(2,3) by (simp add: fixed_settings_def)
  have "learned_as e info (unat (timeout_cnt r)) (database (deamon st))"
    using assms(6-9) by (simp add: learned_as_def)
  from learned_as_stretches [OF assms(12) settings assms(1,4) e assms(10,11,5) this]
  have "learned_as e info (unat l - 1) (database (deamon st'))" .
  moreover have "0 < unat l" using assms(4) by (cases "unat l") (simp_all add: duration_from_secs_def)
  ultimately show ?thesis using assms(9) by (auto simp: learned_as_def)
qed

text \<open>A route 15 seconds from its timeout is confirmed one second before the next check.\<close>

definition ticking_os :: "Instant \<Rightarrow> unit os" where
  "ticking_os t = quiet_os\<lparr> instant_now := (\<lambda>n. (n, t)) \<rparr>"

definition sample_stretch :: "(Instant \<times> event) list" where
  "sample_stretch = [(14000000000, Received (Some (sample_packet [(1, 1)]))), (15000000000, TimeoutFired)]"

lemma sample_stretch_run: "\<exists>st'. timed_run ticking_os table_driver sample_stretch (sample_run sample_old_db None) = Some st'"
proof -
  let ?st = "sample_run sample_old_db None" and ?p = "Received (Some (sample_packet [(1, 1)]))"
  have first: "run_turn (ticking_os 14000000000) table_driver ?p ?st =
      (sample_run (sample_old_db\<lparr> ok_routes := [(build_route_key (sample_entry 1 0 0), sample_old_route\<lparr> timeout_cnt := 0 \<rparr>)] \<rparr>) None,
       Continue None)"
    by (simp add: ticking_os_def run_evals cong: weak_congs)
  let ?st1 = "sample_run (sample_old_db\<lparr> ok_routes := [(build_route_key (sample_entry 1 0 0), sample_old_route\<lparr> timeout_cnt := 0 \<rparr>)] \<rparr>) None"
  have "run_turn (ticking_os 15000000000) table_driver TimeoutFired ?st1 =
      (fst (run_turn (ticking_os 15000000000) table_driver TimeoutFired ?st1), Continue None)"
    by (simp add: ticking_os_def run_evals cong: weak_congs)
  moreover have "ready 14000000000 ?st ?p" "ready 15000000000 ?st1 TimeoutFired"
    by (simp_all add: ready_def sample_run_def)
  ultimately show ?thesis
    using first unfolding sample_stretch_def timed_run_Cons timed_run.simps(1) by blast
qed

theorem live_neighbour_keeps_route_witness:
  "\<exists>st' r'. timed_run ticking_os table_driver sample_stretch (sample_run sample_old_db None) = Some st'
     \<and> get_route (database (deamon st')) (sample_entry 1 3232235521 2) = Some r' \<and> unat (timeout_cnt r') < 180"
proof -
  let ?st = "sample_run sample_old_db None" and ?e = "sample_entry 1 3232235521 2"
  obtain st' where run: "timed_run ticking_os table_driver (concat [sample_stretch]) ?st = Some st'"
    using sample_stretch_run by auto
  have clock: "clock_within 0 ticking_os" by (simp add: clock_within_def ticking_os_def)
  have settings: "timeout_check_interval_secs (ticking_os t) = 15" "route_timeout_secs (ticking_os t) = 180" for t
    by (simp_all add: ticking_os_def timeout_check_interval_secs_def route_timeout_secs_def env_u64_or_default_def
        RIP_TIMEOUT_CHECK_INTERVAL_SECS_def RIP_ROUTE_TIMEOUT_SECS_def quiet_os_def)
  have D: "1000000000 + duration_from_secs 15 < duration_from_secs 180" by (simp add: duration_from_secs_def nanos_per_sec_def)
  have st: "rib_ok (database (deamon ?st))" "get_route (database (deamon ?st)) ?e = Some sample_old_route"
    using sample_old_db_ok by (simp_all add: sample_run_def sample_deamon_def get_route_def build_route_key_def sample_entry_def)
  have route: "rip_entry sample_old_route = ?e" "\<not> is_local sample_old_route" by (simp_all add: sample_old_route_def)
  have stretch: "list_all (confirmed_stretch ?e \<lparr> info_if_name = if_name sample_old_route, info_if_index = if_index sample_old_route \<rparr> 1000000000) [sample_stretch]"
    by (simp add: confirmed_stretch_def sample_stretch_def harmless_entry_def packet_evals sample_packet_def
        sample_old_route_def sample_entry_def)
  from live_neighbour_keeps_route [OF clock settings D st route refl stretch _ run] run show ?thesis by auto
qed

text \<open>
  C28: periodic updates keep their distance. After an update the next one cannot be sent for 27.5 seconds, and
  its branch is ready when 35 seconds have passed since the clock was read, whatever turns the loop takes in
  between.
\<close>

theorem periodic_updates_spaced:
  assumes "clock_within late os" and "timed_run os drv ((t, UpdateFired) # tes) st = Some st'"
    and "UpdateFired \<notin> snd ` set tes"
  shows "(ready t' st' UpdateFired \<longrightarrow> t + 275 * 10 ^ 8 \<le> t') \<and> (t + late + 35 * 10 ^ 9 \<le> t' \<longrightarrow> ready t' st' UpdateFired)"
proof -
  obtain st1 reply where turn: "run_turn (os t) drv UpdateFired st = (st1, Continue reply)" "timed_run os drv tes st1 = Some st'"
    using assms(2) unfolding timed_run_Cons by blast
  obtain n n' where timer: "update_timer st1 = snd (instant_now (os t) n) + snd (create_update_duration (os t) n')"
    using turn_timers(3) [OF turn(1)] by blast
  have "t \<le> snd (instant_now (os t) n)" "snd (instant_now (os t) n) \<le> t + late"
    using assms(1) by (simp_all add: clock_within_def)
  then show ?thesis
    using timer update_timer_run [OF turn(2) assms(3)] update_duration_bounds [of "os t" n'] by (auto simp: ready_def)
qed

theorem periodic_updates_spaced_witness:
  "\<exists>st'. timed_run ticking_os table_driver [(30000000000, UpdateFired)] (sample_run sample_old_db None) = Some st'
     \<and> \<not> ready 57499999999 st' UpdateFired \<and> ready 65000000000 st' UpdateFired"
proof -
  let ?st = "sample_run sample_old_db None"
  have clock: "clock_within 0 ticking_os" by (simp add: clock_within_def ticking_os_def)
  have "run_turn (ticking_os 30000000000) table_driver UpdateFired ?st =
      (fst (run_turn (ticking_os 30000000000) table_driver UpdateFired ?st), Continue None)"
    by (simp add: ticking_os_def run_evals create_update_duration_def cong: weak_congs)
  moreover have "ready 30000000000 ?st UpdateFired" by (simp add: ready_def sample_run_def)
  ultimately obtain st' where run: "timed_run ticking_os table_driver [(30000000000, UpdateFired)] ?st = Some st'"
    unfolding timed_run_Cons timed_run.simps(1) by blast
  show ?thesis
    using run periodic_updates_spaced [OF clock run, of 57499999999] periodic_updates_spaced [OF clock run, of 65000000000]
    by auto
qed

end
