(* ===== verification/Spec2Isabelle.thy ===== *)
theory Spec2Isabelle
  imports Rip_Samples Rip_Withdrawal Rip_Administration Rip_Main Rip_Stability Rip_Service Rip_Timing
begin

text \<open>
  \<^bold>\<open>A verification development for \<^verbatim>\<open>ripv2-rs\<close>, a RIP version 2 routing daemon in Rust.\<close>

  \<^bold>\<open>The program.\<close> \<^verbatim>\<open>src/src/main.rs\<close> reads the arguments, starts the logger (\<^verbatim>\<open>logger.rs\<close>), opens
  the netlink connection, sets the daemon up from its YAML file, starts an HTTP server and runs the
  daemon's loop. \<^verbatim>\<open>rip_deamon.rs\<close> is that loop: it selects among the packets of one receive task per
  interface (which share a bounded channel), its timers (request warm-up, periodic update, timeout
  check, garbage collection, lock of the triggered updates), administration requests and signals.
  Its handlers change the route database (\<^verbatim>\<open>rip_database.rs\<close>: active and garbage routes in hash
  maps) and the kernel's routing table through a driver (\<^verbatim>\<open>routing_table.rs\<close> and the two
  \<^verbatim>\<open>routing_table_*.rs\<close>), and send updates through \<^verbatim>\<open>rip_updater.rs\<close> on the sockets of
  \<^verbatim>\<open>rip_ifc.rs\<close> and \<^verbatim>\<open>rip_socket.rs\<close>, in the format of \<^verbatim>\<open>rip_packet.rs\<close>.

  \<^bold>\<open>The theories\<close>, each importing those it calls:
  \<^item> \<open>Rip_Prelude\<close>: \<^verbatim>\<open>result.rs\<close>; machine words, \<^verbatim>\<open>saturating_add\<close>, instants in nanoseconds, and
    \<open>and_then\<close>, the \<^verbatim>\<open>?\<close> of methods on \<^verbatim>\<open>&mut self\<close>, which keeps the mutations made before an error.
  \<^item> \<open>Rip_Text\<close>: the standard library's printing and parsing of decimals and IPv4 addresses.
  \<^item> \<open>Rip_Hash_Map\<close>: \<^verbatim>\<open>HashMap\<close> as the list of its entries in iteration order.
  \<^item> \<open>Rip_Address\<close>, \<open>Rip_Packet\<close>: \<^verbatim>\<open>address.rs\<close> and \<^verbatim>\<open>rip_packet.rs\<close>.
  \<^item> \<open>Rip_Database\<close>, \<open>Rip_Database_Laws\<close>: every method of \<^verbatim>\<open>rip_database.rs\<close>, and what they do.
  \<^item> \<open>Rip_Routing_Table\<close>: \<^verbatim>\<open>routing_table.rs\<close>, the netlink driver over a kernel, the stub.
  \<^item> \<open>Rip_Os\<close>: \<^verbatim>\<open>common.rs\<close>, \<^verbatim>\<open>rip_socket.rs\<close>, \<^verbatim>\<open>rip_ifc.rs\<close> over a record of system calls.
  \<^item> \<open>Rip_Updater\<close>, \<open>Rip_Route\<close>: \<^verbatim>\<open>rip_updater.rs\<close>; \<^verbatim>\<open>cfg.rs\<close> and \<^verbatim>\<open>rip_route.rs\<close>.
  \<^item> \<open>Rip_Deamon\<close>: the handlers of \<^verbatim>\<open>rip_deamon.rs\<close>, one definition per method. Their lemmas are in
    \<open>Rip_Deamon_Inv\<close> (the invariant \<open>rib_ok\<close> and the effect of every response handler on every branch),
    \<open>Rip_Deamon_Timers\<close> (timeouts, garbage collection, shutdown), \<open>Rip_Deamon_Fib\<close> (agreement with the
    kernel) and \<open>Rip_Rib\<close> (the abstract distance-vector rule and the refinement).
  \<^item> \<open>Rip_Http\<close>: \<^verbatim>\<open>http/mod.rs\<close>. \<open>Rip_Run\<close>: the turns of \<^verbatim>\<open>run\<close>, the receive tasks, the arguments.
  \<^item> \<open>Rip_System\<close>: the whole program as a step function on labels (a datagram or an error at a receive
    task, a turn of the loop, a new iteration order of the hash maps) and its reachable states.
  \<^item> \<open>Rip_Channel\<close>, \<open>Rip_Service\<close>: the bounded channels between tasks; the program together with the
    HTTP handlers that wait on the request channel and for their replies, as a step function on
    labels that adds arrivals, sends, hang-ups and the end of the server to those of the system.
  \<^item> \<open>Rip_Main\<close>: \<^verbatim>\<open>logger.rs\<close> and \<^verbatim>\<open>main\<close>, with exit codes.
  \<^item> \<open>Rip_Liveness\<close>: sequences of turns; \<open>Rip_Timing\<close>: turns at instants.
  \<^item> \<open>Rip_Distance\<close>, \<open>Rip_Network\<close>: several daemons on broadcast links, at one destination of the
    abstract rule, and as the handlers of the code.
  \<^item> \<open>Rip_Cells\<close>, \<open>Rip_Rounds\<close>, \<open>Rip_Stability\<close>: the same networks with route timeouts and garbage.
    Each daemon's knowledge of one destination is a cell (metric, next hop, interface, age, local or
    not) and a garbage flag; \<open>Rip_Cells\<close> steps such cells, \<open>Rip_Rounds\<close> shows how they settle from any
    consistent state, and \<open>Rip_Stability\<close> shows that the handlers of the code act on them so.
  \<^item> \<open>Rip_Withdrawal\<close>: what a shutdown does to the neighbours. \<open>Rip_Administration\<close>: a request of the
    administrator followed through the daemon to the datagrams it sends.
  \<^item> \<open>Rip_Samples\<close>: concrete inputs for the witnesses. This theory: properties of the whole daemon.

  \<^bold>\<open>State and errors.\<close> A struct is a record with the source's fields, an integer a word of its width,
  a \<^verbatim>\<open>Result\<close> a sum with the error on the left, a panic of the parser \<^const>\<open>None\<close>. The daemon's state
  has a component \<open>world\<close> of an arbitrary type, threaded through every system call, clock
  reading and datagram sent, so an execution can depend on anything that happened before.

  \<^bold>\<open>Interfaces\<close> are locales, interpreted on the code's definitions: \<open>keyed_store\<close> (what the database
  relies on in a hash map; interpreted by the entry lists), \<open>fixed_codec\<close> (a fixed-size encoding and
  its decoder; by the header and the route entry), \<open>fib_driver\<close> (what the handlers rely on in a routing
  table driver; by the netlink driver as a sublocale) and \<open>route_kernel\<close> (the documented behaviour of
  the kernel's route requests, on which the netlink driver rests), \<open>fifo_channel\<close> and its extension
  \<open>bounded_channel\<close> (what the tasks rely on in a \<^verbatim>\<open>tokio::sync::mpsc\<close> channel; by the lists with a
  capacity that stand for the packet channel, of 64, and the request channel, of 32).

  \<^bold>\<open>What is shown.\<close>
  \<^item> Of every reachable state: the routing invariant and agreement with the kernel
    (\<open>routing_invariant\<close>, \<open>kernel_agrees_with_database\<close>); local routes cannot be displaced.
  \<^item> Of the handlers: the outcome on every branch, refinement of the distance-vector rule
    (\<open>response_refines_distance_vector\<close>), and that the only errors are the driver's.
  \<^item> Of the formats: round trips between what is sent and what is parsed, and what is refused.
  \<^item> Of networks: \<open>network_converges\<close>, the daemons find shortest loop-free routes in as many rounds as
    there are hops, up to the 14 hops that metric 16 as infinity allows; \<open>network_stabilises\<close>, they do so
    from any consistent state, while route timeouts run; \<open>stale_routes_forgotten\<close>, routes to a network
    that is gone are not kept alive by the daemons announcing them to each other.
  \<^item> Of administration: \<open>answered_as_promised\<close>, every reply is what an abstract specification gives for the
    state at the request's turn; none is lost (\<open>requests_accounted_for\<close>) and each is served
    (\<open>waiting_client_is_served\<close>); packets are handled in order (\<open>packets_handled_in_order\<close>).
  \<^item> In the long run: routes of silent neighbours go away and those of live ones stay
    (\<open>silent_neighbours_forgotten\<close>, \<open>live_neighbour_keeps_route\<close>), periodic updates keep their
    distance, a signal ends the process with code 0 and an empty kernel table.
  \<^item> Behaviours that are surprising in the code, as theorems: \<open>malformed_datagram_silences_interface\<close>,
    \<open>unknown_packet_stops_daemon\<close>, \<open>withdrawal_does_not_arm_collector\<close>, \<open>shadowed_local_route_lost\<close>.

  \<^bold>\<open>Assumptions.\<close> The operating system, the kernel's route requests, the YAML parser, the file system,
  TCP binding, the \<^verbatim>\<open>flexi_logger\<close> crate and the netlink connection are parameters. Where a property
  needs more, its hypotheses say so: \<open>route_kernel\<close> for the kernel, \<open>has_sender\<close> (no datagram comes from
  0.0.0.0, which the kernel does not deliver), \<open>never_fails\<close> for drivers in a network,
  \<open>links_ok\<close> for its topology. Overflow checks are a Boolean parameter of the receive tasks, and byte
  order is one of the sending code. No fuel is needed: every loop of the code but the event loop is
  structural, and the event loop is a relation between states, one turn at a time.

  \<^bold>\<open>Not modelled.\<close> Log lines and \<^verbatim>\<open>format_route\<close>, which only makes one; the axum server behind its
  routes (connections, static files, headers, the JSON form of bodies); the browser assets; the
  scheduler of tokio: a turn runs to its end, and the cancellation of an arm that lost the
  \<^verbatim>\<open>select!\<close> has no effect; the tests. In the networks a link delivers a datagram when it is sent, or
  loses it: datagrams in flight while others overtake them are not modelled.
\<close>

section \<open>Handling responses\<close>

text \<open>
  C2: handling a response refines the distance-vector rule. When the handler succeeds on a response
  from a neighbour's RIP port, the active routes are exactly those the abstract rule gives for the
  packet's valid entries, taken in order: garbage, change flags, timeouts, hash maps and the kernel
  have no influence on which routes are in use.
\<close>

theorem response_refines_distance_vector:
  assumes "rib_ok (database s)" and "sa_ip (source packet) \<noteq> 0"
    and "command (header (packet_data packet)) = RIP_CMD_RESPONSE"
    and "sa_port (source packet) = RIP_UDP_PORT"
    and "handle_packet os drv packet s = (s', Inr ())"
  shows "rib_of (database s') = rib_response packet (rib_of (database s))"
  using rib_of_packet [OF assms(1,2), of os drv] assms(4,5) handle_response [OF assms(3), of os drv s] by simp

theorem response_refines_distance_vector_witness:
  "let packet = sample_packet [(1, 1), (2, 3), (3, 15)];
       s' = fst (handle_packet quiet_os table_driver packet (sample_deamon (sample_db [])))
   in rib_of (database s') = rib_response packet (rib_of (sample_db []))
      \<and> rib_of (database s') (build_route_key (sample_entry 2 0 0)) \<noteq> None
      \<and> rib_of (database s') (build_route_key (sample_entry 3 0 0)) = None"
proof -
  let ?packet = "sample_packet [(1, 1), (2, 3), (3, 15)]" and ?s = "sample_deamon (sample_db [])"
  let ?s' = "fst (handle_packet quiet_os table_driver ?packet ?s)"
  have "rib_ok (database ?s)" using sample_db_rib_ok by (simp add: sample_deamon_def)
  moreover have "sa_ip (source ?packet) \<noteq> 0" "command (header (packet_data ?packet)) = RIP_CMD_RESPONSE"
    "sa_port (source ?packet) = RIP_UDP_PORT"
    by (simp_all add: sample_packet_def rip_constants)
  moreover have "handle_packet quiet_os table_driver ?packet ?s = (?s', Inr ())"
    by (simp add: handler_evals cong: weak_congs)
  ultimately have "rib_of (database ?s') = rib_response ?packet (rib_of (database ?s))"
    by (rule response_refines_distance_vector)
  moreover have "rib_of (database ?s') (build_route_key (sample_entry 2 0 0)) \<noteq> None"
    "rib_of (database ?s') (build_route_key (sample_entry 3 0 0)) = None"
    by (simp_all add: rib_of_def handler_evals cong: weak_congs)
  ultimately show ?thesis by (simp only: Let_def sample_deamon_def RipDeamon.select_convs simp_thms)
qed

text \<open>
  After a response from a neighbour has been handled, every destination it offers is reached at
  least as well as through that neighbour: if \<open>e\<close> is the packet's last entry for its destination,
  valid and of metric at most 14, there is a route of metric at most one more than offered.
\<close>

theorem offered_destination_reachable:
  assumes "rib_ok (database s)" and "sa_ip (source packet) \<noteq> 0"
    and "command (header (packet_data packet)) = RIP_CMD_RESPONSE"
    and "sa_port (source packet) = RIP_UDP_PORT"
    and "handle_packet os drv packet s = (s', Inr ())"
    and "entries (packet_data packet) = before @ e # later"
    and "build_route_key e \<notin> build_route_key ` set later"
    and "is_entry_valid e" and "unat (metric e) \<le> 14"
  shows "\<exists>r. get_route (database s') e = Some r \<and> unat (metric (rip_entry r)) \<le> unat (metric e) + 1"
proof -
  have "rib_of (database s') = rib_response packet (rib_of (database s))"
    using rib_of_packet [OF assms(1,2), of os drv] assms(4,5) handle_response [OF assms(3), of os drv s] by simp
  then have "\<exists>r. rib_of (database s') (build_route_key e) = Some r \<and> unat (metric (rr_entry r)) \<le> unat (metric e) + 1"
    using rib_response_bound [OF assms(6-9), of "rib_of (database s)"] by simp
  then show ?thesis by (auto simp: rib_of_get_route)
qed

theorem offered_destination_reachable_witness:
  "\<exists>r. get_route
          (database (fst (handle_packet quiet_os table_driver (sample_packet [(1, 1), (2, 3), (3, 15)])
             (sample_deamon (sample_db [])))))
          (sample_entry 2 0 3) = Some r
     \<and> unat (metric (rip_entry r)) \<le> 4"
proof -
  let ?packet = "sample_packet [(1, 1), (2, 3), (3, 15)]" and ?s = "sample_deamon (sample_db [])"
  have res: "handle_packet quiet_os table_driver ?packet ?s = (fst (handle_packet quiet_os table_driver ?packet ?s), Inr ())"
    by (simp add: handler_evals cong: weak_congs)
  have rib: "rib_ok (database ?s)" using sample_db_rib_ok by (simp add: sample_deamon_def)
  show ?thesis
    using offered_destination_reachable [OF rib _ _ _ res, of "[sample_entry 1 0 1]" "sample_entry 2 0 3" "[sample_entry 3 0 15]"]
    by (simp add: sample_packet_def packet_evals sample_entry_def build_route_key_def)
qed




definition refusing_driver :: "unit RoutingTableDriver" where
  "refusing_driver =
     \<lparr> drv_add_route = (\<lambda>d r. (d, Inl (IoError ''failed to add route: Operation not permitted''))),
       drv_delete_route = (\<lambda>d r. (d, Inr ())) \<rparr>"


text \<open>
  A route that its own neighbour confirms. When the offer is as the route is, the route's timeout
  starts over, the kernel is not called and nothing is marked for a triggered update.
\<close>

theorem confirmed_route_refreshed:
  assumes "get_route (database s) e = Some r" and "rip_entry r = e" and "if_index r = info_if_index info"
    and "if_name r = info_if_name info" and "metric e < 16"
  shows "update_route_from_response os drv e info s =
      (s\<lparr> database := refresh_route_timeout e (database s) \<rparr>, Inr ())
    \<and> get_route (refresh_route_timeout e (database s)) e = Some (r\<lparr> timeout_cnt := 0 \<rparr>)
    \<and> any_route_changed (refresh_route_timeout e (database s)) = any_route_changed (database s)"
  using assms assms(5) [folded not_le]
  by (simp add: update_route_from_response_def Let_def RIP_INFINITY_METRIC_def
      route_is_from_current_next_hop_def refresh_get_route any_route_changed_def refresh_route_timeout_def
      get_route_def)

theorem confirmed_route_refreshed_witness:
  "let db = fst (collect_timed_out_routes 15 180 (sample_db [1])); e = sample_entry 1 3232235521 2;
       s = sample_deamon db
   in map_option timeout_cnt (get_route db e) = Some 15
      \<and> map_option timeout_cnt (get_route (database (fst (update_route_from_response quiet_os table_driver e
            \<lparr> info_if_name = ''eth0'', info_if_index = 3 \<rparr> s))) e) = Some 0"
proof -
  let ?db = "fst (collect_timed_out_routes 15 180 (sample_db [1]))" and ?e = "sample_entry 1 3232235521 2"
  let ?r = "(new_db_entry ?e 3 ''eth0'' False)\<lparr> timeout_cnt := 15 \<rparr>"
  have r: "get_route ?db ?e = Some ?r" by code_simp
  have "get_route (database (sample_deamon ?db)) ?e = Some ?r" using r by (simp add: sample_deamon_def)
  from confirmed_route_refreshed [OF this, of "\<lparr> info_if_name = ''eth0'', info_if_index = 3 \<rparr>" quiet_os table_driver] r
  show ?thesis by (simp add: sample_deamon_def sample_entry_def Let_def)
qed

section \<open>Timers\<close>

text \<open>
  C7: one route timeout check, when the driver does not fail. A learned route whose counter has come
  to the limit leaves the active routes and becomes a garbage route of metric 16; any other active
  route is only aged; destinations without an active route are as before. The garbage collector is
  then armed if it was, or if any route timed out.
\<close>

theorem timeout_check_outcome:
  assumes "rib_ok (database s)" and "handle_route_timeout_tick os drv (s, gc) = ((s', gc'), Inr ())"
  shows "(case hm_get (ok_routes (database s)) k of
            None \<Rightarrow> hm_get (ok_routes (database s')) k = None
              \<and> hm_get (garbage_routes (database s')) k = hm_get (garbage_routes (database s)) k
          | Some r \<Rightarrow>
              let r' = age (timeout_check_interval_secs os) r
              in if \<not> is_local r \<and> timeout_cnt r' \<ge> route_timeout_secs os
                 then hm_get (ok_routes (database s')) k = None
                   \<and> (\<exists>now. hm_get (garbage_routes (database s')) k = Some (to_garbage now r'))
                 else hm_get (ok_routes (database s')) k = Some r'
                   \<and> hm_get (garbage_routes (database s')) k = hm_get (garbage_routes (database s)) k)
    \<and> (gc' \<noteq> None \<longleftrightarrow> gc \<noteq> None \<or> timed_out os (database s) \<noteq> [])"
proof -
  have db: "database s' = database (fst (after_expiry os drv s))" "snd (after_expiry os drv s) = Inr ()"
    using timeout_tick_frame [of os drv s gc] assms(2) by simp_all
  show ?thesis
    using after_expiry_route [OF assms(1) db(2)] after_expiry_no_route [OF assms(1) db(2)]
      timeout_tick_timer(1) [OF assms(2)]
    by (auto simp: db(1) timed_out_route_def Let_def split: option.splits if_splits)
qed

theorem timeout_check_outcome_witness:
  "let s = sample_deamon sample_old_db; k = build_route_key (sample_entry 1 0 0)
   in hm_get (ok_routes (database s)) k \<noteq> None
      \<and> (case handle_route_timeout_tick quiet_os table_driver (s, None) of
           ((s', gc'), _) \<Rightarrow>
             hm_get (ok_routes (database s')) k = None
             \<and> (\<exists>now r. hm_get (garbage_routes (database s')) k = Some (to_garbage now r)) \<and> gc' \<noteq> None)"
proof -
  let ?s = "sample_deamon sample_old_db" and ?k = "build_route_key (sample_entry 1 0 0)"
  let ?st = "fst (handle_route_timeout_tick quiet_os table_driver (?s, None))"
  have rib: "rib_ok (database ?s)" using sample_old_db_ok by (simp add: sample_deamon_def)
  have res: "handle_route_timeout_tick quiet_os table_driver (?s, None) = ((fst ?st, snd ?st), Inr ())"
    by (simp add: tick_evals cong: weak_congs)
  have "hm_get (ok_routes (database ?s)) ?k = Some sample_old_route"
    using sample_old_db_ok by (simp add: sample_deamon_def)
  moreover have "\<not> is_local sample_old_route"
    "timeout_cnt (age (timeout_check_interval_secs quiet_os) sample_old_route) \<ge> route_timeout_secs quiet_os"
    by (simp_all add: sample_old_route_def tick_evals age_def)
  moreover have "timed_out quiet_os (database ?s) \<noteq> []"
    by (simp add: timed_out_def tick_evals)
  ultimately show ?thesis
    using timeout_check_outcome [OF rib res, of ?k] by (auto simp: Let_def split_def)
qed

text \<open>
  The handler of the timeout check has no failures of its own: its errors are the driver's, and
  in every case the database stays consistent, so that the routes not yet expired by a check that
  was cut short are expired by the next.
\<close>

theorem timeout_check_errors:
  assumes "rib_ok (database s)"
  shows "rib_ok (database (fst (fst (handle_route_timeout_tick os drv (s, gc)))))
    \<and> (case snd (handle_route_timeout_tick os drv (s, gc)) of
         Inr _ \<Rightarrow> True
       | Inl err \<Rightarrow> \<exists>d r. snd (drv_delete_route drv d r) = Inl err)"
  using rib_ok_after_expiry [OF assms] after_expiry_error [OF assms, of os drv]
  by (simp add: timeout_tick_frame split: sum.splits)

theorem timeout_check_errors_witness:
  "rib_ok (database (fst (fst (handle_route_timeout_tick quiet_os stubborn_driver
     (\<lparr> routing_table = \<lparr> driver = () \<rparr>, interfaces = [], database = sample_old_db, world = () \<rparr>, None)))))
   \<and> snd (handle_route_timeout_tick quiet_os stubborn_driver
       (\<lparr> routing_table = \<lparr> driver = () \<rparr>, interfaces = [], database = sample_old_db, world = () \<rparr>, None)) =
     Inl (IoError ''failed to delete route: busy'')"
proof -
  let ?s = "\<lparr> routing_table = \<lparr> driver = () \<rparr>, interfaces = [], database = sample_old_db, world = () \<rparr>"
  have "rib_ok (database ?s)" using sample_old_db_ok by simp
  from timeout_check_errors [OF this, of quiet_os stubborn_driver None]
  have "rib_ok (database (fst (fst (handle_route_timeout_tick quiet_os stubborn_driver (?s, None)))))" by blast
  moreover have "snd (handle_route_timeout_tick quiet_os stubborn_driver (?s, None)) =
      Inl (IoError ''failed to delete route: busy'')"
    by (simp add: tick_evals stubborn_driver_def cong: weak_congs)
  ultimately show ?thesis by blast
qed

text \<open>
  C26: a garbage collection tick removes exactly the garbage routes whose lifetime has passed, leaves
  the others and all active routes, and arms the collector again exactly while garbage is left.
\<close>

theorem garbage_collection_outcome:
  assumes "rib_ok (database s)" and "handle_garbage_collection_tick os (s, None) = (s', gc')"
  shows "hm_get (garbage_routes (database s')) k =
      (case hm_get (garbage_routes (database s)) k of
         None \<Rightarrow> None
       | Some g \<Rightarrow>
           (case garbage_started_at g of
              None \<Rightarrow> Some g
            | Some t \<Rightarrow>
                if t + unat (garbage_collection_lifetime_secs os) * 10 ^ 9 \<le> snd (instant_now os (world s))
                   \<or> garbage_collection_lifetime_secs os = 0
                then None else Some g))
    \<and> ok_routes (database s') = ok_routes (database s)
    \<and> routing_table s' = routing_table s
    \<and> (gc' \<noteq> None \<longleftrightarrow> has_garbage_routes (database s'))"
proof -
  let ?life = "duration_from_secs (garbage_collection_lifetime_secs os)"
  let ?now = "snd (instant_now os (world s))"
  have s': "database s' = fst (remove_expired_garbage_routes ?now ?life (database s))"
    using gc_tick_database [of os s None] assms(2) by simp
  have "?life \<le> ?now - t \<longleftrightarrow> t + unat (garbage_collection_lifetime_secs os) * 10 ^ 9 \<le> ?now
      \<or> garbage_collection_lifetime_secs os = 0" for t
  proof -
    have "l * 1000000000 \<le> now - t \<longleftrightarrow> t + l * 1000000000 \<le> now \<or> l = 0" for l now :: nat
      by (cases l) auto
    then show ?thesis
      by (simp add: duration_from_secs_def nanos_per_sec_def unat_eq_zero)
  qed
  moreover have "hm_wf (garbage_routes (database s))"
    using db_wf_maps [OF rib_ok_wf [OF assms(1)]] by simp
  ultimately show ?thesis
    using gc_tick_timer [of os s None] gc_tick_table [of os s None] assms(2)
    by (auto simp: s' remove_expired_garbage garbage_expired_def duration_since_def split: option.splits)
qed

theorem garbage_collection_outcome_witness:
  "let s = sample_deamon (sample_garbage_db 0); k = build_route_key (sample_entry 1 0 0)
   in \<not> hm_is_empty (garbage_routes (database s))
      \<and> (case handle_garbage_collection_tick sample_late_os (s, None) of
           (s', gc') \<Rightarrow> hm_get (garbage_routes (database s')) k = None \<and> gc' = None)"
proof -
  let ?s = "sample_deamon (sample_garbage_db 0)" and ?k = "build_route_key (sample_entry 1 0 0)"
  let ?t = "handle_garbage_collection_tick sample_late_os (?s, None)"
  have rib: "rib_ok (database ?s)" using sample_garbage_db_ok by (simp add: sample_deamon_def)
  have res: "?t = (fst ?t, snd ?t)" by simp
  have "hm_get (garbage_routes (database ?s)) ?k = Some (to_garbage 0 sample_old_route)"
    using sample_garbage_db_ok by (simp add: sample_deamon_def)
  moreover have "unat (garbage_collection_lifetime_secs sample_late_os) * 10 ^ 9 \<le> snd (instant_now sample_late_os ())"
    by (simp add: tick_evals sample_late_os_def)
  moreover have "world ?s = ()" by simp
  moreover have "garbage_routes (database (fst ?t)) = []"
    by (simp add: tick_evals sample_late_os_def sample_garbage_db_def sample_old_route_def)
  ultimately show ?thesis
    using garbage_collection_outcome [OF rib res, of ?k]
    by (simp add: Let_def to_garbage_def has_garbage_routes_def hm_is_empty_def hm_get_def split_def) auto
qed

text \<open>
  Garbage is not forgotten: once the collector is armed, a turn of the loop that goes on leaves it
  armed, or there is no garbage any more.
\<close>

theorem collector_armed_while_garbage:
  assumes "run_turn os drv ev st = (st', Continue reply)" and "garbage_collection_timer st \<noteq> None"
  shows "garbage_collection_timer st' \<noteq> None \<or> garbage_routes (database (deamon st')) = []"
  using collector_stays_armed [OF assms] by (auto simp: has_garbage_routes_def hm_is_empty_def)

theorem collector_armed_while_garbage_witness:
  "let st' = fst (run_turn quiet_os table_driver GarbageFired (sample_run (sample_garbage_db 0) (Some 5000000000)))
   in garbage_routes (database (deamon st')) \<noteq> [] \<and> garbage_collection_timer st' \<noteq> None"
proof -
  let ?st = "sample_run (sample_garbage_db 0) (Some 5000000000)"
  let ?st' = "fst (run_turn quiet_os table_driver GarbageFired ?st)"
  have turn: "run_turn quiet_os table_driver GarbageFired ?st = (?st', Continue None)"
    and garbage: "garbage_routes (database (deamon ?st')) \<noteq> []"
    by (simp_all add: run_evals sample_garbage_db_def cong: weak_congs)
  show ?thesis
    using collector_armed_while_garbage [OF turn] garbage by (simp add: sample_run_def)
qed



text \<open>
  C29: triggered updates are rate limited. While the lock is armed nothing is sent and nothing changes;
  when a change is announced the lock is armed for 1 to 5 seconds from the clock reading that
  follows; with no change nothing happens either.
\<close>

theorem triggered_update_rate_limit:
  assumes "maybe_send_triggered_update os (s, lock) = ((s', lock'), Inr ())"
  shows "if lock \<noteq> None \<or> \<not> any_route_changed (database s) then s' = s \<and> lock' = lock
    else (\<exists>w deadline. lock' = Some deadline
            \<and> snd (instant_now os w) + 10 ^ 9 \<le> deadline \<and> deadline \<le> snd (instant_now os w) + 5 * 10 ^ 9)
         \<and> \<not> any_route_changed (database s')"
proof -
  have "1000 \<le> snd (random_millis_in_range os 1000 5000 n)" "snd (random_millis_in_range os 1000 5000 n) \<le> 5000" for n
    using random_millis_bounds [of 1000 5000 os n] by simp_all
  then have "10 ^ 9 \<le> snd (create_triggered_update_lock_duration os n)"
    "snd (create_triggered_update_lock_duration os n) \<le> 5 * 10 ^ 9" for n
    by (simp_all add: create_triggered_update_lock_duration_def RIP_TRIGGERED_UPDATE_LOCK_MIN_MILLIS_def
        RIP_TRIGGERED_UPDATE_LOCK_MAX_MILLIS_def duration_from_millis_def nanos_per_milli_def word_le_nat_alt)
  note bounds = this
  show ?thesis
  proof (cases "lock \<noteq> None \<or> \<not> any_route_changed (database s)")
    case True
    then show ?thesis using assms by (auto simp: maybe_send_triggered_update_def)
  next
    case False
    obtain s1 u where send: "send_multicast_advertisement os True s = (s1, Inr u)"
      using assms False
      by (cases "send_multicast_advertisement os True s"; cases "snd (send_multicast_advertisement os True s)")
         (auto simp: maybe_send_triggered_update_def)
    then have "\<not> any_changed (database s1)"
      by (cases "on_world (rip_send_advertisement_multicast os (database s) (interfaces s) True) s";
          cases "snd (on_world (rip_send_advertisement_multicast os (database s) (interfaces s) True) s)")
         (auto simp: send_multicast_advertisement_def mark_all_routes_as_unchanged_def split: if_splits)
    moreover have "database s' = database s1"
      "lock' = Some (snd (instant_now os (fst (create_triggered_update_lock_duration os (world s1))))
         + snd (create_triggered_update_lock_duration os (world s1)))"
      using assms False send by (auto simp: maybe_send_triggered_update_def on_world_eq sleep_timer_def)
    ultimately show ?thesis
      using False bounds [of "world s1"]
      by (auto simp: any_route_changed_def
          intro!: exI [of _ "fst (create_triggered_update_lock_duration os (world s1))"])
  qed
qed

theorem triggered_update_rate_limit_witness:
  "\<exists>w deadline s'.
     maybe_send_triggered_update quiet_os (sample_deamon sample_changed_db, None) = ((s', Some deadline), Inr ())
     \<and> snd (instant_now quiet_os w) + 10 ^ 9 \<le> deadline \<and> deadline \<le> snd (instant_now quiet_os w) + 5 * 10 ^ 9
     \<and> \<not> any_route_changed (database s')"
proof -
  let ?s = "sample_deamon sample_changed_db"
  let ?r = "maybe_send_triggered_update quiet_os (?s, None)"
  have res: "?r = ((fst (fst ?r), snd (fst ?r)), Inr ())"
    by (simp add: run_evals sample_changed_db_def cong: weak_congs)
  have changed: "any_route_changed (database ?s)"
    by (simp add: sample_deamon_def sample_changed_db_def any_route_changed_def)
  show ?thesis
    using triggered_update_rate_limit [OF res] changed res by simp (metis prod.collapse)
qed

text \<open>
  The random delays stay in their ranges whatever the wall clock says: the request warm-up in 0.5
  to 1 second, the periodic update in 27.5 to 35, the triggered update lock in 1 to 5.
\<close>

theorem random_delay_bounds:
  "5 * 10 ^ 8 \<le> snd (create_request_warmup_duration os n) \<and> snd (create_request_warmup_duration os n) \<le> 10 ^ 9
   \<and> 275 * 10 ^ 8 \<le> snd (create_update_duration os n) \<and> snd (create_update_duration os n) \<le> 35 * 10 ^ 9
   \<and> 10 ^ 9 \<le> snd (create_triggered_update_lock_duration os n)
   \<and> snd (create_triggered_update_lock_duration os n) \<le> 5 * 10 ^ 9"
  using random_millis_bounds [of 500 1000 os n] random_millis_bounds [of 27500 35000 os n]
    random_millis_bounds [of 1000 5000 os n]
  by (simp add: create_request_warmup_duration_def create_update_duration_def
      create_triggered_update_lock_duration_def RIP_TRIGGERED_UPDATE_LOCK_MIN_MILLIS_def
      RIP_TRIGGERED_UPDATE_LOCK_MAX_MILLIS_def RIP_REQUEST_WARMUP_MIN_MILLIS_def
      RIP_REQUEST_WARMUP_MAX_MILLIS_def RIP_UPDATE_MIN_MILLIS_def RIP_UPDATE_MAX_MILLIS_def
      duration_from_millis_def nanos_per_milli_def word_le_nat_alt)

text \<open>
  The metric of a route learned from an offer is the offered metric plus one, at most 16, for every
  32-bit metric, so a metric field of all ones does not wrap around to a short route.
\<close>

theorem learned_metric:
  "unat (update_metric m) = min (unat m + 1) 16"
  by (rule update_metric_unat)

section \<open>Sending\<close>

text \<open>
  A multicast advertisement in a world that sends whole datagrams: on each interface in turn,
  every buffer built for that interface goes out to the RIP group from the interface's own socket,
  and then every change mark is cleared.
\<close>

theorem advertisement_sent:
  assumes "sends_whole os" and "db_wf (database s)"
  shows "send_multicast_advertisement os changed_only s =
    (s\<lparr> world := fold (after_call os)
                  (concat (map (\<lambda>ifc. map (\<lambda>b. SendTo (sock_fd (ifc_tx ifc)) b rip_multicast_target)
                     (build_response_buffers (endianness os) (database s) (sock_if_index (ifc_tx ifc)) changed_only))
                   (interfaces s))) (world s),
        database := mark_all_unconditionally (database s) \<rparr>, Inr ())"
  using advertisement_whole [OF assms(1), of "database s" "interfaces s" changed_only "world s"]
  by (simp add: send_multicast_advertisement_def on_world_eq mark_all_eq [OF assms(2)] advertisement_calls_def)

theorem advertisement_sent_witness:
  "let s = sample_sender (sample_db [1]);
       (s', res) = send_multicast_advertisement recording_os True s
   in res = Inr () \<and> world s' \<noteq> []
      \<and> world s' = fold (after_call recording_os)
            (map (\<lambda>b. SendTo 4 b rip_multicast_target) (build_response_buffers Big (sample_db [1]) 8 True)) []"
proof -
  let ?sent = "fold (after_call recording_os)
      (map (\<lambda>b. SendTo 4 b rip_multicast_target) (build_response_buffers Big (sample_db [1]) 8 True)) []"
  have whole: "sends_whole recording_os"
    by (simp add: sends_whole_def recording_os_def recording_sys_def)
  obtain b where "build_response_buffers Big (sample_db [1]) 8 True = [b]"
    using sample_buffers(1) by (auto simp: length_Suc_conv)
  then have "?sent \<noteq> []"
    by (simp add: after_call_def recording_os_def recording_sys_def)
  then show ?thesis
    using advertisement_sent [OF whole, of "sample_sender (sample_db [1])" True] sample_db_wf [of "[1]"]
    by (simp add: recording_os_def sample_sender_def del: sample_db.simps)
qed

text \<open>
  An advertisement that fails on the way keeps every change mark, so nothing is lost: what was not
  sent is announced by the next update. The error is an IO error.
\<close>

theorem failed_advertisement_keeps_changes:
  assumes "send_multicast_advertisement os changed_only s = (s', Inl err)"
  shows "database s' = database s \<and> routing_table s' = routing_table s \<and> (\<exists>t. err = IoError t)"
  using assms
  by (auto simp: send_multicast_advertisement_def map_err_def on_world_eq and_then_def
      split: prod.splits sum.splits)

theorem failed_advertisement_keeps_changes_witness:
  "let os = recording_os\<lparr> sys := (\<lambda>n c. (n, Inl (OsError ''network is unreachable''))) \<rparr>;
       s = sample_sender (sample_db [1])
   in any_route_changed (database (fst (send_multicast_advertisement os True s)))"
proof -
  let ?os = "recording_os\<lparr> sys := (\<lambda>n c. (n, Inl (OsError ''network is unreachable''))) \<rparr>"
  let ?s = "sample_sender (sample_db [1])"
  obtain b where b: "build_response_buffers Big (sample_db [1]) 8 True = [b]"
    using sample_buffers(1) by (auto simp: length_Suc_conv)
  then have res: "send_multicast_advertisement ?os True ?s = (?s, Inl (IoError ''network is unreachable''))"
    by (simp add: send_multicast_advertisement_def on_world_eq rip_send_advertisement_multicast_def
        advertise_on_def send_multicast_def recording_os_def sample_sender_def del: sample_db.simps)
  then have "send_multicast_advertisement ?os True ?s =
      (fst (send_multicast_advertisement ?os True ?s), Inl (IoError ''network is unreachable''))"
    by simp
  from failed_advertisement_keeps_changes [OF this]
  have "database (fst (send_multicast_advertisement ?os True ?s)) = sample_db [1]"
    by (simp add: sample_sender_def del: sample_db.simps)
  moreover have "any_route_changed (sample_db [1])" by code_simp
  ultimately show ?thesis by (simp only: Let_def)
qed



section \<open>Shutdown\<close>



section \<open>The running program\<close>





text \<open>
  C32: one malformed datagram ends the reception on an interface for good. When a task receives a
  datagram that is not a header and whole entries, from anyone, its loop ends, no packet is
  delivered, and the task runs in no state that can be reached from there.
\<close>

theorem malformed_datagram_silences_interface:
  assumes "i < length (tasks s)" and "rx_running (tasks s ! i)" and "outcome s = None"
    and "length bytes \<le> 2048" and "length bytes mod 20 \<noteq> 4"
  shows "\<exists>s'. system_step os drv checks (Datagram i bytes a) s = Some s' \<and> queue s' = queue s \<and> loop s' = loop s
    \<and> (\<forall>env s''. \<not> (reachable env os drv checks s' s'' \<and> rx_running (tasks s'' ! i)))"
proof -
  let ?s' = "s\<lparr> tasks := (tasks s)[i := (tasks s ! i)\<lparr> rx_running := False \<rparr>] \<rparr>"
  have "system_step os drv checks (Datagram i bytes a) s = Some ?s'"
    using assms malformed_datagram [of bytes checks a "tasks s ! i"]
    by (simp add: system_step_def RX_BUFFER_SIZE_def)
  moreover have "\<not> (reachable env os drv checks ?s' s'' \<and> rx_running (tasks s'' ! i))" for env s''
    using stopped_task_reachable [of env os drv checks ?s' s'' i] assms(1) by auto
  ultimately show ?thesis by fastforce
qed

theorem malformed_datagram_silences_interface_witness:
  "\<exists>s'. system_step quiet_os table_driver True (Datagram 0 [2] (V4 \<lparr> sa_ip = 3232235777, sa_port = 4000 \<rparr>)) sample_system
        = Some s'
     \<and> (\<forall>env s''. \<not> (reachable env quiet_os table_driver True s' s'' \<and> rx_running (tasks s'' ! 0)))"
proof -
  have "0 < length (tasks sample_system)" "rx_running (tasks sample_system ! 0)" "outcome sample_system = None"
    by (simp_all add: sample_system_def system_start_def run_start_def on_world_eq sleep_timer_def
        spawn_rx_tasks_def sample_start_eq List.map_filter_simps split: prod.splits)
  from malformed_datagram_silences_interface [OF this, of "[2]" quiet_os table_driver True "V4 \<lparr> sa_ip = 3232235777, sa_port = 4000 \<rparr>"]
  obtain s' where s': "system_step quiet_os table_driver True (Datagram 0 [2] (V4 \<lparr> sa_ip = 3232235777, sa_port = 4000 \<rparr>)) sample_system
        = Some s'"
      "\<forall>env s''. \<not> (reachable env quiet_os table_driver True s' s'' \<and> rx_running (tasks s'' ! 0))"
    by auto
  then show ?thesis by (intro exI conjI)
qed

text \<open>
  C33: a packet the daemon does not know ends the program, without withdrawing anything: a command other
  than request and response, a request that is not for the whole table, or a response of another
  version makes \<^verbatim>\<open>run\<close> return an error with the state as it was.
\<close>

theorem unknown_packet_stops_daemon:
  assumes "\<not> RipPacket_is_request packet"
    and "RipPacket_is_response packet \<Longrightarrow> version (header (packet_data packet)) \<noteq> RIP_2_VERSION"
  shows "run_turn os drv (Received (Some packet)) st = (st, Returned (Inl MalformedPacket))"
  using assms
  by (simp add: run_turn_def select_arm_def on_deamon_def handle_packet_def handle_response_packet_def
      stop_on_error_def)

theorem unknown_packet_stops_daemon_witness:
  "snd (run_turn quiet_os table_driver
     (Received (Some (sample_packet []\<lparr> packet_data :=
        \<lparr> header = \<lparr> command = 2, version = 1, padding = 0 \<rparr>, entries = [] \<rparr> \<rparr>))) (sample_run (sample_db [1]) None)) =
   Returned (Inl MalformedPacket)"
  using unknown_packet_stops_daemon [of "sample_packet []\<lparr> packet_data :=
        \<lparr> header = \<lparr> command = 2, version = 1, padding = 0 \<rparr>, entries = [] \<rparr> \<rparr>" quiet_os table_driver "sample_run (sample_db [1]) None"]
  by (simp add: packet_evals)

text \<open>
  C35: a route withdrawn by its neighbour starts no garbage collection: handling a packet never arms the
  collector, although it may put a route into the garbage. The garbage stays, and is announced, until
  some other route times out.
\<close>

theorem withdrawal_does_not_arm_collector:
  "garbage_collection_timer (fst (run_turn os drv (Received (Some packet)) st)) = garbage_collection_timer st
   \<and> (\<exists>withdrawal. garbage_routes (database (deamon (fst (run_turn quiet_os table_driver (Received (Some withdrawal))
         (sample_run sample_old_db None))))) \<noteq> []
       \<and> garbage_collection_timer (fst (run_turn quiet_os table_driver (Received (Some withdrawal))
         (sample_run sample_old_db None))) = None)"
proof -
  have frame: "garbage_collection_timer (fst (run_turn os drv (Received (Some packet)) st)) = garbage_collection_timer st"
    for os :: "'x os" and drv :: "'y RoutingTableDriver" and packet and st :: "('y, 'x) RunState"
    using triggered_update_frame(1) [of os "st\<lparr> deamon := fst (handle_packet os drv packet (deamon st)) \<rparr>"]
    by (auto simp: run_turn_def select_arm_def on_deamon_def stop_on_error_def split: prod.splits sum.splits turn.splits)
  moreover have "garbage_routes (database (deamon (fst (run_turn quiet_os table_driver (Received (Some (sample_packet [(1, 16)])))
      (sample_run sample_old_db None))))) \<noteq> []"
    by (simp add: run_evals cong: weak_congs)
  ultimately show ?thesis
    using frame [of quiet_os table_driver _ "sample_run sample_old_db None"] by (auto simp: sample_run_def)
qed

end
